(* ===== verification/Prelude.thy ===== *)
theory Prelude
  imports Main "HOL-Library.Word"
begin

text \<open>
  What every theory of the development shares: the names of the C integer types, the
  wrap-around of \<open>size_t\<close> arithmetic, the fact collections that the component
  theories fill, and lemmas on list updates and on words that more than one component uses.

  A \<open>enet_uint8\<close>, \<open>enet_uint16\<close> or \<open>enet_uint32\<close> of the C code is a word of that width, so
  that its arithmetic wraps as the code's does.  A \<open>size_t\<close> is a \<open>nat\<close>: it counts bytes or
  objects that exist in memory.  Where the code subtracts such values the result may wrap,
  and \<open>sz_sub\<close> writes the wrap-around of the 64-bit type out.
\<close>

unbundle bit_operations_syntax

type_synonym u8 = "8 word"
type_synonym u16 = "16 word"
type_synonym u32 = "32 word"

named_theorems acct_simps \<open>how an operation changes the connection accounting of a host\<close>
named_theorems heap_simps \<open>how an operation changes the packet heap and its references\<close>
named_theorems wire_simps \<open>encoding and decoding of the wire format\<close>
named_theorems frame_simps \<open>fields an operation leaves alone\<close>

section \<open>Sizes\<close>

definition size_max :: nat where
  "size_max = 2 ^ 64"

definition sz_sub :: "nat \<Rightarrow> nat \<Rightarrow> nat" where
  "sz_sub a b = (a + size_max - b) mod size_max"

definition sz_add :: "nat \<Rightarrow> nat \<Rightarrow> nat" where
  "sz_add a b = (a + b) mod size_max"

lemma sz_add_exact [simp]: "a + b < size_max \<Longrightarrow> sz_add a b = a + b"
  by (simp add: sz_add_def)

lemma sz_sub_exact [simp]: "b \<le> a \<Longrightarrow> a < size_max \<Longrightarrow> sz_sub a b = a - b"
proof -
  assume a: "b \<le> a" "a < size_max"
  have eq: "a + size_max - b = (a - b) + size_max" using a(1) by simp
  have "a - b < size_max" using a(2) by simp
  then have "(a - b + size_max) mod size_max = a - b" by simp
  then show "sz_sub a b = a - b" by (simp only: sz_sub_def eq)
qed

lemma sz_sub_wraps: "a < b \<Longrightarrow> b \<le> size_max \<Longrightarrow> sz_sub a b = size_max - (b - a)"
  by (simp add: sz_sub_def)

section \<open>Lists used as arrays\<close>

definition upd_nth :: "nat \<Rightarrow> ('a \<Rightarrow> 'a) \<Rightarrow> 'a list \<Rightarrow> 'a list" where
  "upd_nth i f xs = xs[i := f (xs ! i)]"

lemma length_upd_nth [simp]: "length (upd_nth i f xs) = length xs"
  by (simp add: upd_nth_def)

lemma nth_upd_nth_same [simp]: "i < length xs \<Longrightarrow> upd_nth i f xs ! i = f (xs ! i)"
  by (simp add: upd_nth_def)

lemma nth_upd_nth_other [simp]: "i \<noteq> j \<Longrightarrow> upd_nth i f xs ! j = xs ! j"
  by (simp add: upd_nth_def)

lemma nth_upd_nth: "j < length xs \<Longrightarrow>
  upd_nth i f xs ! j = (if i = j then f (xs ! j) else xs ! j)"
  by (auto simp: upd_nth_def)

lemma upd_nth_beyond [simp]: "length xs \<le> i \<Longrightarrow> upd_nth i f xs = xs"
  by (simp add: upd_nth_def list_update_beyond)

lemma upd_nth_twice [simp]:
  "upd_nth i f (upd_nth i g xs) = upd_nth i (\<lambda>x. f (g x)) xs"
  by (cases "i < length xs") (simp_all add: upd_nth_def list_update_beyond)

lemma upd_nth_split: "i < length xs \<Longrightarrow>
  upd_nth i f xs = take i xs @ f (xs ! i) # drop (Suc i) xs"
  by (simp add: upd_nth_def upd_conv_take_nth_drop)

lemma map_upd_nth_same: "(\<And>x. g (f x) = g x) \<Longrightarrow> map g (upd_nth i f xs) = map g xs"
  by (cases "i < length xs") (simp_all add: upd_nth_def map_update list_update_same_conv list_update_beyond)

text \<open>
  A count over an array changes at one index only; the accounting of connected peers and the
  reference counts of packets both rest on this.
\<close>

lemma sum_list_upd_nth:
  fixes g :: "'a \<Rightarrow> nat"
  assumes "i < length xs"
  shows "sum_list (map g (upd_nth i f xs)) + g (xs ! i) = sum_list (map g xs) + g (f (xs ! i))"
proof -
  have "xs = take i xs @ xs ! i # drop (Suc i) xs"
    using assms by (simp add: id_take_nth_drop)
  then have "sum_list (map g xs)
      = sum_list (map g (take i xs)) + g (xs ! i) + sum_list (map g (drop (Suc i) xs))"
    by (metis (no_types, lifting) add.assoc list.simps(9) map_append sum_list.Cons sum_list_append)
  then show ?thesis using assms by (simp add: upd_nth_split)
qed

lemma sum_list_nth_le:
  fixes g :: "'a \<Rightarrow> nat"
  shows "i < length xs \<Longrightarrow> g (xs ! i) \<le> sum_list (map g xs)"
  by (simp add: member_le_sum_list)

lemma count_list_le_length: "count_list xs x \<le> length xs"
  by (induction xs) auto

section \<open>Words\<close>

lemma unat_of_nat_id [simp]: "n < 2 ^ LENGTH('a) \<Longrightarrow> unat (of_nat n :: 'a::len word) = n"
  by (simp add: unat_of_nat take_bit_nat_eq_self)

lemma word_le_unat: "(a :: 'a::len word) \<le> b \<longleftrightarrow> unat a \<le> unat b"
  by (rule word_le_nat_alt)

lemma word_less_unat: "(a :: 'a::len word) < b \<longleftrightarrow> unat a < unat b"
  by (rule word_less_nat_alt)

end
