(* ===== verification/Enet_List.thy ===== *)
theory Enet_List
  imports Prelude
begin

text \<open>
  \<open>enet/list.c\<close> and \<open>enet/include/enet/list.h\<close>: the doubly linked circular lists with a
  sentinel on which every queue of ENet is built.  A node is an address; the heap maps an
  address to its \<open>next\<close> and \<open>previous\<close> fields and every operation is the sequence of
  pointer assignments of the code, in order.

  \<open>dl_list h s xs\<close> says that the sentinel \<open>s\<close> heads the list of the distinct nodes \<open>xs\<close>.
  Under it insertion, removal and splicing are insertion, removal and splicing of lists,
  and they leave every other list alone.  The locale \<open>node_lists\<close> states that contract,
  and the queues of the other components are HOL lists on the strength of it.
\<close>

section \<open>The code\<close>

record list_heap =
  "next" :: "nat \<Rightarrow> nat"
  previous :: "nat \<Rightarrow> nat"

definition set_next :: "nat \<Rightarrow> nat \<Rightarrow> list_heap \<Rightarrow> list_heap" where
  "set_next a v h = h\<lparr>next := (next h)(a := v)\<rparr>"

definition set_previous :: "nat \<Rightarrow> nat \<Rightarrow> list_heap \<Rightarrow> list_heap" where
  "set_previous a v h = h\<lparr>previous := (previous h)(a := v)\<rparr>"

definition enet_list_clear :: "nat \<Rightarrow> list_heap \<Rightarrow> list_heap" where
  "enet_list_clear sentinel h = set_previous sentinel sentinel (set_next sentinel sentinel h)"

definition enet_list_insert :: "nat \<Rightarrow> nat \<Rightarrow> list_heap \<Rightarrow> list_heap" where
  "enet_list_insert position result h =
    (let h = set_previous result (previous h position) h;
         h = set_next result position h;
         h = set_next (previous h result) result h;
         h = set_previous position result h
     in h)"

definition enet_list_remove :: "nat \<Rightarrow> list_heap \<Rightarrow> list_heap" where
  "enet_list_remove position h =
    (let h = set_next (previous h position) (next h position) h;
         h = set_previous (next h position) (previous h position) h
     in h)"

definition enet_list_move :: "nat \<Rightarrow> nat \<Rightarrow> nat \<Rightarrow> list_heap \<Rightarrow> list_heap" where
  "enet_list_move position dataFirst dataLast h =
    (let h = set_next (previous h dataFirst) (next h dataLast) h;
         h = set_previous (next h dataLast) (previous h dataFirst) h;
         h = set_previous dataFirst (previous h position) h;
         h = set_next dataLast position h;
         h = set_next (previous h dataFirst) dataFirst h;
         h = set_previous position dataLast h
     in h)"

definition enet_list_begin :: "nat \<Rightarrow> list_heap \<Rightarrow> nat" where
  "enet_list_begin sentinel h = next h sentinel"

definition enet_list_end :: "nat \<Rightarrow> nat" where
  "enet_list_end sentinel = sentinel"

definition enet_list_empty :: "nat \<Rightarrow> list_heap \<Rightarrow> bool" where
  "enet_list_empty sentinel h \<longleftrightarrow> enet_list_begin sentinel h = enet_list_end sentinel"

definition enet_list_back :: "nat \<Rightarrow> list_heap \<Rightarrow> nat" where
  "enet_list_back sentinel h = previous h sentinel"

text \<open>
  The loop of \<open>enet_list_size\<close> follows \<open>next\<close> until it meets the sentinel.  On a corrupted
  heap it may not stop, so the loop is a partial function.
\<close>

partial_function (option) size_from :: "list_heap \<Rightarrow> nat \<Rightarrow> nat \<Rightarrow> nat \<Rightarrow> nat option" where
  "size_from h sentinel position count =
    (if position \<noteq> enet_list_end sentinel
     then size_from h sentinel (next h position) (Suc count)
     else Some count)"

definition enet_list_size :: "nat \<Rightarrow> list_heap \<Rightarrow> nat option" where
  "enet_list_size sentinel h = size_from h sentinel (enet_list_begin sentinel h) 0"

section \<open>The abstraction\<close>

fun links :: "list_heap \<Rightarrow> nat list \<Rightarrow> bool" where
  "links h (a # b # r) \<longleftrightarrow> next h a = b \<and> previous h b = a \<and> links h (b # r)"
| "links h _ \<longleftrightarrow> True"

definition dl_list :: "list_heap \<Rightarrow> nat \<Rightarrow> nat list \<Rightarrow> bool" where
  "dl_list h s xs \<longleftrightarrow> distinct (s # xs) \<and> links h (s # xs @ [s])"

definition nodes :: "nat \<Rightarrow> nat list \<Rightarrow> nat set" where
  "nodes s xs = insert s (set xs)"

lemma links_append:
  "links h (xs @ a # ys) \<longleftrightarrow> links h (xs @ [a]) \<and> links h (a # ys)"
proof (induction xs)
  case Nil
  then show ?case by (cases ys) simp_all
next
  case (Cons x xs)
  then show ?case by (cases xs) auto
qed

lemma links_set_next [simp]: "a \<notin> set (butlast xs) \<Longrightarrow> links (set_next a v h) xs = links h xs"
  by (induction h xs rule: links.induct) (auto simp: set_next_def)

lemma links_set_previous [simp]: "a \<notin> set (tl xs) \<Longrightarrow> links (set_previous a v h) xs = links h xs"
  by (induction h xs rule: links.induct) (auto simp: set_previous_def)

lemma next_set_next [simp]: "next (set_next a v h) b = (if a = b then v else next h b)"
  by (simp add: set_next_def)

lemma next_set_previous [simp]: "next (set_previous a v h) = next h"
  by (simp add: set_previous_def)

lemma previous_set_previous [simp]:
  "previous (set_previous a v h) b = (if a = b then v else previous h b)"
  by (simp add: set_previous_def)

lemma previous_set_next [simp]: "previous (set_next a v h) = previous h"
  by (simp add: set_next_def)

text \<open>
  A link between neighbours \<open>p\<close> and \<open>q\<close> splits the circle in two: the part from \<open>s\<close> to
  \<open>p\<close> and the part from \<open>q\<close> back to \<open>s\<close>.
\<close>

lemma links_snoc2: "links h (xs @ [p, q]) \<longleftrightarrow> links h (xs @ [p]) \<and> next h p = q \<and> previous h q = p"
  using links_append [of h xs p "[q]"] by simp

lemma circle_split: "links h (s # xs @ q # ys) \<longleftrightarrow>
    links h (s # xs) \<and> next h (last (s # xs)) = q \<and> previous h q = last (s # xs)
    \<and> links h (q # ys)"
proof (cases xs rule: rev_cases)
  case Nil
  then show ?thesis by simp
next
  case (snoc us p)
  then show ?thesis
    using links_append [of h "s # us" p "q # ys"] links_append [of h "s # us" p "[]"] by simp
qed

text \<open>
  The neighbours of a position: the node before it is not met again on the way to it, nor
  on the way on from it.
\<close>

lemma last_notin_butlast: "distinct xs \<Longrightarrow> xs \<noteq> [] \<Longrightarrow> last xs \<notin> set (butlast xs)"
  by (metis append_butlast_last_id distinct_append insertI1 list.simps(15) disjoint_iff)

lemma gap_facts:
  assumes "ys @ [s] = q # qs" and "distinct (s # xs @ ys)"
  shows "last (s # xs) \<notin> set (butlast (s # xs))" "last (s # xs) \<notin> set (butlast (q # qs))"
    "q \<notin> set xs" "q \<notin> set qs" "set (q # qs) = insert s (set ys)"
proof -
  show "last (s # xs) \<notin> set (butlast (s # xs))"
    by (rule last_notin_butlast) (use assms(2) in simp_all)
  have "last (s # xs) \<notin> set ys"
    using assms(2) last_in_set [of "s # xs"] by auto
  moreover have "butlast (q # qs) = ys"
    using assms(1) by (metis butlast_snoc)
  ultimately show "last (s # xs) \<notin> set (butlast (q # qs))" by simp
  show "q \<notin> set xs" "q \<notin> set qs"
    using assms by (cases ys; auto)+
  show "set (q # qs) = insert s (set ys)"
    using arg_cong [OF assms(1), of set] by auto
qed

text \<open>What the assignments of the three operations amount to.\<close>

lemma insert_links:
  assumes q: "ys @ [s] = q # qs" and d: "distinct (s # xs @ ys)"
    and l: "links h (s # xs @ ys @ [s])" and r: "r \<notin> set (s # xs @ ys)"
  shows "links (enet_list_insert q r h) (s # (xs @ [r]) @ ys @ [s])"
proof -
  let ?p = "last (s # xs)"
  note g = gap_facts [OF q d]
  have pq: "links h (s # xs)" "next h ?p = q" "previous h q = ?p" "links h (q # qs)"
    using l circle_split [of h s xs q qs] by (simp_all add: q)
  have r': "?p \<noteq> r" "q \<noteq> r" "r \<notin> set (s # xs)" "r \<notin> set (q # qs)"
    "r \<notin> set (butlast (s # xs))" "r \<notin> set (butlast (q # qs))"
  proof -
    show sx: "r \<notin> set (s # xs)" and qq: "r \<notin> set (q # qs)"
      using r by (simp_all only: g(5)) auto
    show "?p \<noteq> r" using sx last_in_set [of "s # xs"] by (metis list.distinct(1))
    show "q \<noteq> r" using qq by simp
    show "r \<notin> set (butlast (s # xs))" "r \<notin> set (butlast (q # qs))"
      using sx qq by (blast dest: in_set_butlastD)+
  qed
  have r'': "r \<noteq> q" "r \<noteq> ?p" using r' by auto
  let ?h = "enet_list_insert q r h"
  have h: "next ?h = (next h)(r := q, ?p := r)" "previous ?h = (previous h)(r := ?p, q := r)"
    unfolding enet_list_insert_def Let_def set_next_def set_previous_def
    using pq(2,3) r'(1,2) r'' by auto
  have "links ?h (s # xs)" "links ?h (q # qs)"
    unfolding enet_list_insert_def Let_def using pq r' g(1-4) r'' by simp_all
  then show ?thesis
    using h r' r'' by (simp add: q circle_split del: last.simps)
qed

lemma remove_links:
  assumes q: "ys @ [s] = q # qs" and d: "distinct (s # xs @ x # ys)"
    and l: "links h (s # xs @ x # ys @ [s])"
  shows "links (enet_list_remove x h) (s # xs @ ys @ [s])"
proof -
  let ?p = "last (s # xs)"
  have d': "distinct (s # xs @ ys)" using d by auto
  note g = gap_facts [OF q d']
  have pq: "links h (s # xs)" "next h ?p = x" "previous h x = ?p" "next h x = q"
      "previous h q = x" "links h (q # qs)"
    using l circle_split [of h s xs x "q # qs"] by (simp_all add: q)
  have x: "x \<noteq> ?p" using d last_in_set [of "s # xs"] by auto
  have h: "enet_list_remove x h = set_previous q ?p (set_next ?p q h)"
    unfolding enet_list_remove_def Let_def using pq x by simp
  have "links (enet_list_remove x h) (s # xs)" "links (enet_list_remove x h) (q # qs)"
    unfolding h using pq g(1-4) by simp_all
  then show ?thesis
    by (simp add: q circle_split h del: last.simps)
qed

text \<open>
  \<open>enet_list_move\<close> takes the nodes \<open>ms\<close> out of the list of \<open>s\<close> and puts them, in their
  order, before the position \<open>z\<close> of the list of \<open>t\<close>.
\<close>

lemma move_heap:
  assumes "next h lst = q" "previous h fs = p" "previous h z = w"
    and "p \<noteq> lst" "fs \<noteq> q" "z \<noteq> q" "z \<noteq> fs"
  shows "enet_list_move z fs lst h
    = set_previous z lst (set_next w fs (set_next lst z
        (set_previous fs w (set_previous q p (set_next p q h)))))"
  unfolding enet_list_move_def Let_def using assms by simp

lemma links_segment: "links h (ms @ q # qs) \<Longrightarrow> ms \<noteq> [] \<Longrightarrow>
    links h ms \<and> next h (last ms) = q \<and> previous h q = last ms \<and> links h (q # qs)"
  using circle_split [of h "hd ms" "tl ms" q qs] by (cases ms) simp_all

lemma links_join: "links h ms \<Longrightarrow> next h (last ms) = q \<Longrightarrow> previous h q = last ms \<Longrightarrow>
    links h (q # qs) \<Longrightarrow> ms \<noteq> [] \<Longrightarrow> links h (ms @ q # qs)"
  using circle_split [of h "hd ms" "tl ms" q qs] by (cases ms) simp_all

lemma apart: "A \<inter> B = {} \<Longrightarrow> a \<in> A \<Longrightarrow> a \<notin> B"
  by blast

lemma move_links:
  assumes q: "ys @ [s] = q # qs" and z: "vs @ [t] = z # zs"
    and d: "distinct (s # xs @ ms @ ys)" "distinct (t # us @ vs)"
      "nodes s (xs @ ms @ ys) \<inter> nodes t (us @ vs) = {}"
    and l: "links h (s # xs @ ms @ ys @ [s])" "links h (t # us @ vs @ [t])" and ms: "ms \<noteq> []"
  shows "links (enet_list_move z (hd ms) (last ms) h) (s # xs @ ys @ [s])"
    and "links (enet_list_move z (hd ms) (last ms) h) (t # us @ ms @ vs @ [t])"
proof -
  let ?p = "last (s # xs)" and ?w = "last (t # us)" and ?f = "hd ms" and ?l = "last ms"
  let ?h = "enet_list_move z ?f ?l h"
  have d': "distinct (s # xs @ ys)" using d(1) by auto
  note g = gap_facts [OF q d'] gap_facts [OF z d(2)]
  obtain m mt where m: "ms = m # mt" using ms by (cases ms) auto
  have S: "links h (s # xs)" "next h ?p = ?f" "previous h ?f = ?p" "links h (ms @ q # qs)"
    using l(1) circle_split [of h s xs m "mt @ q # qs"] by (simp_all add: q m)
  have M: "links h ms" "next h ?l = q" "links h (q # qs)"
    using links_segment [OF S(4) ms] by simp_all
  have T: "links h (t # us)" "previous h z = ?w" "links h (z # zs)"
    using l(2) circle_split [of h t us z zs] by (simp_all add: z)
  have tl: "set (q # qs) = insert s (set ys)" "set (z # zs) = insert t (set vs)"
      "set qs \<subseteq> set (q # qs)" "set zs \<subseteq> set (z # zs)" "set (tl ms) \<subseteq> set ms"
    by (rule g(5), rule g(10), auto simp: m)
  have A: "?p \<in> set (s # xs)" and C: "?w \<in> set (t # us)"
    by (rule last_in_set, simp)+
  have M1: "?f \<in> set ms"
      and M2: "?l \<in> set ms" and D: "z \<in> set (z # zs)" and B: "q \<in> set (q # qs)"
    using ms by (auto intro: last_in_set simp del: last.simps)
  have dis: "set (s # xs) \<inter> set ms = {}" "set (q # qs) \<inter> set ms = {}"
      "set (t # us) \<inter> set ms = {}" "set (z # zs) \<inter> set ms = {}"
      "set (q # qs) \<inter> set (z # zs) = {}" "set (s # xs) \<inter> set (z # zs) = {}"
      "set (s # xs) \<inter> set (t # us) = {}" "set (q # qs) \<inter> set (t # us) = {}"
    unfolding tl(1,2) using d by (auto simp: nodes_def)
  note ap = apart [OF dis(1)] apart [OF dis(2)] apart [OF dis(3)] apart [OF dis(4)]
    apart [OF dis(5)] apart [OF dis(6)] apart [OF dis(7)] apart [OF dis(8)]
  have ne: "?p \<noteq> ?l" "?f \<noteq> q" "z \<noteq> q" "z \<noteq> ?f" "?l \<noteq> ?w" "?p \<noteq> ?w"
    using ap A B C D M1 M2 by metis+
  have h: "?h = set_previous z ?l (set_next ?w ?f (set_next ?l z
        (set_previous ?f ?w (set_previous q ?p (set_next ?p q h)))))"
    by (rule move_heap [OF M(2) S(3) T(2) ne(1-4)])
  have bl: "set (butlast (s # xs)) \<subseteq> set (s # xs)" "set (butlast (q # qs)) \<subseteq> set (q # qs)"
      "set (butlast (t # us)) \<subseteq> set (t # us)" "set (butlast (z # zs)) \<subseteq> set (z # zs)"
      "set (butlast ms) \<subseteq> set ms"
    by (blast dest: in_set_butlastD)+
  have dm: "?l \<notin> set (butlast ms)" "?f \<notin> set (tl ms)"
    using d(1) last_notin_butlast [of ms] by (simp_all add: m)
  have n: "?l \<notin> set (butlast (s # xs))" "?w \<notin> set (butlast (s # xs))"
      "?l \<notin> set (butlast (q # qs))" "?w \<notin> set (butlast (q # qs))"
      "?p \<notin> set (butlast (t # us))" "?l \<notin> set (butlast (t # us))"
      "?p \<notin> set (butlast (z # zs))" "?l \<notin> set (butlast (z # zs))"
      "?p \<notin> set (butlast ms)" "?w \<notin> set (butlast ms)"
    using ap A B C D M1 M2 bl tl(3-) by (metis subsetD)+
  have v: "?f \<notin> set (s # xs)" "z \<notin> set (s # xs)" "?f \<notin> set qs" "z \<notin> set qs"
      "q \<notin> set (t # us)" "?f \<notin> set (t # us)" "q \<notin> set zs" "?f \<notin> set zs"
      "q \<notin> set (tl ms)" "z \<notin> set (tl ms)"
    using ap A B C D M1 M2 bl tl(3-) by (metis subsetD)+
  have "links ?h (s # xs)" "links ?h (q # qs)"
    unfolding h using S(1) M(3) n v g(1-4) by simp_all
  moreover have "links ?h (t # us)" "links ?h (z # zs)"
    unfolding h using T(1,3) n v g(6-9) by simp_all
  moreover have "links ?h ms"
    unfolding h using M(1) n v dm by (simp del: last.simps butlast.simps)
  moreover have "next ?h ?p = q" "previous ?h q = ?p" "next ?h ?w = ?f" "previous ?h ?f = ?w"
      "next ?h ?l = z" "previous ?h z = ?l"
    unfolding h using ne by simp_all
  ultimately show "links ?h (s # xs @ ys @ [s])" "links ?h (t # us @ ms @ vs @ [t])"
    by (simp_all add: q z circle_split m links_join del: last.simps)
qed

section \<open>Insertion, removal and splicing are those of lists\<close>

lemma hd_snoc_Cons: "\<exists>qs. ys @ [s] = hd (ys @ [s]) # qs"
  by (cases ys) simp_all

lemma dl_list_clear: "dl_list (enet_list_clear s h) s []"
  by (simp add: dl_list_def enet_list_clear_def)

lemma dl_list_insert:
  assumes "dl_list h s (xs @ ys)" and "r \<notin> nodes s (xs @ ys)"
  shows "dl_list (enet_list_insert (hd (ys @ [s])) r h) s (xs @ r # ys)"
proof -
  obtain qs where q: "ys @ [s] = hd (ys @ [s]) # qs" by (rule exE [OF hd_snoc_Cons])
  show ?thesis
    using insert_links [OF q, of xs h r] assms by (auto simp: dl_list_def nodes_def)
qed

lemma dl_list_remove:
  assumes "dl_list h s (xs @ x # ys)"
  shows "dl_list (enet_list_remove x h) s (xs @ ys)"
proof -
  obtain qs where q: "ys @ [s] = hd (ys @ [s]) # qs" by (rule exE [OF hd_snoc_Cons])
  show ?thesis
    using remove_links [OF q, of xs x h] assms by (auto simp: dl_list_def)
qed

lemma dl_list_move:
  assumes s: "dl_list h s (xs @ ms @ ys)" and t: "dl_list h t (us @ vs)"
    and d: "nodes s (xs @ ms @ ys) \<inter> nodes t (us @ vs) = {}" and ms: "ms \<noteq> []"
  shows "dl_list (enet_list_move (hd (vs @ [t])) (hd ms) (last ms) h) s (xs @ ys)"
    and "dl_list (enet_list_move (hd (vs @ [t])) (hd ms) (last ms) h) t (us @ ms @ vs)"
proof -
  obtain qs where q: "ys @ [s] = hd (ys @ [s]) # qs" by (rule exE [OF hd_snoc_Cons])
  obtain zs where z: "vs @ [t] = hd (vs @ [t]) # zs" by (rule exE [OF hd_snoc_Cons])
  have ds: "distinct (s # xs @ ms @ ys)" "distinct (t # us @ vs)"
    and l: "links h (s # xs @ ms @ ys @ [s])" "links h (t # us @ vs @ [t])"
    using s t by (simp_all add: dl_list_def)
  note m = move_links [OF q z ds d l ms]
  show "dl_list (enet_list_move (hd (vs @ [t])) (hd ms) (last ms) h) s (xs @ ys)"
    using m(1) ds by (auto simp: dl_list_def)
  show "dl_list (enet_list_move (hd (vs @ [t])) (hd ms) (last ms) h) t (us @ ms @ vs)"
    using m(2) ds d by (auto simp: dl_list_def nodes_def)
qed

subsection \<open>Other lists are left alone\<close>

lemma links_other:
  assumes "\<And>a. a \<in> set zs \<Longrightarrow> next h' a = next h a \<and> previous h' a = previous h a"
  shows "links h' zs = links h zs"
  using assms by (induction h zs rule: links.induct) auto

lemma dl_list_neighbours:
  assumes "dl_list h s (xs @ x # ys)"
  shows "previous h x \<in> nodes s (xs @ ys)" "next h x \<in> nodes s (xs @ ys)"
proof -
  obtain q qs where q: "ys @ [s] = q # qs" by (cases "ys @ [s]") simp_all
  have "previous h x = last (s # xs)" "next h x = q"
    using assms circle_split [of h s xs x "q # qs"] by (simp_all add: dl_list_def q)
  moreover have "last (s # xs) \<in> set (s # xs)" by (rule last_in_set) simp
  moreover have "q \<in> insert s (set ys)" using q by (cases ys) auto
  ultimately show "previous h x \<in> nodes s (xs @ ys)" "next h x \<in> nodes s (xs @ ys)"
    by (auto simp: nodes_def)
qed

lemma dl_list_end_neighbour:
  assumes "dl_list h s (xs @ ys)"
  shows "previous h (hd (ys @ [s])) \<in> nodes s xs"
proof -
  obtain qs where q: "ys @ [s] = hd (ys @ [s]) # qs" by (rule exE [OF hd_snoc_Cons])
  have "previous h (hd (ys @ [s])) = last (s # xs)"
    using assms circle_split [of h s xs "hd (ys @ [s])" qs] q by (simp add: dl_list_def)
  moreover have "last (s # xs) \<in> set (s # xs)" by (rule last_in_set) simp
  ultimately show ?thesis by (auto simp: nodes_def)
qed

definition touches :: "nat set \<Rightarrow> list_heap \<Rightarrow> list_heap \<Rightarrow> bool" where
  "touches A h h' \<longleftrightarrow> (\<forall>a. a \<notin> A \<longrightarrow> next h' a = next h a \<and> previous h' a = previous h a)"

lemma dl_list_frame:
  assumes "touches A h h'" and "dl_list h t zs" and "nodes t zs \<inter> A = {}"
  shows "dl_list h' t zs"
proof -
  have "links h' (t # zs @ [t]) = links h (t # zs @ [t])"
    by (rule links_other) (use assms(1,3) in \<open>auto simp: touches_def nodes_def\<close>)
  then show ?thesis using assms(2) by (simp add: dl_list_def)
qed

lemma touches_refl: "touches A h h"
  by (simp add: touches_def)

lemma touches_set_next: "touches A h g \<Longrightarrow> a \<in> A \<Longrightarrow> touches A h (set_next a v g)"
  by (auto simp: touches_def)

lemma touches_set_previous: "touches A h g \<Longrightarrow> a \<in> A \<Longrightarrow> touches A h (set_previous a v g)"
  by (auto simp: touches_def)

lemma touches_clear: "touches {s} h (enet_list_clear s h)"
  by (simp add: touches_def enet_list_clear_def)

lemma hd_in_nodes: "hd (ys @ [s]) \<in> nodes s (xs @ ys)"
  by (cases ys) (simp_all add: nodes_def)

lemma touches_insert:
  assumes "dl_list h s (xs @ ys)"
  shows "touches (insert r (nodes s (xs @ ys))) h (enet_list_insert (hd (ys @ [s])) r h)"
  using dl_list_end_neighbour [OF assms] hd_in_nodes [of ys s xs]
  by (auto simp: touches_def enet_list_insert_def Let_def nodes_def)

lemma touches_remove:
  assumes "dl_list h s (xs @ x # ys)"
  shows "touches (nodes s (xs @ ys)) h (enet_list_remove x h)"
  using dl_list_neighbours [OF assms]
  by (auto simp: touches_def enet_list_remove_def Let_def)

lemma touches_move:
  assumes s: "dl_list h s (xs @ ms @ ys)" and t: "dl_list h t (us @ vs)"
    and d: "nodes s (xs @ ms @ ys) \<inter> nodes t (us @ vs) = {}" and ms: "ms \<noteq> []"
  shows "touches (nodes s (xs @ ms @ ys) \<union> nodes t (us @ vs)) h
    (enet_list_move (hd (vs @ [t])) (hd ms) (last ms) h)"
proof -
  let ?z = "hd (vs @ [t])"
  obtain m mt where m: "ms = m # mt" using ms by (cases ms) auto
  obtain bs l where bl: "ms = bs @ [l]" using ms by (cases ms rule: rev_cases) auto
  have f: "previous h (hd ms) \<in> nodes s (xs @ ms @ ys)" "hd ms \<in> nodes s (xs @ ms @ ys)"
    using dl_list_neighbours(1) [of h s xs m "mt @ ys"] s m by (auto simp: nodes_def)
  have e: "next h (last ms) \<in> nodes s (xs @ ms @ ys)" "last ms \<in> nodes s (xs @ ms @ ys)"
    using dl_list_neighbours(2) [of h s "xs @ bs" l ys] s bl by (auto simp: nodes_def)
  have z: "previous h ?z \<in> nodes t (us @ vs)" "?z \<in> nodes t (us @ vs)"
    using dl_list_end_neighbour [OF t] hd_in_nodes [of vs t us] by (auto simp: nodes_def)
  show ?thesis
    unfolding enet_list_move_def Let_def
    by (intro touches_set_next touches_set_previous touches_refl) (use f e z in simp_all)
qed

section \<open>The size\<close>

lemma size_from_links:
  "links h (p # ys @ [s]) \<Longrightarrow> s \<notin> set (p # ys) \<Longrightarrow>
    size_from h s p n = Some (n + Suc (length ys))"
proof (induction ys arbitrary: p n)
  case Nil
  then show ?case by (simp add: size_from.simps [of h s p n] size_from.simps [of h s s] enet_list_end_def)
next
  case (Cons y ys)
  then show ?case by (subst size_from.simps) (simp add: enet_list_end_def)
qed

lemma enet_list_size_links: "dl_list h s xs \<Longrightarrow> enet_list_size s h = Some (length xs)"
proof (cases xs)
  case Nil
  assume "dl_list h s xs"
  with Nil show ?thesis
    by (simp add: dl_list_def enet_list_size_def enet_list_begin_def enet_list_end_def
        size_from.simps)
next
  case (Cons x ys)
  assume "dl_list h s xs"
  with Cons show ?thesis
    using size_from_links [of h x ys s 0]
    by (simp add: dl_list_def enet_list_size_def enet_list_begin_def)
qed

lemma enet_list_empty_iff: "dl_list h s xs \<Longrightarrow> enet_list_empty s h \<longleftrightarrow> xs = []"
  by (cases xs) (auto simp: dl_list_def enet_list_empty_def enet_list_begin_def enet_list_end_def)

section \<open>The contract the queues rest on\<close>

text \<open>
  \<open>holds h s xs\<close> is any reading of the heap under which the five operations are list
  operations and leave disjoint lists alone.
\<close>

locale node_lists =
  fixes holds :: "'h \<Rightarrow> nat \<Rightarrow> nat list \<Rightarrow> bool"
    and clear :: "nat \<Rightarrow> 'h \<Rightarrow> 'h"
    and insert_at :: "nat \<Rightarrow> nat \<Rightarrow> 'h \<Rightarrow> 'h"
    and unlink :: "nat \<Rightarrow> 'h \<Rightarrow> 'h"
    and splice :: "nat \<Rightarrow> nat \<Rightarrow> nat \<Rightarrow> 'h \<Rightarrow> 'h"
    and size_of :: "nat \<Rightarrow> 'h \<Rightarrow> nat option"
  assumes holds_distinct: "holds h s xs \<Longrightarrow> distinct (s # xs)"
    and holds_clear: "holds (clear s h) s []"
    and holds_insert: "holds h s (xs @ ys) \<Longrightarrow> r \<notin> nodes s (xs @ ys) \<Longrightarrow>
      holds (insert_at (hd (ys @ [s])) r h) s (xs @ r # ys)"
    and holds_unlink: "holds h s (xs @ x # ys) \<Longrightarrow> holds (unlink x h) s (xs @ ys)"
    and holds_splice: "holds h s (xs @ ms @ ys) \<Longrightarrow> holds h t (us @ vs) \<Longrightarrow>
      nodes s (xs @ ms @ ys) \<inter> nodes t (us @ vs) = {} \<Longrightarrow> ms \<noteq> [] \<Longrightarrow>
      holds (splice (hd (vs @ [t])) (hd ms) (last ms) h) s (xs @ ys)
      \<and> holds (splice (hd (vs @ [t])) (hd ms) (last ms) h) t (us @ ms @ vs)"
    and holds_size: "holds h s xs \<Longrightarrow> size_of s h = Some (length xs)"
    and frame_insert: "holds h s (xs @ ys) \<Longrightarrow> holds h t zs \<Longrightarrow>
      nodes t zs \<inter> insert r (nodes s (xs @ ys)) = {} \<Longrightarrow>
      holds (insert_at (hd (ys @ [s])) r h) t zs"
    and frame_unlink: "holds h s (xs @ x # ys) \<Longrightarrow> holds h t zs \<Longrightarrow>
      nodes t zs \<inter> nodes s (xs @ ys) = {} \<Longrightarrow> holds (unlink x h) t zs"
begin

lemma append_node: "holds h s xs \<Longrightarrow> r \<notin> nodes s xs \<Longrightarrow> holds (insert_at s r h) s (xs @ [r])"
  using holds_insert [of h s xs "[]" r] by simp

lemma unlink_first: "holds h s (x # xs) \<Longrightarrow> holds (unlink x h) s xs"
  using holds_unlink [of h s "[]" x xs] by simp

text \<open>
  Taking a node out of one queue and appending it to another, as a command does that moves
  from \<open>outgoingCommands\<close> to \<open>sentReliableCommands\<close>.
\<close>

lemma requeue:
  assumes s: "holds h s (xs @ x # ys)" and t: "holds h t zs"
    and d: "nodes s (xs @ x # ys) \<inter> nodes t zs = {}"
  shows "holds (insert_at t x (unlink x h)) s (xs @ ys) \<and>
    holds (insert_at t x (unlink x h)) t (zs @ [x])"
proof -
  have s': "holds (unlink x h) s (xs @ ys)" by (rule holds_unlink [OF s])
  have "nodes t zs \<inter> nodes s (xs @ ys) = {}" using d by (auto simp: nodes_def)
  then have t': "holds (unlink x h) t zs" by (rule frame_unlink [OF s t])
  have x: "x \<notin> nodes t zs" "x \<notin> nodes s (xs @ ys)"
    using d holds_distinct [OF s] by (auto simp: nodes_def)
  moreover have "nodes s (xs @ ys) \<inter> insert x (nodes t (zs @ [])) = {}"
    using d x by (auto simp: nodes_def)
  ultimately show ?thesis
    using frame_insert [of "unlink x h" t zs "[]" s "xs @ ys" x] append_node [OF t' x(1)] s' t'
    by simp
qed

text \<open>
  Splicing the front of a queue, up to the node before \<open>ys\<close>, onto the end of another: how
  received commands are dispatched.
\<close>

lemma splice_front:
  assumes "holds h s (ms @ ys)" and "holds h t us"
    and "nodes s (ms @ ys) \<inter> nodes t us = {}" and "ms \<noteq> []"
  shows "holds (splice t (hd ms) (last ms) h) s ys \<and>
    holds (splice t (hd ms) (last ms) h) t (us @ ms)"
  using holds_splice [of h s "[]" ms ys t us "[]"] assms by simp

end

interpretation enet_lists: node_lists dl_list enet_list_clear enet_list_insert enet_list_remove
  enet_list_move enet_list_size
proof unfold_locales
  fix h s xs ys r t zs
  show "dl_list h s xs \<Longrightarrow> distinct (s # xs)" by (simp add: dl_list_def)
  show "dl_list (enet_list_clear s h) s []" by (rule dl_list_clear)
  show "dl_list h s (xs @ ys) \<Longrightarrow> r \<notin> nodes s (xs @ ys) \<Longrightarrow>
      dl_list (enet_list_insert (hd (ys @ [s])) r h) s (xs @ r # ys)"
    by (rule dl_list_insert)
  show "dl_list h s xs \<Longrightarrow> enet_list_size s h = Some (length xs)"
    by (rule enet_list_size_links)
  show "dl_list h s (xs @ ys) \<Longrightarrow> dl_list h t zs \<Longrightarrow>
      nodes t zs \<inter> insert r (nodes s (xs @ ys)) = {} \<Longrightarrow>
      dl_list (enet_list_insert (hd (ys @ [s])) r h) t zs"
    by (rule dl_list_frame [OF touches_insert])
next
  fix h s xs x ys t zs
  show "dl_list h s (xs @ x # ys) \<Longrightarrow> dl_list (enet_list_remove x h) s (xs @ ys)"
    by (rule dl_list_remove)
  show "dl_list h s (xs @ x # ys) \<Longrightarrow> dl_list h t zs \<Longrightarrow>
      nodes t zs \<inter> nodes s (xs @ ys) = {} \<Longrightarrow> dl_list (enet_list_remove x h) t zs"
    by (rule dl_list_frame [OF touches_remove])
next
  fix h s xs ms ys t us vs
  show "dl_list h s (xs @ ms @ ys) \<Longrightarrow> dl_list h t (us @ vs) \<Longrightarrow>
      nodes s (xs @ ms @ ys) \<inter> nodes t (us @ vs) = {} \<Longrightarrow> ms \<noteq> [] \<Longrightarrow>
      dl_list (enet_list_move (hd (vs @ [t])) (hd ms) (last ms) h) s (xs @ ys)
      \<and> dl_list (enet_list_move (hd (vs @ [t])) (hd ms) (last ms) h) t (us @ ms @ vs)"
    by (blast intro: dl_list_move)
qed

section \<open>Runs of queue operations\<close>

text \<open>
  The queues of a host live on one heap.  A run appends nodes at the end of a queue, takes
  a node out, or splices the front of one queue onto another; on the heap each is the call
  of \<open>list.c\<close> that the code makes, with the node found by following \<open>next\<close>.
\<close>

datatype list_op =
  Append nat nat        \<comment> \<open>queue, new node\<close>
| Take_Out nat nat      \<comment> \<open>queue, index\<close>
| Splice_Front nat nat nat  \<comment> \<open>from queue, how many, to queue\<close>

definition node_at :: "nat \<Rightarrow> nat \<Rightarrow> list_heap \<Rightarrow> nat" where
  "node_at s i h = ((next h) ^^ Suc i) s"

fun heap_step :: "list_op \<Rightarrow> list_heap \<Rightarrow> list_heap" where
  "heap_step (Append t r) h = enet_list_insert (enet_list_end t) r h"
| "heap_step (Take_Out s i) h = enet_list_remove (node_at s i h) h"
| "heap_step (Splice_Front s n t) h =
     enet_list_move (enet_list_end t) (enet_list_begin s h) (node_at s (n - 1) h) h"

fun list_step :: "list_op \<Rightarrow> (nat \<Rightarrow> nat list) \<Rightarrow> (nat \<Rightarrow> nat list)" where
  "list_step (Append t r) L = L(t := L t @ [r])"
| "list_step (Take_Out s i) L = L(s := take i (L s) @ drop (Suc i) (L s))"
| "list_step (Splice_Front s n t) L = L(s := drop n (L s), t := L t @ take n (L s))"

fun op_ok :: "nat list \<Rightarrow> (nat \<Rightarrow> nat list) \<Rightarrow> list_op \<Rightarrow> bool" where
  "op_ok S L (Append t r) \<longleftrightarrow> t \<in> set S \<and> (\<forall>s\<in>set S. r \<noteq> s \<and> r \<notin> set (L s))"
| "op_ok S L (Take_Out s i) \<longleftrightarrow> s \<in> set S \<and> i < length (L s)"
| "op_ok S L (Splice_Front s n t) \<longleftrightarrow>
     s \<in> set S \<and> t \<in> set S \<and> s \<noteq> t \<and> 0 < n \<and> n \<le> length (L s)"

fun ops_ok :: "nat list \<Rightarrow> (nat \<Rightarrow> nat list) \<Rightarrow> list_op list \<Rightarrow> bool" where
  "ops_ok S L [] \<longleftrightarrow> True"
| "ops_ok S L (x # xs) \<longleftrightarrow> op_ok S L x \<and> ops_ok S (list_step x L) xs"

definition queues :: "nat list \<Rightarrow> list_heap \<Rightarrow> (nat \<Rightarrow> nat list) \<Rightarrow> bool" where
  "queues S h L \<longleftrightarrow> (\<forall>s\<in>set S. dl_list h s (L s)) \<and>
     (\<forall>s\<in>set S. \<forall>t\<in>set S. s \<noteq> t \<longrightarrow> nodes s (L s) \<inter> nodes t (L t) = {})"

lemma node_at_links: "links h (s # ys) \<Longrightarrow> i < length ys \<Longrightarrow> node_at s i h = ys ! i"
proof (induction ys arbitrary: s i)
  case Nil
  then show ?case by simp
next
  case (Cons y ys)
  show ?case
  proof (cases i)
    case 0
    with Cons.prems show ?thesis by (simp add: node_at_def)
  next
    case (Suc j)
    then have "node_at s i h = node_at y j h"
      using Cons.prems by (simp add: node_at_def funpow_swap1)
    with Suc Cons show ?thesis by simp
  qed
qed

lemma node_at_nth: "dl_list h s xs \<Longrightarrow> i < length xs \<Longrightarrow> node_at s i h = xs ! i"
  using node_at_links [of h s "xs @ [s]" i] by (simp add: dl_list_def nth_append)

lemma queues_step: "queues S h L \<Longrightarrow> op_ok S L x \<Longrightarrow> queues S (heap_step x h) (list_step x L)"
proof (cases x)
  case (Append t r)
  assume Q: "queues S h L" and ok: "op_ok S L x"
  have t: "dl_list h t (L t)" and r: "r \<notin> nodes t (L t)"
    using Q ok Append by (auto simp: queues_def nodes_def)
  have o: "dl_list (enet_list_insert t r h) s (L s)" if s: "s \<in> set S" "s \<noteq> t" for s
  proof -
    have "dl_list h t (L t)" "dl_list h s (L s)" using Q s t by (simp_all add: queues_def)
    moreover have "nodes s (L s) \<inter> insert r (nodes t (L t)) = {}"
      using Q ok Append s by (auto simp: queues_def nodes_def)
    ultimately show ?thesis
      using enet_lists.frame_insert [of h t "L t" "[]" s "L s" r] by simp
  qed
  show ?thesis
    using Q ok Append o enet_lists.append_node [OF t r]
    by (auto simp: queues_def enet_list_end_def nodes_def)
next
  case (Take_Out t i)
  assume Q: "queues S h L" and ok: "op_ok S L x"
  let ?y = "L t ! i" and ?xs = "take i (L t)" and ?ys = "drop (Suc i) (L t)"
  have i: "t \<in> set S" "i < length (L t)" using ok Take_Out by simp_all
  have sp: "L t = ?xs @ ?y # ?ys" using i(2) by (rule id_take_nth_drop)
  have t: "dl_list h t (?xs @ ?y # ?ys)" using Q i(1) sp by (simp add: queues_def)
  have n: "node_at t i h = ?y" using node_at_nth [of h t "L t" i] t sp i(2) by simp
  have sub: "nodes t (?xs @ ?ys) \<subseteq> nodes t (L t)"
    by (auto simp: nodes_def dest: in_set_takeD in_set_dropD)
  have o: "dl_list (enet_list_remove ?y h) s (L s)" if s: "s \<in> set S" "s \<noteq> t" for s
  proof (rule enet_lists.frame_unlink [OF t])
    show "dl_list h s (L s)" using Q s by (simp add: queues_def)
    show "nodes s (L s) \<inter> nodes t (?xs @ ?ys) = {}"
      using Q s i(1) sub unfolding queues_def by blast
  qed
  have d: "nodes s (L s) \<inter> nodes t (?xs @ ?ys) = {}" if s: "s \<in> set S" "s \<noteq> t" for s
    using Q s i(1) sub unfolding queues_def by blast
  show ?thesis
    using Q o d enet_lists.holds_unlink [OF t] i(1)
    unfolding Take_Out queues_def heap_step.simps list_step.simps n by (auto simp: Int_commute)
next
  case (Splice_Front s n t)
  assume Q: "queues S h L" and ok: "op_ok S L x"
  let ?ms = "take n (L s)" and ?ys = "drop n (L s)"
  have i: "s \<in> set S" "t \<in> set S" "s \<noteq> t" "0 < n" "n \<le> length (L s)"
    using ok Splice_Front by simp_all
  have ms: "?ms \<noteq> []" "last ?ms = L s ! (n - 1)" "hd ?ms = L s ! 0"
  proof -
    have ne: "L s \<noteq> []" using i(4,5) by auto
    then show "?ms \<noteq> []" using i(4) by simp
    then show "last ?ms = L s ! (n - 1)" using i(4,5) by (simp add: last_conv_nth)
    show "hd ?ms = L s ! 0" using ne i(4) by (simp add: hd_conv_nth)
  qed
  have s: "dl_list h s (?ms @ ?ys)" and t: "dl_list h t (L t)"
    and d: "nodes s (?ms @ ?ys) \<inter> nodes t (L t) = {}"
    using Q i(1-3) by (simp_all add: queues_def)
  have f: "node_at s (n - 1) h = last ?ms" "enet_list_begin s h = hd ?ms"
    using node_at_nth [of h s "L s" "n - 1"] node_at_nth [of h s "L s" 0] s i(4,5) ms
    by (simp_all add: enet_list_begin_def node_at_def)
  have o: "dl_list (enet_list_move t (hd ?ms) (last ?ms) h) u (L u)"
    if u: "u \<in> set S" "u \<noteq> s" "u \<noteq> t" for u
  proof -
    have "touches (nodes s (L s) \<union> nodes t (L t)) h (enet_list_move t (hd ?ms) (last ?ms) h)"
      using touches_move [of h s "[]" ?ms ?ys t "L t" "[]"] s t d ms(1) by simp
    moreover have "nodes u (L u) \<inter> (nodes s (L s) \<union> nodes t (L t)) = {}"
      using Q u i(1,2) unfolding queues_def by blast
    moreover have "dl_list h u (L u)" using Q u by (simp add: queues_def)
    ultimately show ?thesis using dl_list_frame by blast
  qed
  have sets: "set (L s) = set ?ms \<union> set ?ys"
    by (metis append_take_drop_id set_append)
  note m = enet_lists.splice_front [OF s t d ms(1)]
  have dms: "distinct (L s)" using s by (simp add: dl_list_def)
  have disj: "nodes s ?ys \<inter> nodes t (L t @ ?ms) = {}"
    using d enet_lists.holds_distinct [OF s] set_take_disj_set_drop_if_distinct [OF dms, of n n]
    by (auto simp: nodes_def sets)
  have disu: "nodes u (L u) \<inter> nodes s ?ys = {}" "nodes u (L u) \<inter> nodes t (L t @ ?ms) = {}"
    if u: "u \<in> set S" "u \<noteq> s" "u \<noteq> t" for u
  proof -
    have "nodes u (L u) \<inter> nodes s (L s) = {}" "nodes u (L u) \<inter> nodes t (L t) = {}"
      using Q u i unfolding queues_def by blast+
    then show "nodes u (L u) \<inter> nodes s ?ys = {}" "nodes u (L u) \<inter> nodes t (L t @ ?ms) = {}"
      unfolding nodes_def sets by auto
  qed
  show ?thesis
    using Q o m disj disu i
    unfolding Splice_Front queues_def heap_step.simps list_step.simps f enet_list_end_def
    by (auto simp: Int_commute)
qed

text \<open>
  C13: Any admissible run of appends, removals and splices on the pointer structure of
  \<open>list.c\<close> leaves exactly the queues that the same run on lists gives: no queue is
  corrupted, no node is lost and none ends up in two queues.
\<close>

theorem list_c_refines_queues:
  "queues S h L \<Longrightarrow> ops_ok S L ops \<Longrightarrow>
    queues S (fold heap_step ops h) (fold list_step ops L)"
proof (induction ops arbitrary: h L)
  case Nil
  then show ?case by simp
next
  case (Cons x ops)
  then show ?case by (simp add: queues_step)
qed

definition cleared :: "list_heap \<Rightarrow> list_heap" where
  "cleared h = enet_list_clear 200 (enet_list_clear 100 h)"

lemma queues_cleared: "queues [100, 200] (cleared h) (\<lambda>_. [])"
  by (auto simp: queues_def cleared_def dl_list_def nodes_def enet_list_clear_def)

theorem list_c_refines_queues_witness:
  "queues [100, 200]
    (fold heap_step [Append 100 1, Append 100 2, Append 100 3, Splice_Front 100 2 200, Take_Out 200 0]
      (cleared \<lparr>next = id, previous = id\<rparr>))
    (fold list_step [Append 100 1, Append 100 2, Append 100 3, Splice_Front 100 2 200, Take_Out 200 0]
      (\<lambda>_. []))"
  by (rule list_c_refines_queues [OF queues_cleared]) simp

text \<open>
  C14: \<open>enet_list_size\<close> terminates on every well-linked list and returns its length.
\<close>

theorem enet_list_size_correct:
  "queues S h L \<Longrightarrow> s \<in> set S \<Longrightarrow> enet_list_size s h = Some (length (L s))"
  by (rule enet_lists.holds_size) (simp add: queues_def)

theorem enet_list_size_correct_witness:
  "enet_list_size 100 (cleared \<lparr>next = id, previous = id\<rparr>) = Some (length ([] :: nat list))"
  by (rule enet_list_size_correct [OF queues_cleared]) simp

end
