(* ===== verification/Enet_Crc.thy ===== *)
theory Enet_Crc
  imports Prelude
begin

text \<open>
  The checksum of \<open>enet/packet.c\<close>: \<open>reflect_crc\<close>, \<open>initialize_crc32\<close> and \<open>enet_crc32\<close>,
  the function that an application installs as the \<open>checksum\<close> callback of a host.  The
  model follows the code: a table of 256 words computed most significant bit first and
  reflected, and a loop over the bytes of the buffers.

  The lemmas relate that to the textbook register \<open>crc_step\<close>, which shifts right and adds
  the reflected polynomial.  From it follow what the protocol needs of a checksum: it does
  not depend on how a datagram is cut into buffers, and no change of a single byte
  escapes it.
\<close>

section \<open>The code\<close>

definition reflect_body :: "nat \<Rightarrow> nat \<Rightarrow> u32 \<times> u32 \<Rightarrow> u32 \<times> u32" where
  "reflect_body bits k s =
    (case s of (val, result) \<Rightarrow>
      (signed_drop_bit 1 val,
       if val AND 1 \<noteq> 0 then result OR push_bit (bits - 1 - k) 1 else result))"

definition reflect_crc :: "u32 \<Rightarrow> nat \<Rightarrow> u32" where
  "reflect_crc val bits = snd (fold (reflect_body bits) [0..<bits] (val, 0))"

definition crc_shift :: "u32 \<Rightarrow> u32" where
  "crc_shift crc =
    (if crc AND 0x80000000 \<noteq> 0 then push_bit 1 crc XOR 0x04c11db7 else push_bit 1 crc)"

definition crc_entry :: "nat \<Rightarrow> u32" where
  "crc_entry byte =
    reflect_crc (fold (\<lambda>_. crc_shift) [0..<8] (push_bit 24 (reflect_crc (of_nat byte) 8))) 32"

text \<open>
  The static \<open>crcTable\<close> and \<open>initializedCRC32\<close> are one value: \<open>None\<close> until the table has
  been computed.
\<close>

type_synonym crc_static = "u32 list option"

definition initialize_crc32 :: "crc_static \<Rightarrow> crc_static" where
  "initialize_crc32 _ = Some (map crc_entry [0..<256])"

definition crc_byte :: "u32 list \<Rightarrow> u32 \<Rightarrow> u8 \<Rightarrow> u32" where
  "crc_byte crcTable crc d =
    drop_bit 8 crc XOR crcTable ! unat ((crc AND 0xFF) XOR ucast d)"

fun crc_buffers :: "u32 list \<Rightarrow> u8 list list \<Rightarrow> u32 \<Rightarrow> u32" where
  "crc_buffers crcTable [] crc = crc"
| "crc_buffers crcTable (buffer # buffers) crc =
     crc_buffers crcTable buffers (fold (\<lambda>d crc. crc_byte crcTable crc d) buffer crc)"

text \<open>\<open>htonl\<close> of a little-endian machine.\<close>

definition ENET_HOST_TO_NET_32 :: "u32 \<Rightarrow> u32" where
  "ENET_HOST_TO_NET_32 w =
    push_bit 24 (take_bit 8 w) OR push_bit 16 (take_bit 8 (drop_bit 8 w))
    OR push_bit 8 (take_bit 8 (drop_bit 16 w)) OR drop_bit 24 w"

definition enet_crc32_run :: "crc_static \<Rightarrow> u8 list list \<Rightarrow> u32 \<times> crc_static" where
  "enet_crc32_run st buffers =
    (let st = (case st of None \<Rightarrow> initialize_crc32 st | Some _ \<Rightarrow> st);
         crc = crc_buffers (the st) buffers 0xFFFFFFFF
     in (ENET_HOST_TO_NET_32 (NOT crc), st))"

definition enet_crc32 :: "u8 list list \<Rightarrow> u32" where
  "enet_crc32 buffers = fst (enet_crc32_run None buffers)"

section \<open>The register behind the table\<close>

definition crc_step :: "u32 \<Rightarrow> u32" where
  "crc_step c = drop_bit 1 c XOR (if odd c then 0xEDB88320 else 0)"

text \<open>Reflection reverses the bits.\<close>

lemma and_1_iff: "(w :: 'a::len word) AND 1 \<noteq> 0 \<longleftrightarrow> bit w 0"
  by (simp add: and_one_eq bit_0 odd_iff_mod_2_eq_one)

lemma reflect_fold:
  assumes "n \<le> bits" "bits \<le> 32"
  shows "fst (fold (reflect_body bits) [0..<n] (v, 0)) = signed_drop_bit n v \<and>
    (\<forall>j. bit (snd (fold (reflect_body bits) [0..<n] (v, 0))) j
        \<longleftrightarrow> bits - n \<le> j \<and> j < bits \<and> bit v (bits - 1 - j))"
  using assms
proof (induction n)
  case 0
  then show ?case by simp
next
  case (Suc n)
  obtain w r where wr: "fold (reflect_body bits) [0..<n] (v, 0) = (w, r)" by fastforce
  have IH: "w = signed_drop_bit n v" "\<And>j. bit r j \<longleftrightarrow> bits - n \<le> j \<and> j < bits \<and> bit v (bits - 1 - j)"
    using Suc wr by simp_all
  have b: "bit w 0 \<longleftrightarrow> bit v n"
    using Suc.prems by (simp add: IH(1) bit_signed_drop_bit_iff)
  have new: "bit (push_bit (bits - 1 - n) (1 :: u32)) j \<longleftrightarrow> j = bits - 1 - n" for j
    using Suc.prems by (auto simp: bit_exp_iff)
  have step: "fold (reflect_body bits) [0..<Suc n] (v, 0)
      = (signed_drop_bit (Suc n) v, if bit v n then r OR push_bit (bits - 1 - n) 1 else r)"
    using wr b by (simp add: reflect_body_def and_1_iff IH(1))
  have "bit (if bit v n then r OR push_bit (bits - 1 - n) 1 else r) j
      \<longleftrightarrow> bit r j \<or> j = bits - 1 - n \<and> bit v n" for j
    unfolding new [symmetric] by (simp add: bit_or_iff)
  moreover have "bit r j \<or> j = bits - 1 - n \<and> bit v n
      \<longleftrightarrow> bits - Suc n \<le> j \<and> j < bits \<and> bit v (bits - 1 - j)" for j
  proof (cases "j = bits - 1 - n")
    case True
    then have "bits - 1 - j = n" "bits - Suc n \<le> j" "j < bits" "\<not> bits - n \<le> j"
      using Suc.prems by arith+
    then show ?thesis by (simp add: IH(2) True)
  next
    case False
    then have "bits - Suc n \<le> j \<longleftrightarrow> bits - n \<le> j" using Suc.prems by arith
    then show ?thesis using False by (simp add: IH(2))
  qed
  ultimately show ?case unfolding step by simp
qed

lemma bit_reflect_crc: "bits \<le> 32 \<Longrightarrow> bit (reflect_crc v bits) j \<longleftrightarrow> j < bits \<and> bit v (bits - 1 - j)"
  using reflect_fold [of bits bits v] by (auto simp: reflect_crc_def)

lemma reflect_xor: "reflect_crc (x XOR y) 32 = reflect_crc x 32 XOR reflect_crc y 32"
  by (rule bit_word_eqI) (auto simp: bit_reflect_crc bit_xor_iff)

lemma bit_push_1: "bit (push_bit 1 (c :: u32)) j \<longleftrightarrow> 0 < j \<and> j < 32 \<and> bit c (j - 1)"
  by (simp only: bit_push_bit_iff possible_bit_word) auto

lemma bit_drop_1: "bit (drop_bit 1 (c :: u32)) j \<longleftrightarrow> bit c (Suc j)"
  by (simp only: bit_drop_bit_eq comp_def) simp

lemma reflect_push: "reflect_crc (push_bit 1 c) 32 = drop_bit 1 (reflect_crc c 32)"
proof (rule bit_word_eqI)
  fix j assume "j < LENGTH(32)"
  show "bit (reflect_crc (push_bit 1 c) 32) j = bit (drop_bit 1 (reflect_crc c 32)) j"
    unfolding bit_drop_1 bit_reflect_crc [OF order_refl] bit_push_1 by auto
qed

lemma reflect_poly: "reflect_crc 0x04c11db7 32 = 0xEDB88320"
  by code_simp

lemma top_bit_and: "(c :: u32) AND 0x80000000 \<noteq> 0 \<longleftrightarrow> bit c 31"
  using and_exp_eq_0_iff_not_bit [of c 31] by simp

lemma reflect_shift: "reflect_crc (crc_shift c) 32 = crc_step (reflect_crc c 32)"
proof -
  have "bit c 31 \<longleftrightarrow> odd (reflect_crc c 32)"
    by (simp add: bit_reflect_crc flip: bit_0)
  then show ?thesis
    unfolding crc_shift_def crc_step_def top_bit_and
    by (cases "bit c 31") (simp_all only: reflect_xor reflect_push reflect_poly if_True if_False xor.right_neutral)
qed


lemma reflect_shifts:
  "reflect_crc (fold (\<lambda>_. crc_shift) xs c) 32 = fold (\<lambda>_. crc_step) xs (reflect_crc c 32)"
  by (induction xs arbitrary: c) (simp_all add: reflect_shift)

lemma reflect_top: "b < 256 \<Longrightarrow> reflect_crc (push_bit 24 (reflect_crc (of_nat b) 8)) 32 = of_nat b"
proof (rule bit_word_eqI)
  fix j assume b: "b < 256" and "j < LENGTH(32)"
  have "\<not> bit b j" if "8 \<le> j"
  proof -
    have "b < 2 ^ j" using b power_increasing [OF that, of "2 :: nat"] by simp
    then show ?thesis by (simp add: bit_iff_odd)
  qed
  then show "bit (reflect_crc (push_bit 24 (reflect_crc (of_nat b) 8)) 32) j = bit (of_nat b :: u32) j"
    using \<open>j < LENGTH(32)\<close>
    by (cases "j < 8") (auto simp: bit_reflect_crc bit_push_bit_iff bit_of_nat_iff)
qed

definition crc_steps :: "nat \<Rightarrow> u32 \<Rightarrow> u32" where
  "crc_steps n c = (crc_step ^^ n) c"

lemma fold_steps: "fold (\<lambda>_. crc_step) xs c = crc_steps (length xs) c"
  by (induction xs arbitrary: c) (simp_all add: crc_steps_def funpow_swap1)

lemma crc_entry_steps: "b < 256 \<Longrightarrow> crc_entry b = crc_steps 8 (of_nat b)"
  by (simp add: crc_entry_def reflect_shifts reflect_top fold_steps del: upt.simps upt_rec_numeral)

text \<open>The register is linear, and shifts out bits that are zero.\<close>

lemma crc_step_xor: "crc_step (x XOR y) = crc_step x XOR crc_step y"
proof -
  have "odd (x XOR y) \<longleftrightarrow> odd x \<noteq> odd y" by (simp add: even_xor_iff)
  then show ?thesis
    by (cases "odd x"; cases "odd y")
      (simp_all add: crc_step_def ac_simps flip: xor.assoc)
qed

lemma crc_steps_xor: "crc_steps n (x XOR y) = crc_steps n x XOR crc_steps n y"
  by (induction n) (simp_all add: crc_steps_def crc_step_xor)

lemma crc_steps_zeros: "take_bit n z = 0 \<Longrightarrow> crc_steps n z = drop_bit n z"
proof (induction n arbitrary: z)
  case 0
  then show ?case by (simp add: crc_steps_def)
next
  case (Suc n)
  have low: "\<not> bit z j" if "j < Suc n" for j
    using arg_cong [OF Suc.prems, of "\<lambda>w. bit w j"] that by (simp add: bit_take_bit_iff)
  have "even z" using low [of 0] by (simp add: bit_0)
  then have s: "crc_step z = drop_bit 1 z" by (simp add: crc_step_def)
  have "take_bit n (drop_bit 1 z) = 0"
    by (rule bit_word_eqI) (use low in \<open>simp add: bit_take_bit_iff bit_drop_bit_eq\<close>)
  then have "crc_steps n (drop_bit 1 z) = drop_bit n (drop_bit 1 z)" by (rule Suc.IH)
  then show ?case
    by (simp add: crc_steps_def funpow_Suc_right s drop_bit_drop_bit del: funpow.simps)
qed

section \<open>The table update is eight steps of the register\<close>

abbreviation crc_table :: "u32 list" where
  "crc_table \<equiv> map crc_entry [0..<256]"

lemma and_FF: "(w :: u32) AND 0xFF = take_bit 8 w"
proof -
  have "(0xFF :: u32) = mask 8" by (simp add: mask_eq_exp_minus_1)
  then show ?thesis by (simp only: take_bit_eq_mask)
qed

lemma unat_take_8: "unat (take_bit 8 (w :: u32)) < 256"
proof -
  have "unat (take_bit 8 w) = take_bit 8 (unat w)" by (simp add: unsigned_take_bit_eq)
  also have "\<dots> < 2 ^ 8" by (rule take_bit_nat_less_exp)
  finally show ?thesis by simp
qed

lemma take_8_ucast: "take_bit 8 (ucast (d :: u8) :: u32) = ucast d"
  by (rule bit_word_eqI) (auto simp: bit_take_bit_iff bit_ucast_iff dest: bit_imp_possible_bit)

lemma drop_8_ucast: "drop_bit 8 (ucast (d :: u8) :: u32) = 0"
  by (rule bit_word_eqI) (auto simp: bit_drop_bit_eq bit_ucast_iff dest: bit_imp_possible_bit)

lemma crc_byte_steps: "crc_byte crc_table crc d = crc_steps 8 (crc XOR ucast d)"
proof -
  let ?z = "crc XOR ucast d" and ?lo = "take_bit 8 (crc XOR ucast d)"
  have lo: "(crc AND 0xFF) XOR ucast d = ?lo"
    by (simp add: and_FF take_bit_xor take_8_ucast)
  have "crc_table ! unat ?lo = crc_steps 8 (of_nat (unat ?lo))"
    using unat_take_8 [of ?z] by (simp add: crc_entry_steps del: upt.simps upt_rec_numeral)
  then have t: "crc_table ! unat ?lo = crc_steps 8 ?lo" by simp
  have z: "take_bit 8 (?z XOR ?lo) = 0" by (simp add: take_bit_xor)
  have d: "drop_bit 8 (?z XOR ?lo) = drop_bit 8 crc"
    by (simp add: drop_bit_xor drop_8_ucast drop_bit_take_bit)
  have "crc_steps 8 ?z = crc_steps 8 ((?z XOR ?lo) XOR ?lo)" by (simp add: xor.assoc)
  also have "\<dots> = drop_bit 8 crc XOR crc_steps 8 ?lo"
    using crc_steps_xor [of 8 "?z XOR ?lo" ?lo] crc_steps_zeros [OF z] d by (simp only:)
  finally show ?thesis by (simp only: crc_byte_def lo t)
qed

lemma xor_right_cancel: "(a :: 'a::len word) XOR c = b XOR c \<Longrightarrow> a = b"
  by (metis xor.assoc xor_self_eq xor.right_neutral)

lemma crc_step_top: "bit (crc_step c) 31 \<longleftrightarrow> odd c"
proof -
  have "bit (0xEDB88320 :: u32) 31" by code_simp
  moreover have "\<not> bit (drop_bit 1 c) 31"
    by (simp add: bit_drop_1 del: One_nat_def) (auto dest: bit_imp_possible_bit)
  ultimately show ?thesis by (simp add: crc_step_def bit_xor_iff)
qed

lemma crc_step_inj: "crc_step x = crc_step y \<Longrightarrow> x = y"
proof -
  assume eq: "crc_step x = crc_step y"
  then have o: "odd x \<longleftrightarrow> odd y" by (metis crc_step_top)
  then have d: "drop_bit 1 x = drop_bit 1 y"
    using eq by (cases "odd x") (auto simp: crc_step_def dest: xor_right_cancel)
  show "x = y"
  proof (rule bit_word_eqI)
    fix j assume "j < LENGTH(32)"
    show "bit x j = bit y j"
    proof (cases j)
      case 0
      then show ?thesis using o by (simp add: bit_0)
    next
      case (Suc i)
      then show ?thesis using arg_cong [OF d, of "\<lambda>w. bit w i"] by (simp only: bit_drop_1)
    qed
  qed
qed

lemma crc_steps_inj: "crc_steps n x = crc_steps n y \<Longrightarrow> x = y"
  by (induction n) (auto simp: crc_steps_def dest: crc_step_inj)

definition crc_run :: "u8 list \<Rightarrow> u32 \<Rightarrow> u32" where
  "crc_run ds crc = fold (\<lambda>d crc. crc_steps 8 (crc XOR ucast d)) ds crc"

lemma crc_run_append: "crc_run (xs @ ys) crc = crc_run ys (crc_run xs crc)"
  by (simp add: crc_run_def)

lemma crc_buffers_run: "crc_buffers crc_table buffers crc = crc_run (concat buffers) crc"
  by (induction buffers arbitrary: crc) (simp_all add: crc_run_def crc_byte_steps)

lemma crc_run_inj: "crc_run ds x = crc_run ds y \<Longrightarrow> x = y"
proof (induction ds arbitrary: x y)
  case Nil
  then show ?case by (simp add: crc_run_def)
next
  case (Cons d ds)
  have "crc_steps 8 (x XOR ucast d) = crc_steps 8 (y XOR ucast d)"
    by (rule Cons.IH) (use Cons.prems in \<open>simp add: crc_run_def\<close>)
  then show ?case by (blast dest: crc_steps_inj xor_right_cancel)
qed

lemma bit_host_to_net:
  assumes "i < 32"
  shows "bit (ENET_HOST_TO_NET_32 w) i \<longleftrightarrow>
    bit w (if i < 8 then i + 24 else if i < 16 then i + 8 else if i < 24 then i - 8 else i - 24)"
proof -
  have w: "bit w j \<Longrightarrow> j < 32" for j using bit_imp_possible_bit [of w j] by simp
  have "bit (ENET_HOST_TO_NET_32 w) i \<longleftrightarrow>
      (24 \<le> i \<and> i - 24 < 8 \<and> bit w (i - 24)) \<or> (16 \<le> i \<and> i - 16 < 8 \<and> bit w (8 + (i - 16)))
      \<or> (8 \<le> i \<and> i - 8 < 8 \<and> bit w (16 + (i - 8))) \<or> bit w (24 + i)"
    using assms
    by (simp only: ENET_HOST_TO_NET_32_def bit_or_iff bit_push_bit_iff bit_take_bit_iff bit_drop_bit_eq
        comp_def possible_bit_word) simp
  also have "\<dots> \<longleftrightarrow>
    bit w (if i < 8 then i + 24 else if i < 16 then i + 8 else if i < 24 then i - 8 else i - 24)"
  proof -
    consider "i < 8" | "8 \<le> i" "i < 16" | "16 \<le> i" "i < 24" | "24 \<le> i" by linarith
    then show ?thesis
    proof cases
      case 1
      then show ?thesis by (simp add: add.commute)
    next
      case 2
      then have "16 + (i - 8) = i + 8" by simp
      with 2 show ?thesis using w [of "24 + i"] by (auto simp: add.commute)
    next
      case 3
      then have "8 + (i - 16) = i - 8" by simp
      with 3 show ?thesis using w [of "24 + i"] by (auto simp: add.commute)
    next
      case 4
      then show ?thesis using assms w [of "24 + i"] by auto
    qed
  qed
  finally show ?thesis .
qed

lemma host_to_net_inj: "ENET_HOST_TO_NET_32 (ENET_HOST_TO_NET_32 w) = w"
proof (rule bit_word_eqI)
  fix i assume i: "i < LENGTH(32)"
  let ?f = "\<lambda>i. if i < 8 then i + 24 else if i < 16 then i + 8 else if i < 24 then i - 8 else i - (24 :: nat)"
  have "?f i < 32" "?f (?f i) = i" using i by (auto split: if_splits)
  then show "bit (ENET_HOST_TO_NET_32 (ENET_HOST_TO_NET_32 w)) i = bit w i"
    using bit_host_to_net [of i "ENET_HOST_TO_NET_32 w"] bit_host_to_net [of "?f i" w] i by simp
qed

lemma enet_crc32_run_crc:
  "enet_crc32 buffers = ENET_HOST_TO_NET_32 (NOT (crc_run (concat buffers) 0xFFFFFFFF))"
  by (simp add: enet_crc32_def enet_crc32_run_def initialize_crc32_def Let_def crc_buffers_run
      del: upt.simps upt_rec_numeral)

lemma enet_crc32_static:
  "enet_crc32_run (snd (enet_crc32_run None bs)) buffers = (enet_crc32 buffers, Some crc_table)"
  by (simp add: enet_crc32_def enet_crc32_run_def initialize_crc32_def Let_def
      del: upt.simps upt_rec_numeral)

lemma enet_crc32_eq_iff:
  "enet_crc32 bs = enet_crc32 cs \<longleftrightarrow>
    crc_run (concat bs) 0xFFFFFFFF = crc_run (concat cs) 0xFFFFFFFF"
  unfolding enet_crc32_run_crc by (metis host_to_net_inj bit.double_compl)

section \<open>What the protocol relies on\<close>

text \<open>
  The contract of an \<open>ENetChecksumCallback\<close>: the sender computes it over the buffers it
  gathered, the receiver over the one buffer it read, so it may depend on the bytes only.
  A checksum that \<open>detects\<close> changes of one byte never lets such a datagram through.
\<close>

locale datagram_checksum =
  fixes checksum :: "u8 list list \<Rightarrow> u32"
  assumes checksum_flat: "concat bs = concat cs \<Longrightarrow> checksum bs = checksum cs"
    and checksum_byte: "a \<noteq> b \<Longrightarrow> checksum [xs @ a # ys] \<noteq> checksum [xs @ b # ys]"
begin

lemma gathered_is_received: "checksum bs = checksum [concat bs]"
  by (rule checksum_flat) simp

lemma corrupt_byte_detected:
  assumes "i < length (concat bs)" and "b \<noteq> concat bs ! i"
  shows "checksum [(concat bs)[i := b]] \<noteq> checksum bs"
proof -
  have "checksum [take i (concat bs) @ b # drop (Suc i) (concat bs)]
      \<noteq> checksum [take i (concat bs) @ concat bs ! i # drop (Suc i) (concat bs)]"
    by (rule checksum_byte) (rule assms(2))
  then show ?thesis
    using assms(1) gathered_is_received [of bs]
    by (simp add: upd_conv_take_nth_drop flip: id_take_nth_drop)
qed

end

lemma ucast_8_32_inj: "(ucast (a :: u8) :: u32) = ucast b \<Longrightarrow> a = b"
proof (rule bit_word_eqI)
  fix i assume eq: "(ucast a :: u32) = ucast b" and i: "i < LENGTH(8)"
  have "bit (ucast a :: u32) i \<longleftrightarrow> bit (ucast b :: u32) i" by (simp only: eq)
  then show "bit a i = bit b i" using i by (simp add: bit_unsigned_iff)
qed

interpretation crc32: datagram_checksum enet_crc32
proof unfold_locales
  show "concat bs = concat cs \<Longrightarrow> enet_crc32 bs = enet_crc32 cs" for bs cs
    by (simp add: enet_crc32_run_crc)
next
  fix a b :: u8 and xs ys assume "a \<noteq> b"
  let ?c = "crc_run xs 0xFFFFFFFF"
  have "crc_run (a # ys) ?c \<noteq> crc_run (b # ys) ?c"
  proof
    assume "crc_run (a # ys) ?c = crc_run (b # ys) ?c"
    then have "crc_run ys (crc_steps 8 (?c XOR ucast a)) = crc_run ys (crc_steps 8 (?c XOR ucast b))"
      by (simp add: crc_run_def)
    then have "?c XOR ucast a = ?c XOR ucast b"
      by (blast dest: crc_run_inj crc_steps_inj)
    then have "(ucast a :: u32) = ucast b"
      by (metis xor_right_cancel xor.commute)
    then have "a = b" by (rule ucast_8_32_inj)
    then show False using \<open>a \<noteq> b\<close> by contradiction
  qed
  then show "enet_crc32 [xs @ a # ys] \<noteq> enet_crc32 [xs @ b # ys]"
    by (simp add: enet_crc32_eq_iff crc_run_append)
qed

text \<open>
  C16: The table-driven \<open>enet_crc32\<close> is the reflected CRC-32 register run over the bytes of the
  buffers in order, complemented and returned in network byte order.  How the bytes are cut
  into buffers, and whether the static table was computed before, make no difference.
\<close>

theorem enet_crc32_is_register:
  "enet_crc32_run (snd (enet_crc32_run None earlier)) buffers
    = (ENET_HOST_TO_NET_32 (NOT (fold (\<lambda>d crc. crc_steps 8 (crc XOR ucast d)) (concat buffers) 0xFFFFFFFF)),
       Some crc_table)"
  unfolding enet_crc32_static enet_crc32_run_crc crc_run_def by (rule refl)

text \<open>
  C17: A datagram that differs from the one sent in a single byte, wherever it is, has another
  checksum, so the receiver's comparison rejects it.
\<close>

theorem enet_crc32_detects_byte:
  "i < length (concat buffers) \<Longrightarrow> b \<noteq> concat buffers ! i \<Longrightarrow>
    enet_crc32 [(concat buffers)[i := b]] \<noteq> enet_crc32 buffers"
  by (rule crc32.corrupt_byte_detected)

theorem enet_crc32_detects_byte_witness:
  "enet_crc32 [[1, 2, 9, 4]] \<noteq> enet_crc32 [[1, 2], [3], [4]]"
  using enet_crc32_detects_byte [of 2 "[[1, 2], [3], [4]]" 9] by simp

end
