(* ===== verification/Enet_Packet.thy ===== *)
theory Enet_Packet
  imports Prelude "HOL-Library.Multiset"
begin

text \<open>
  Packets and memory: the packet functions of \<open>enet/packet.c\<close> and the allocator of
  \<open>enet/callbacks.c\<close>.

  A packet is shared: every queued fragment of it and, after a broadcast, every peer holds
  a pointer to it, and \<open>referenceCount\<close> decides when it is freed.  The model keeps packets in
  an explicit store from addresses to packets.  Reading, releasing or freeing through an
  address that is not in the store, or copying past the end of a buffer, sets \<open>fault\<close>: it
  is the model's mark of undefined behaviour, and the theorems of the later theories show
  that the protocol never sets it.

  \<open>mallocs\<close> holds the outcomes of the coming calls of the \<open>malloc\<close> callback; once it is used
  up every call succeeds.  With the default callbacks a failed call aborts the program, but
  an application may install a \<open>no_memory\<close> callback that returns, and the code then takes
  the branches for \<open>NULL\<close>.  \<open>junk\<close> is the unknown content of fresh memory.
\<close>

section \<open>The store\<close>

definition ENET_PACKET_FLAG_RELIABLE :: u32 where
  "ENET_PACKET_FLAG_RELIABLE = 1"

definition ENET_PACKET_FLAG_UNSEQUENCED :: u32 where
  "ENET_PACKET_FLAG_UNSEQUENCED = 2"

definition ENET_PACKET_FLAG_NO_ALLOCATE :: u32 where
  "ENET_PACKET_FLAG_NO_ALLOCATE = 4"

definition ENET_PACKET_FLAG_UNRELIABLE_FRAGMENT :: u32 where
  "ENET_PACKET_FLAG_UNRELIABLE_FRAGMENT = 8"

definition ENET_PACKET_FLAG_SENT :: u32 where
  "ENET_PACKET_FLAG_SENT = 256"

lemmas packet_flags = ENET_PACKET_FLAG_RELIABLE_def ENET_PACKET_FLAG_UNSEQUENCED_def
  ENET_PACKET_FLAG_NO_ALLOCATE_def ENET_PACKET_FLAG_UNRELIABLE_FRAGMENT_def
  ENET_PACKET_FLAG_SENT_def

record packet =
  pk_referenceCount :: nat
  pk_flags :: u32
  pk_data :: "u8 list"
  pk_dataLength :: nat
  pk_freeCallback :: bool

record memory =
  packets :: "nat \<Rightarrow> packet option"
  fresh :: nat
  mallocs :: "bool list"
  junk :: "nat \<Rightarrow> u8"
  callback_log :: "nat list"
  fault :: bool

definition enet_malloc :: "memory \<Rightarrow> bool \<times> memory" where
  "enet_malloc m =
    (case mallocs m of
      [] \<Rightarrow> (True, m)
    | ok # rest \<Rightarrow> (ok, m\<lparr>mallocs := rest\<rparr>))"

definition faulty :: "bool \<Rightarrow> memory \<Rightarrow> memory" where
  "faulty b m = (if b then m\<lparr>fault := True\<rparr> else m)"

text \<open>\<open>memcpy\<close> of \<open>n\<close> bytes from a buffer: reading past its end is a fault.\<close>

definition copy_bytes :: "nat \<Rightarrow> u8 list \<Rightarrow> memory \<Rightarrow> u8 list \<times> memory" where
  "copy_bytes n src m =
    (take n src @ map (junk m) [length src..<n], faulty (length src < n) m)"

text \<open>An access to a packet: its content, or a fault if it is not allocated.\<close>

definition upd_packet :: "nat \<Rightarrow> (packet \<Rightarrow> packet) \<Rightarrow> memory \<Rightarrow> memory" where
  "upd_packet p f m =
    (case packets m p of
      None \<Rightarrow> m\<lparr>fault := True\<rparr>
    | Some k \<Rightarrow> m\<lparr>packets := (packets m)(p \<mapsto> f k)\<rparr>)"

definition packet_refs :: "memory \<Rightarrow> nat \<Rightarrow> nat" where
  "packet_refs m p = (case packets m p of None \<Rightarrow> 0 | Some k \<Rightarrow> pk_referenceCount k)"

definition packet_length :: "memory \<Rightarrow> nat \<Rightarrow> nat" where
  "packet_length m p = (case packets m p of None \<Rightarrow> 0 | Some k \<Rightarrow> pk_dataLength k)"

definition packet_bytes :: "memory \<Rightarrow> nat \<Rightarrow> u8 list" where
  "packet_bytes m p = (case packets m p of None \<Rightarrow> [] | Some k \<Rightarrow> pk_data k)"

section \<open>The code\<close>

definition enet_packet_create ::
  "u8 list option \<Rightarrow> nat \<Rightarrow> u32 \<Rightarrow> memory \<Rightarrow> nat option \<times> memory" where
  "enet_packet_create data dataLength flags m =
    (let (ok, m) = enet_malloc m in
     if \<not> ok then (None, m)
     else
       let (res, m) =
         (if flags AND ENET_PACKET_FLAG_NO_ALLOCATE \<noteq> 0
          then (Some (case data of None \<Rightarrow> [] | Some d \<Rightarrow> d), m)
          else if dataLength \<le> 0 then (Some [], m)
          else
            let (ok, m) = enet_malloc m in
            if \<not> ok then (None, m)
            else
              case data of
                None \<Rightarrow> (Some (map (junk m) [0..<dataLength]), m)
              | Some d \<Rightarrow> let (bytes, m) = copy_bytes dataLength d m in (Some bytes, m))
       in case res of
            None \<Rightarrow> (None, m)
          | Some bytes \<Rightarrow>
              (Some (fresh m),
               m\<lparr>packets := (packets m)(fresh m \<mapsto>
                    \<lparr>pk_referenceCount = 0, pk_flags = flags, pk_data = bytes,
                     pk_dataLength = dataLength, pk_freeCallback = False\<rparr>),
                 fresh := Suc (fresh m)\<rparr>))"

definition enet_packet_destroy :: "nat option \<Rightarrow> memory \<Rightarrow> memory" where
  "enet_packet_destroy packet m =
    (case packet of
      None \<Rightarrow> m
    | Some p \<Rightarrow>
        (case packets m p of
          None \<Rightarrow> m\<lparr>fault := True\<rparr>
        | Some k \<Rightarrow>
            m\<lparr>callback_log := (if pk_freeCallback k then callback_log m @ [p] else callback_log m),
              packets := (packets m)(p := None)\<rparr>))"

definition enet_packet_resize :: "nat \<Rightarrow> nat \<Rightarrow> memory \<Rightarrow> int \<times> memory" where
  "enet_packet_resize p dataLength m =
    (case packets m p of
      None \<Rightarrow> (0, m\<lparr>fault := True\<rparr>)
    | Some k \<Rightarrow>
        if dataLength \<le> pk_dataLength k \<or> pk_flags k AND ENET_PACKET_FLAG_NO_ALLOCATE \<noteq> 0
        then (0, upd_packet p (\<lambda>k. k\<lparr>pk_dataLength := dataLength\<rparr>) m)
        else
          let (ok, m) = enet_malloc m in
          if \<not> ok then (-1, m)
          else
            let (old, m) = copy_bytes (pk_dataLength k) (pk_data k) m;
                newData = old @ map (junk m) [pk_dataLength k..<dataLength]
            in (0, upd_packet p (\<lambda>k. k\<lparr>pk_data := newData, pk_dataLength := dataLength\<rparr>) m))"

text \<open>
  The pattern by which every queue takes and gives up a packet: \<open>++ referenceCount\<close> when a
  command is queued; \<open>-- referenceCount\<close> and \<open>enet_packet_destroy\<close> at zero when it leaves.
  The count is a \<open>size_t\<close>, so decrementing zero would wrap.
\<close>

definition packet_retain :: "nat \<Rightarrow> nat option \<Rightarrow> memory \<Rightarrow> memory" where
  "packet_retain n packet m =
    (case packet of
      None \<Rightarrow> m
    | Some p \<Rightarrow> upd_packet p (\<lambda>k. k\<lparr>pk_referenceCount := pk_referenceCount k + n\<rparr>) m)"

definition packet_unref :: "nat \<Rightarrow> memory \<Rightarrow> memory" where
  "packet_unref p = upd_packet p (\<lambda>k. k\<lparr>pk_referenceCount :=
     (if pk_referenceCount k = 0 then size_max - 1 else pk_referenceCount k - 1)\<rparr>)"

definition packet_release :: "nat option \<Rightarrow> memory \<Rightarrow> memory" where
  "packet_release packet m =
    (case packet of
      None \<Rightarrow> m
    | Some p \<Rightarrow>
        let m = packet_unref p m in
        if packet_refs m p = 0 then enet_packet_destroy (Some p) m else m)"

text \<open>The same, marking the packet as sent before it is freed.\<close>

definition packet_release_sent :: "nat option \<Rightarrow> memory \<Rightarrow> memory" where
  "packet_release_sent packet m =
    (case packet of
      None \<Rightarrow> m
    | Some p \<Rightarrow>
        let m = packet_unref p m in
        if packet_refs m p = 0
        then enet_packet_destroy (Some p)
          (upd_packet p (\<lambda>k. k\<lparr>pk_flags := pk_flags k OR ENET_PACKET_FLAG_SENT\<rparr>) m)
        else m)"

section \<open>Facts about single operations\<close>

lemma enet_malloc_frame [simp]:
  "packets (snd (enet_malloc m)) = packets m" "fresh (snd (enet_malloc m)) = fresh m"
  "junk (snd (enet_malloc m)) = junk m" "callback_log (snd (enet_malloc m)) = callback_log m"
  "fault (snd (enet_malloc m)) = fault m"
  by (simp_all add: enet_malloc_def split: list.split)

lemma faulty_frame [simp]:
  "packets (faulty b m) = packets m" "fresh (faulty b m) = fresh m"
  "junk (faulty b m) = junk m" "callback_log (faulty b m) = callback_log m"
  "mallocs (faulty b m) = mallocs m" "fault (faulty b m) \<longleftrightarrow> b \<or> fault m"
  by (simp_all add: faulty_def)

lemma length_copy_bytes [simp]: "length (fst (copy_bytes n src m)) = n"
  by (simp add: copy_bytes_def)

lemma copy_bytes_exact: "n \<le> length src \<Longrightarrow> copy_bytes n src m = (take n src, m)"
  by (simp add: copy_bytes_def faulty_def)

section \<open>Reference counting\<close>

text \<open>
  \<open>refs_ok m M\<close>: no undefined behaviour so far, the multiset \<open>M\<close> of packet pointers that
  the queues hold is exactly what the reference counts say, and every buffer is as long as its
  packet claims.  In particular every pointer in
  \<open>M\<close> is to an allocated packet.  A packet with count zero belongs to the application.
\<close>

definition buffer_holds :: "packet \<Rightarrow> bool" where
  "buffer_holds k \<longleftrightarrow> pk_dataLength k \<le> length (pk_data k)"

lemma buffer_holds_simps [simp]:
  "buffer_holds (k\<lparr>pk_referenceCount := n\<rparr>) = buffer_holds k" "buffer_holds (k\<lparr>pk_flags := fl\<rparr>) = buffer_holds k"
  by (simp_all add: buffer_holds_def)

definition refs_ok :: "memory \<Rightarrow> nat option multiset \<Rightarrow> bool" where
  "refs_ok m M \<longleftrightarrow> \<not> fault m \<and>
    (\<forall>p. packets m p = None \<longrightarrow> count M (Some p) = 0) \<and>
    (\<forall>p k. packets m p = Some k \<longrightarrow> pk_referenceCount k = count M (Some p)) \<and>
    (\<forall>p k. packets m p = Some k \<longrightarrow> buffer_holds k) \<and>
    (\<forall>p \<ge> fresh m. packets m p = None)"

lemma refs_ok_no_fault: "refs_ok m M \<Longrightarrow> \<not> fault m"
  by (simp add: refs_ok_def)

lemma refs_ok_dead: "refs_ok m M \<Longrightarrow> packets m p = None \<Longrightarrow> count M (Some p) = 0"
  by (simp add: refs_ok_def)

lemma refs_ok_count: "refs_ok m M \<Longrightarrow> packets m p = Some k \<Longrightarrow> pk_referenceCount k = count M (Some p)"
  by (simp add: refs_ok_def)

lemma refs_ok_buffer: "refs_ok m M \<Longrightarrow> packets m p = Some k \<Longrightarrow> pk_dataLength k \<le> length (pk_data k)"
  by (simp add: refs_ok_def buffer_holds_def)

lemma refs_ok_below: "refs_ok m M \<Longrightarrow> packets m p = Some k \<Longrightarrow> p < fresh m"
  unfolding refs_ok_def by (metis linorder_not_less option.distinct(1))

lemma refs_ok_alive: "refs_ok m M \<Longrightarrow> Some p \<in># M \<Longrightarrow> \<exists>k. packets m p = Some k"
  using refs_ok_dead [of m M p] by (cases "packets m p") (auto simp: count_eq_zero_iff)

lemma refs_ok_fresh: "refs_ok m M \<Longrightarrow> packets m (fresh m) = None"
  by (simp add: refs_ok_def)

lemma refs_okI:
  assumes "\<not> fault m" and "\<And>p. packets m p = None \<Longrightarrow> count M (Some p) = 0"
    and "\<And>p k. packets m p = Some k \<Longrightarrow> pk_referenceCount k = count M (Some p)"
    and "\<And>p k. packets m p = Some k \<Longrightarrow> buffer_holds k"
    and "\<And>p. p \<ge> fresh m \<Longrightarrow> packets m p = None"
  shows "refs_ok m M"
  using assms by (simp add: refs_ok_def)

lemma refs_ok_cong:
  "packets m' = packets m \<Longrightarrow> fresh m' = fresh m \<Longrightarrow> fault m' = fault m \<Longrightarrow> refs_ok m' M = refs_ok m M"
  by (simp add: refs_ok_def)

lemma refs_ok_None [simp]: "refs_ok m (add_mset None M) = refs_ok m M"
  by (simp add: refs_ok_def)

lemma refs_ok_malloc [simp]: "refs_ok (snd (enet_malloc m)) M = refs_ok m M"
  by (rule refs_ok_cong) simp_all

lemma refs_ok_upd:
  assumes ok: "refs_ok m (N + M)" and k: "packets m p = Some k"
    and f: "pk_referenceCount (f k) = count (N' + M) (Some p)"
    and b: "buffer_holds k \<Longrightarrow> buffer_holds (f k)"
    and o: "\<And>q. q \<noteq> p \<Longrightarrow> count N' (Some q) = count N (Some q)"
  shows "refs_ok (upd_packet p f m) (N' + M)"
proof -
  have "p < fresh m" by (rule refs_ok_below [OF ok k])
  then show ?thesis
    using refs_ok_no_fault [OF ok] refs_ok_count [OF ok] refs_ok_dead [OF ok] k f b o ok
    by (intro refs_okI) (auto simp: upd_packet_def refs_ok_def split: if_splits)
qed

lemma refs_ok_retain:
  assumes ok: "refs_ok m M" and k: "packets m p = Some k"
  shows "refs_ok (packet_retain n (Some p) m) (replicate_mset n (Some p) + M)"
  using refs_ok_upd [of m "{#}" M p k "\<lambda>k. k\<lparr>pk_referenceCount := pk_referenceCount k + n\<rparr>"
      "replicate_mset n (Some p)"] assms refs_ok_count [OF ok k]
  by (simp add: packet_retain_def)

lemma refs_ok_unref:
  assumes ok: "refs_ok m (add_mset (Some p) M)"
  shows "refs_ok (packet_unref p m) M"
proof -
  obtain k where k: "packets m p = Some k" using refs_ok_alive [OF ok] by auto
  have c: "pk_referenceCount k = Suc (count M (Some p))"
    using refs_ok_count [OF ok k] by simp
  show ?thesis
    using refs_ok_upd [of m "{#Some p#}" M p k "\<lambda>k. k\<lparr>pk_referenceCount :=
        (if pk_referenceCount k = 0 then size_max - 1 else pk_referenceCount k - 1)\<rparr>" "{#}"] ok k c
    by (simp add: packet_unref_def)
qed

lemma packets_unref:
  "packets m p = Some k \<Longrightarrow> packets (packet_unref p m) p = Some (k\<lparr>pk_referenceCount :=
     (if pk_referenceCount k = 0 then size_max - 1 else pk_referenceCount k - 1)\<rparr>)"
  by (simp add: packet_unref_def upd_packet_def)

lemma refs_ok_destroy:
  assumes ok: "refs_ok m M" and k: "packets m p = Some k" and z: "count M (Some p) = 0"
  shows "refs_ok (enet_packet_destroy (Some p) m) M"
  using refs_ok_no_fault [OF ok] refs_ok_count [OF ok] refs_ok_dead [OF ok] k z ok
  by (intro refs_okI) (auto simp: enet_packet_destroy_def refs_ok_def split: if_splits)

lemma refs_ok_release: "refs_ok m (add_mset x M) \<Longrightarrow> refs_ok (packet_release x m) M"
proof (cases x)
  case None
  then show "refs_ok m (add_mset x M) \<Longrightarrow> ?thesis" by (simp add: packet_release_def)
next
  case (Some p)
  assume ok: "refs_ok m (add_mset x M)"
  have u: "refs_ok (packet_unref p m) M" by (rule refs_ok_unref) (use ok Some in simp)
  obtain k where "packets m p = Some k" using refs_ok_alive [OF ok] Some by auto
  then obtain k' where k': "packets (packet_unref p m) p = Some k'" by (simp add: packets_unref)
  then show ?thesis
    using u refs_ok_destroy [OF u k'] refs_ok_count [OF u k']
    by (simp add: packet_release_def Some Let_def packet_refs_def)
qed

lemma refs_ok_release_sent: "refs_ok m (add_mset x M) \<Longrightarrow> refs_ok (packet_release_sent x m) M"
proof (cases x)
  case None
  then show "refs_ok m (add_mset x M) \<Longrightarrow> ?thesis" by (simp add: packet_release_sent_def)
next
  case (Some p)
  assume ok: "refs_ok m (add_mset x M)"
  let ?f = "\<lambda>k. k\<lparr>pk_flags := pk_flags k OR ENET_PACKET_FLAG_SENT\<rparr>"
  have u: "refs_ok (packet_unref p m) M" by (rule refs_ok_unref) (use ok Some in simp)
  obtain k where "packets m p = Some k" using refs_ok_alive [OF ok] Some by auto
  then obtain k' where k': "packets (packet_unref p m) p = Some k'" by (simp add: packets_unref)
  have s: "refs_ok (upd_packet p ?f (packet_unref p m)) M"
    using refs_ok_upd [of "packet_unref p m" "{#}" M p k' ?f "{#}"] u k' refs_ok_count [OF u k'] by simp
  have k2: "packets (upd_packet p ?f (packet_unref p m)) p = Some (?f k')"
    by (simp add: upd_packet_def k')
  show ?thesis
    using u refs_ok_destroy [OF s k2] refs_ok_count [OF u k'] k'
    by (simp add: packet_release_sent_def Some Let_def packet_refs_def)
qed

text \<open>
  Creation: the new packet is referenced by nobody yet.  The caller passes a buffer of at least
  the length it names.
\<close>

definition source_ok :: "u8 list option \<Rightarrow> nat \<Rightarrow> u32 \<Rightarrow> bool" where
  "source_ok data n flags \<longleftrightarrow>
    (case data of
       None \<Rightarrow> flags AND ENET_PACKET_FLAG_NO_ALLOCATE \<noteq> 0 \<longrightarrow> n = 0
     | Some d \<Rightarrow> n \<le> length d)"

lemma enet_packet_create_cases:
  assumes src: "source_ok data n flags" and r: "enet_packet_create data n flags m = (res, m')"
  obtains
    (failed) "res = None" "packets m' = packets m" "fresh m' = fresh m" "fault m' = fault m"
      "junk m' = junk m" "callback_log m' = callback_log m"
  | (made) bytes where "res = Some (fresh m)" "fresh m' = Suc (fresh m)" "fault m' = fault m"
      "junk m' = junk m" "callback_log m' = callback_log m"
      "packets m' = (packets m)(fresh m \<mapsto>
         \<lparr>pk_referenceCount = 0, pk_flags = flags, pk_data = bytes, pk_dataLength = n,
          pk_freeCallback = False\<rparr>)"
      "n \<le> length bytes"
      "flags AND ENET_PACKET_FLAG_NO_ALLOCATE = 0 \<Longrightarrow> length bytes = n"
      "flags AND ENET_PACKET_FLAG_NO_ALLOCATE = 0 \<Longrightarrow> \<forall>d. data = Some d \<longrightarrow> bytes = take n d"
proof -
  obtain ok m1 where m1: "enet_malloc m = (ok, m1)" by fastforce
  obtain ok2 m2 where m2: "enet_malloc m1 = (ok2, m2)" by fastforce
  note f1 = enet_malloc_frame [of m, unfolded m1 snd_conv]
  note f2 = enet_malloc_frame [of m1, unfolded m2 snd_conv]
  show ?thesis
  proof (cases "ok \<and> (flags AND ENET_PACKET_FLAG_NO_ALLOCATE = 0 \<and> 0 < n \<longrightarrow> ok2)")
    case False
    then have "res = None" "m' = m1 \<or> m' = m2"
      using r by (auto simp: enet_packet_create_def m1 m2 Let_def split: if_splits)
    then show ?thesis using f1 f2 by (intro failed) auto
  next
    case True
    show ?thesis
      using r True src f1 f2 made
      by (cases data)
        (auto simp: enet_packet_create_def m1 m2 Let_def source_ok_def copy_bytes_exact
          split: if_splits)
  qed
qed

lemma refs_ok_create:
  assumes ok: "refs_ok m M" and src: "source_ok data n flags"
    and r: "enet_packet_create data n flags m = (res, m')"
  shows "refs_ok m' M \<and> (\<forall>p. res = Some p \<longrightarrow> packets m' p \<noteq> None \<and> count M (Some p) = 0)"
  using src r
proof (cases rule: enet_packet_create_cases)
  case failed
  then show ?thesis using ok refs_ok_cong [of m' m M] by simp
next
  case (made bytes)
  then show ?thesis
    using ok refs_ok_dead [OF ok refs_ok_fresh [OF ok]] by (simp add: refs_ok_def buffer_holds_def)
qed

section \<open>The contract of shared packets\<close>

text \<open>
  \<open>owned m M\<close> relates a memory to the multiset of pointers held.  Any way of giving up one
  pointer that keeps the relation can empty whole queues.
\<close>

locale shared_packets =
  fixes owned :: "'m \<Rightarrow> nat option multiset \<Rightarrow> bool"
    and release :: "nat option \<Rightarrow> 'm \<Rightarrow> 'm"
    and safe :: "'m \<Rightarrow> bool"
  assumes release_owned: "owned m (add_mset x M) \<Longrightarrow> owned (release x m) M"
    and owned_safe: "owned m M \<Longrightarrow> safe m"
begin

lemma release_all: "owned m (mset xs + M) \<Longrightarrow> owned (fold release xs m) M"
  by (induction xs arbitrary: m) (simp_all add: release_owned)

lemma release_all_safe: "owned m (mset xs + M) \<Longrightarrow> safe (fold release xs m)"
  by (rule owned_safe [OF release_all])

end

interpretation released: shared_packets refs_ok packet_release "\<lambda>m. \<not> fault m"
  by unfold_locales (simp_all add: refs_ok_release refs_ok_no_fault)

interpretation sent: shared_packets refs_ok packet_release_sent "\<lambda>m. \<not> fault m"
  by unfold_locales (simp_all add: refs_ok_release_sent refs_ok_no_fault)

lemma if_upd: "(\<lambda>a. if a = p then x else f a)(p := y) = f(p := y)"
  by auto

lemma packet_release_step:
  assumes "packets m p = Some k" and "pk_referenceCount k = Suc n"
  shows "packet_release (Some p) m =
    (if n = 0 then m\<lparr>callback_log := (if pk_freeCallback k then callback_log m @ [p] else callback_log m),
                     packets := (packets m)(p := None)\<rparr>
     else m\<lparr>packets := (packets m)(p \<mapsto> k\<lparr>pk_referenceCount := n\<rparr>)\<rparr>)"
  using assms
  by (simp add: packet_release_def Let_def packet_unref_def upd_packet_def packet_refs_def
      enet_packet_destroy_def)

text \<open>
  C18: A packet with \<open>n\<close> references survives \<open>n - 1\<close> releases with its data untouched and is
  freed by the last one; its free callback then runs, exactly once, and no other packet is
  affected.
\<close>

theorem packet_freed_on_last_release:
  "packets m p = Some k \<Longrightarrow> pk_referenceCount k = Suc n \<Longrightarrow>
    (\<forall>j \<le> n. packets (((packet_release (Some p)) ^^ j) m) p
        = Some (k\<lparr>pk_referenceCount := Suc n - j\<rparr>)) \<and>
    packets (((packet_release (Some p)) ^^ Suc n) m) = (packets m)(p := None) \<and>
    callback_log (((packet_release (Some p)) ^^ Suc n) m)
      = callback_log m @ (if pk_freeCallback k then [p] else []) \<and>
    fault (((packet_release (Some p)) ^^ Suc n) m) = fault m"
proof -
  assume k: "packets m p = Some k" and c: "pk_referenceCount k = Suc n"
  have run: "j \<le> n \<Longrightarrow> ((packet_release (Some p)) ^^ j) m
      = m\<lparr>packets := (packets m)(p \<mapsto> k\<lparr>pk_referenceCount := Suc n - j\<rparr>)\<rparr>" for j
  proof (induction j)
    case 0
    show ?case using k c by (simp add: fun_upd_idem)
  next
    case (Suc j)
    then have "Suc n - j = Suc (n - j)" "n - j \<noteq> 0" by arith+
    then show ?case
      using Suc by (simp add: packet_release_step [where n = "n - j"] if_upd) (simp add: fun_upd_def)
  qed
  have last: "((packet_release (Some p)) ^^ Suc n) m
      = m\<lparr>callback_log := (if pk_freeCallback k then callback_log m @ [p] else callback_log m),
          packets := (packets m)(p := None)\<rparr>"
    using run [of n] by (simp add: packet_release_step [where n = 0] if_upd)
  show ?thesis
    unfolding last using run by simp
qed

theorem packet_freed_on_last_release_witness:
  "packets (((packet_release (Some 7)) ^^ Suc 1)
      \<lparr>packets = [7 \<mapsto> \<lparr>pk_referenceCount = 2, pk_flags = 1, pk_data = [5], pk_dataLength = 1,
         pk_freeCallback = True\<rparr>], fresh = 8, mallocs = [], junk = \<lambda>_. 0,
       callback_log = [], fault = False\<rparr>) 7 = None"
  using packet_freed_on_last_release
    [of "\<lparr>packets = [7 \<mapsto> \<lparr>pk_referenceCount = 2, pk_flags = 1, pk_data = [5], pk_dataLength = 1,
         pk_freeCallback = True\<rparr>], fresh = 8, mallocs = [], junk = \<lambda>_. 0,
       callback_log = [], fault = False\<rparr>" 7 _ 1] by simp

end
