(* ===== verification/Enet_Protocol.thy ===== *)
theory Enet_Protocol
  imports Prelude
begin

text \<open>
  The wire format of \<open>enet/include/enet/protocol.h\<close> and the size table of
  \<open>enet/protocol.c\<close>.

  A command is a header and a body.  The C code overlays a union of packed structs on the
  bytes; here the body is a datatype with one constructor per struct, \<open>encode_protocol\<close>
  writes the bytes of the struct and \<open>view_protocol\<close> reads the fields at their offsets, as a
  cast of a pointer into the datagram does.  Fields are kept in host byte order in the model
  and are swapped exactly where bytes are written or read (the code's
  \<open>ENET_HOST_TO_NET_16\<close> and its relatives).  \<open>connectID\<close> is the exception: the code copies
  it without swapping, so it is written in the byte order of the (little-endian) machine.
\<close>

section \<open>Constants\<close>

definition ENET_PROTOCOL_MINIMUM_MTU :: u32 where "ENET_PROTOCOL_MINIMUM_MTU = 576"
definition ENET_PROTOCOL_MAXIMUM_MTU :: u32 where "ENET_PROTOCOL_MAXIMUM_MTU = 4096"
definition ENET_PROTOCOL_MAXIMUM_PACKET_COMMANDS :: nat where
  "ENET_PROTOCOL_MAXIMUM_PACKET_COMMANDS = 32"
definition ENET_PROTOCOL_MINIMUM_WINDOW_SIZE :: u32 where
  "ENET_PROTOCOL_MINIMUM_WINDOW_SIZE = 4096"
definition ENET_PROTOCOL_MAXIMUM_WINDOW_SIZE :: u32 where
  "ENET_PROTOCOL_MAXIMUM_WINDOW_SIZE = 65536"
definition ENET_PROTOCOL_MINIMUM_CHANNEL_COUNT :: nat where
  "ENET_PROTOCOL_MINIMUM_CHANNEL_COUNT = 1"
definition ENET_PROTOCOL_MAXIMUM_CHANNEL_COUNT :: nat where
  "ENET_PROTOCOL_MAXIMUM_CHANNEL_COUNT = 255"
definition ENET_PROTOCOL_MAXIMUM_PEER_ID :: nat where
  "ENET_PROTOCOL_MAXIMUM_PEER_ID = 0xFFF"
definition ENET_PROTOCOL_MAXIMUM_FRAGMENT_COUNT :: nat where
  "ENET_PROTOCOL_MAXIMUM_FRAGMENT_COUNT = 1024 * 1024"

definition ENET_PROTOCOL_COMMAND_MASK :: u8 where "ENET_PROTOCOL_COMMAND_MASK = 0x0F"
definition ENET_PROTOCOL_COMMAND_COUNT :: u8 where "ENET_PROTOCOL_COMMAND_COUNT = 13"
definition ENET_PROTOCOL_COMMAND_ACKNOWLEDGE :: u8 where "ENET_PROTOCOL_COMMAND_ACKNOWLEDGE = 1"
definition ENET_PROTOCOL_COMMAND_CONNECT :: u8 where "ENET_PROTOCOL_COMMAND_CONNECT = 2"
definition ENET_PROTOCOL_COMMAND_VERIFY_CONNECT :: u8 where "ENET_PROTOCOL_COMMAND_VERIFY_CONNECT = 3"
definition ENET_PROTOCOL_COMMAND_DISCONNECT :: u8 where "ENET_PROTOCOL_COMMAND_DISCONNECT = 4"
definition ENET_PROTOCOL_COMMAND_PING :: u8 where "ENET_PROTOCOL_COMMAND_PING = 5"
definition ENET_PROTOCOL_COMMAND_SEND_RELIABLE :: u8 where "ENET_PROTOCOL_COMMAND_SEND_RELIABLE = 6"
definition ENET_PROTOCOL_COMMAND_SEND_UNRELIABLE :: u8 where "ENET_PROTOCOL_COMMAND_SEND_UNRELIABLE = 7"
definition ENET_PROTOCOL_COMMAND_SEND_FRAGMENT :: u8 where "ENET_PROTOCOL_COMMAND_SEND_FRAGMENT = 8"
definition ENET_PROTOCOL_COMMAND_SEND_UNSEQUENCED :: u8 where "ENET_PROTOCOL_COMMAND_SEND_UNSEQUENCED = 9"
definition ENET_PROTOCOL_COMMAND_BANDWIDTH_LIMIT :: u8 where "ENET_PROTOCOL_COMMAND_BANDWIDTH_LIMIT = 10"
definition ENET_PROTOCOL_COMMAND_THROTTLE_CONFIGURE :: u8 where "ENET_PROTOCOL_COMMAND_THROTTLE_CONFIGURE = 11"
definition ENET_PROTOCOL_COMMAND_SEND_UNRELIABLE_FRAGMENT :: u8 where "ENET_PROTOCOL_COMMAND_SEND_UNRELIABLE_FRAGMENT = 12"

lemmas command_numbers [simp] = ENET_PROTOCOL_COMMAND_ACKNOWLEDGE_def
  ENET_PROTOCOL_COMMAND_CONNECT_def
  ENET_PROTOCOL_COMMAND_VERIFY_CONNECT_def
  ENET_PROTOCOL_COMMAND_DISCONNECT_def
  ENET_PROTOCOL_COMMAND_PING_def
  ENET_PROTOCOL_COMMAND_SEND_RELIABLE_def
  ENET_PROTOCOL_COMMAND_SEND_UNRELIABLE_def
  ENET_PROTOCOL_COMMAND_SEND_FRAGMENT_def
  ENET_PROTOCOL_COMMAND_SEND_UNSEQUENCED_def
  ENET_PROTOCOL_COMMAND_BANDWIDTH_LIMIT_def
  ENET_PROTOCOL_COMMAND_THROTTLE_CONFIGURE_def
  ENET_PROTOCOL_COMMAND_SEND_UNRELIABLE_FRAGMENT_def

definition ENET_PROTOCOL_COMMAND_FLAG_ACKNOWLEDGE :: u8 where
  "ENET_PROTOCOL_COMMAND_FLAG_ACKNOWLEDGE = 0x80"
definition ENET_PROTOCOL_COMMAND_FLAG_UNSEQUENCED :: u8 where
  "ENET_PROTOCOL_COMMAND_FLAG_UNSEQUENCED = 0x40"

definition ENET_PROTOCOL_HEADER_FLAG_COMPRESSED :: u16 where
  "ENET_PROTOCOL_HEADER_FLAG_COMPRESSED = 0x4000"
definition ENET_PROTOCOL_HEADER_FLAG_SENT_TIME :: u16 where
  "ENET_PROTOCOL_HEADER_FLAG_SENT_TIME = 0x8000"
definition ENET_PROTOCOL_HEADER_FLAG_MASK :: u16 where
  "ENET_PROTOCOL_HEADER_FLAG_MASK =
    ENET_PROTOCOL_HEADER_FLAG_COMPRESSED OR ENET_PROTOCOL_HEADER_FLAG_SENT_TIME"
definition ENET_PROTOCOL_HEADER_SESSION_MASK :: u16 where
  "ENET_PROTOCOL_HEADER_SESSION_MASK = 0x3000"
definition ENET_PROTOCOL_HEADER_SESSION_SHIFT :: nat where
  "ENET_PROTOCOL_HEADER_SESSION_SHIFT = 12"

lemmas protocol_limits = ENET_PROTOCOL_MINIMUM_MTU_def ENET_PROTOCOL_MAXIMUM_MTU_def
  ENET_PROTOCOL_MAXIMUM_PACKET_COMMANDS_def ENET_PROTOCOL_MINIMUM_WINDOW_SIZE_def
  ENET_PROTOCOL_MAXIMUM_WINDOW_SIZE_def ENET_PROTOCOL_MINIMUM_CHANNEL_COUNT_def
  ENET_PROTOCOL_MAXIMUM_CHANNEL_COUNT_def ENET_PROTOCOL_MAXIMUM_PEER_ID_def
  ENET_PROTOCOL_MAXIMUM_FRAGMENT_COUNT_def

lemmas command_flags = ENET_PROTOCOL_COMMAND_MASK_def ENET_PROTOCOL_COMMAND_COUNT_def
  ENET_PROTOCOL_COMMAND_FLAG_ACKNOWLEDGE_def ENET_PROTOCOL_COMMAND_FLAG_UNSEQUENCED_def

lemmas header_flags = ENET_PROTOCOL_HEADER_FLAG_COMPRESSED_def
  ENET_PROTOCOL_HEADER_FLAG_SENT_TIME_def ENET_PROTOCOL_HEADER_FLAG_MASK_def
  ENET_PROTOCOL_HEADER_SESSION_MASK_def ENET_PROTOCOL_HEADER_SESSION_SHIFT_def

section \<open>Commands\<close>

record command_header =
  hd_command :: u8
  hd_channelID :: u8
  hd_reliableSequenceNumber :: u16

record connect_fields =
  cn_outgoingPeerID :: u16
  cn_incomingSessionID :: u8
  cn_outgoingSessionID :: u8
  cn_mtu :: u32
  cn_windowSize :: u32
  cn_channelCount :: u32
  cn_incomingBandwidth :: u32
  cn_outgoingBandwidth :: u32
  cn_packetThrottleInterval :: u32
  cn_packetThrottleAcceleration :: u32
  cn_packetThrottleDeceleration :: u32
  cn_connectID :: u32

record fragment_fields =
  fr_startSequenceNumber :: u16
  fr_dataLength :: u16
  fr_fragmentCount :: u32
  fr_fragmentNumber :: u32
  fr_totalLength :: u32
  fr_fragmentOffset :: u32

datatype protocol_body =
  No_Command
| Acknowledge (ak_receivedReliableSequenceNumber: u16) (ak_receivedSentTime: u16)
| Connect connect_fields (cn_data: u32)
| Verify_Connect connect_fields
| Disconnect (dc_data: u32)
| Ping
| Send_Reliable (sr_dataLength: u16)
| Send_Unreliable (su_unreliableSequenceNumber: u16) (su_dataLength: u16)
| Send_Fragment fragment_fields
| Send_Unsequenced (sq_unsequencedGroup: u16) (sq_dataLength: u16)
| Bandwidth_Limit (bl_incomingBandwidth: u32) (bl_outgoingBandwidth: u32)
| Throttle_Configure (tc_packetThrottleInterval: u32) (tc_packetThrottleAcceleration: u32)
    (tc_packetThrottleDeceleration: u32)
| Send_Unreliable_Fragment fragment_fields

record protocol =
  pr_header :: command_header
  pr_body :: protocol_body

text \<open>The enumeration \<open>ENetProtocolCommand\<close>.\<close>

fun command_number :: "protocol_body \<Rightarrow> u8" where
  "command_number No_Command = 0"
| "command_number (Acknowledge _ _) = 1"
| "command_number (Connect _ _) = 2"
| "command_number (Verify_Connect _) = 3"
| "command_number (Disconnect _) = 4"
| "command_number Ping = 5"
| "command_number (Send_Reliable _) = 6"
| "command_number (Send_Unreliable _ _) = 7"
| "command_number (Send_Fragment _) = 8"
| "command_number (Send_Unsequenced _ _) = 9"
| "command_number (Bandwidth_Limit _ _) = 10"
| "command_number (Throttle_Configure _ _ _) = 11"
| "command_number (Send_Unreliable_Fragment _) = 12"

text \<open>The sizes of the packed structs.\<close>

definition sizeof_ProtocolHeader :: nat where "sizeof_ProtocolHeader = 4"
definition offsetof_sentTime :: nat where "offsetof_sentTime = 2"
definition sizeof_CommandHeader :: nat where "sizeof_CommandHeader = 4"
definition sizeof_Acknowledge :: nat where "sizeof_Acknowledge = 8"
definition sizeof_Ping :: nat where "sizeof_Ping = 4"
definition sizeof_SendReliable :: nat where "sizeof_SendReliable = 6"
definition sizeof_SendUnreliable :: nat where "sizeof_SendUnreliable = 8"
definition sizeof_SendUnsequenced :: nat where "sizeof_SendUnsequenced = 8"
definition sizeof_SendFragment :: nat where "sizeof_SendFragment = 24"

lemmas sizeofs = sizeof_ProtocolHeader_def offsetof_sentTime_def sizeof_CommandHeader_def
  sizeof_Acknowledge_def sizeof_Ping_def sizeof_SendReliable_def sizeof_SendUnreliable_def
  sizeof_SendUnsequenced_def sizeof_SendFragment_def

definition commandSizes :: "nat list" where
  "commandSizes =
    [0, sizeof_Acknowledge, 48, 44, 8, sizeof_Ping, sizeof_SendReliable, sizeof_SendUnreliable,
     sizeof_SendFragment, sizeof_SendUnsequenced, 12, 16, sizeof_SendFragment]"

text \<open>
  The table is indexed with the low four bits of the command byte.  The values 13 to 15 are
  outside the table; the callers exclude them.
\<close>

definition command_of :: "u8 \<Rightarrow> u8" where
  "command_of b = b AND ENET_PROTOCOL_COMMAND_MASK"

definition enet_protocol_command_size :: "u8 \<Rightarrow> nat" where
  "enet_protocol_command_size commandNumber = commandSizes ! unat (command_of commandNumber)"

definition kind_of :: "protocol \<Rightarrow> u8" where
  "kind_of command = command_of (hd_command (pr_header command))"

definition is_acknowledged :: "protocol \<Rightarrow> bool" where
  "is_acknowledged p \<longleftrightarrow> hd_command (pr_header p) AND ENET_PROTOCOL_COMMAND_FLAG_ACKNOWLEDGE \<noteq> 0"

definition is_unsequenced :: "protocol \<Rightarrow> bool" where
  "is_unsequenced p \<longleftrightarrow> hd_command (pr_header p) AND ENET_PROTOCOL_COMMAND_FLAG_UNSEQUENCED \<noteq> 0"

section \<open>Bytes\<close>

definition put_be16 :: "u16 \<Rightarrow> u8 list" where
  "put_be16 w = [ucast (drop_bit 8 w), ucast w]"

definition get_be16 :: "u8 list \<Rightarrow> u16" where
  "get_be16 bs = push_bit 8 (ucast (bs ! 0)) OR ucast (bs ! 1)"

definition put_be32 :: "u32 \<Rightarrow> u8 list" where
  "put_be32 w = [ucast (drop_bit 24 w), ucast (drop_bit 16 w), ucast (drop_bit 8 w), ucast w]"

definition get_be32 :: "u8 list \<Rightarrow> u32" where
  "get_be32 bs = push_bit 24 (ucast (bs ! 0)) OR push_bit 16 (ucast (bs ! 1))
    OR push_bit 8 (ucast (bs ! 2)) OR ucast (bs ! 3)"

definition put_native32 :: "u32 \<Rightarrow> u8 list" where
  "put_native32 w = rev (put_be32 w)"

definition get_native32 :: "u8 list \<Rightarrow> u32" where
  "get_native32 bs = get_be32 (rev (take 4 bs))"

definition put_connect :: "connect_fields \<Rightarrow> u8 list" where
  "put_connect c =
    put_be16 (cn_outgoingPeerID c) @ [cn_incomingSessionID c, cn_outgoingSessionID c]
    @ put_be32 (cn_mtu c) @ put_be32 (cn_windowSize c) @ put_be32 (cn_channelCount c)
    @ put_be32 (cn_incomingBandwidth c) @ put_be32 (cn_outgoingBandwidth c)
    @ put_be32 (cn_packetThrottleInterval c) @ put_be32 (cn_packetThrottleAcceleration c)
    @ put_be32 (cn_packetThrottleDeceleration c) @ put_native32 (cn_connectID c)"

definition get_connect :: "u8 list \<Rightarrow> connect_fields" where
  "get_connect bs = \<lparr>
    cn_outgoingPeerID = get_be16 bs,
    cn_incomingSessionID = bs ! 2,
    cn_outgoingSessionID = bs ! 3,
    cn_mtu = get_be32 (drop 4 bs),
    cn_windowSize = get_be32 (drop 8 bs),
    cn_channelCount = get_be32 (drop 12 bs),
    cn_incomingBandwidth = get_be32 (drop 16 bs),
    cn_outgoingBandwidth = get_be32 (drop 20 bs),
    cn_packetThrottleInterval = get_be32 (drop 24 bs),
    cn_packetThrottleAcceleration = get_be32 (drop 28 bs),
    cn_packetThrottleDeceleration = get_be32 (drop 32 bs),
    cn_connectID = get_native32 (drop 36 bs)\<rparr>"

definition put_fragment :: "fragment_fields \<Rightarrow> u8 list" where
  "put_fragment f =
    put_be16 (fr_startSequenceNumber f) @ put_be16 (fr_dataLength f)
    @ put_be32 (fr_fragmentCount f) @ put_be32 (fr_fragmentNumber f)
    @ put_be32 (fr_totalLength f) @ put_be32 (fr_fragmentOffset f)"

definition get_fragment :: "u8 list \<Rightarrow> fragment_fields" where
  "get_fragment bs = \<lparr>
    fr_startSequenceNumber = get_be16 bs,
    fr_dataLength = get_be16 (drop 2 bs),
    fr_fragmentCount = get_be32 (drop 4 bs),
    fr_fragmentNumber = get_be32 (drop 8 bs),
    fr_totalLength = get_be32 (drop 12 bs),
    fr_fragmentOffset = get_be32 (drop 16 bs)\<rparr>"

fun put_body :: "protocol_body \<Rightarrow> u8 list" where
  "put_body No_Command = []"
| "put_body (Acknowledge n t) = put_be16 n @ put_be16 t"
| "put_body (Connect c d) = put_connect c @ put_be32 d"
| "put_body (Verify_Connect c) = put_connect c"
| "put_body (Disconnect d) = put_be32 d"
| "put_body Ping = []"
| "put_body (Send_Reliable n) = put_be16 n"
| "put_body (Send_Unreliable u n) = put_be16 u @ put_be16 n"
| "put_body (Send_Fragment f) = put_fragment f"
| "put_body (Send_Unsequenced g n) = put_be16 g @ put_be16 n"
| "put_body (Bandwidth_Limit i out) = put_be32 i @ put_be32 out"
| "put_body (Throttle_Configure i a d) = put_be32 i @ put_be32 a @ put_be32 d"
| "put_body (Send_Unreliable_Fragment f) = put_fragment f"

definition get_body :: "u8 \<Rightarrow> u8 list \<Rightarrow> protocol_body" where
  "get_body n bs =
    (if n = 1 then Acknowledge (get_be16 bs) (get_be16 (drop 2 bs))
     else if n = 2 then Connect (get_connect bs) (get_be32 (drop 40 bs))
     else if n = 3 then Verify_Connect (get_connect bs)
     else if n = 4 then Disconnect (get_be32 bs)
     else if n = 5 then Ping
     else if n = 6 then Send_Reliable (get_be16 bs)
     else if n = 7 then Send_Unreliable (get_be16 bs) (get_be16 (drop 2 bs))
     else if n = 8 then Send_Fragment (get_fragment bs)
     else if n = 9 then Send_Unsequenced (get_be16 bs) (get_be16 (drop 2 bs))
     else if n = 10 then Bandwidth_Limit (get_be32 bs) (get_be32 (drop 4 bs))
     else if n = 11 then Throttle_Configure (get_be32 bs) (get_be32 (drop 4 bs)) (get_be32 (drop 8 bs))
     else if n = 12 then Send_Unreliable_Fragment (get_fragment bs)
     else No_Command)"

definition encode_protocol :: "protocol \<Rightarrow> u8 list" where
  "encode_protocol p =
    [hd_command (pr_header p), hd_channelID (pr_header p)]
    @ put_be16 (hd_reliableSequenceNumber (pr_header p)) @ put_body (pr_body p)"

definition view_protocol :: "u8 list \<Rightarrow> protocol" where
  "view_protocol bs = \<lparr>
    pr_header = \<lparr>hd_command = bs ! 0, hd_channelID = bs ! 1,
                 hd_reliableSequenceNumber = get_be16 (drop 2 bs)\<rparr>,
    pr_body = get_body (command_of (bs ! 0)) (drop 4 bs)\<rparr>"

text \<open>The two headers of a datagram: peer ID, session and flags in one 16-bit field.\<close>

definition compose_peerID :: "u16 \<Rightarrow> u8 \<Rightarrow> u16 \<Rightarrow> u16" where
  "compose_peerID outgoingPeerID session headerFlags =
    outgoingPeerID OR (headerFlags OR push_bit ENET_PROTOCOL_HEADER_SESSION_SHIFT (ucast session))"

definition header_session :: "u16 \<Rightarrow> u8" where
  "header_session peerID =
    ucast (drop_bit ENET_PROTOCOL_HEADER_SESSION_SHIFT (peerID AND ENET_PROTOCOL_HEADER_SESSION_MASK))"

definition header_flags_of :: "u16 \<Rightarrow> u16" where
  "header_flags_of peerID = peerID AND ENET_PROTOCOL_HEADER_FLAG_MASK"

definition header_peerID :: "u16 \<Rightarrow> u16" where
  "header_peerID peerID =
    peerID AND NOT (ENET_PROTOCOL_HEADER_FLAG_MASK OR ENET_PROTOCOL_HEADER_SESSION_MASK)"

section \<open>The codec contract\<close>

text \<open>
  A field of fixed width: what is written is read back whatever follows it, and reading only
  looks at its own bytes, so that reading and writing again reproduces them.
\<close>

locale fixed_codec =
  fixes width :: nat
    and put :: "'a \<Rightarrow> u8 list"
    and get :: "u8 list \<Rightarrow> 'a"
  assumes put_length: "length (put x) = width"
    and get_put: "get (put x @ r) = x"
    and put_get: "width \<le> length bs \<Longrightarrow> put (get bs) = take width bs"
begin

lemma get_put_only: "get (put x) = x"
  using get_put [of x "[]"] by simp

lemma get_put_after: "length a = n \<Longrightarrow> get (drop n (a @ put x @ r)) = x"
  using get_put by auto

lemma put_inj: "put x = put y \<Longrightarrow> x = y"
  by (metis get_put_only)

lemma put_get_after: "n + width \<le> length bs \<Longrightarrow> put (get (drop n bs)) = take width (drop n bs)"
  by (rule put_get) simp

end

lemma length_puts [simp]: "length (put_be16 w) = 2" "length (put_be32 v) = 4"
  "length (put_native32 v) = 4"
  by (simp_all add: put_be16_def put_be32_def put_native32_def)

lemma length_2E:
  assumes "2 \<le> length bs"
  obtains a b r where "bs = a # b # r"
  using assms by (metis Suc_le_length_iff numeral_2_eq_2)

lemma length_4E:
  assumes "4 \<le> length bs"
  obtains a b c d r where "bs = a # b # c # d # r"
proof -
  have "Suc (Suc (Suc (Suc 0))) \<le> length bs" using assms by simp
  then show ?thesis using that by (auto simp: Suc_le_length_iff)
qed

lemma get_put_be16: "get_be16 (put_be16 w @ r) = w"
proof -
  have "push_bit 8 (ucast (ucast (drop_bit 8 w) :: u8)) OR ucast (ucast w :: u8) = w"
  proof (rule bit_word_eqI)
    fix i assume i: "i < LENGTH(16)"
    show "bit (push_bit 8 (ucast (ucast (drop_bit 8 w) :: u8)) OR ucast (ucast w :: u8) :: u16) i = bit w i"
      using i by (cases "i < 8")
        (auto simp: bit_or_iff bit_push_bit_iff bit_unsigned_iff bit_drop_bit_eq)
  qed
  then show ?thesis by (simp add: get_be16_def put_be16_def)
qed

lemma put_get_be16: "2 \<le> length bs \<Longrightarrow> put_be16 (get_be16 bs) = take 2 bs"
proof -
  assume "2 \<le> length bs"
  then obtain a b r where bs: "bs = a # b # r" by (rule length_2E)
  let ?w = "push_bit 8 (ucast a) OR ucast b :: u16"
  have "ucast (drop_bit 8 ?w) = a" "ucast ?w = b"
    by (rule bit_word_eqI; auto simp: bit_or_iff bit_push_bit_iff bit_unsigned_iff bit_drop_bit_eq
        dest: bit_imp_possible_bit)+
  then show ?thesis by (simp add: bs get_be16_def put_be16_def)
qed

lemma get_put_be32: "get_be32 (put_be32 w @ r) = w"
proof -
  have "push_bit 24 (ucast (ucast (drop_bit 24 w) :: u8))
      OR push_bit 16 (ucast (ucast (drop_bit 16 w) :: u8))
      OR push_bit 8 (ucast (ucast (drop_bit 8 w) :: u8)) OR ucast (ucast w :: u8) = w"
  proof (rule bit_word_eqI)
    fix i assume i: "i < LENGTH(32)"
    consider "i < 8" | "8 \<le> i" "i < 16" | "16 \<le> i" "i < 24" | "24 \<le> i" by linarith
    then show "bit (push_bit 24 (ucast (ucast (drop_bit 24 w) :: u8))
      OR push_bit 16 (ucast (ucast (drop_bit 16 w) :: u8))
      OR push_bit 8 (ucast (ucast (drop_bit 8 w) :: u8)) OR ucast (ucast w :: u8) :: u32) i = bit w i"
      by cases (use i in \<open>auto simp: bit_or_iff bit_push_bit_iff bit_unsigned_iff bit_drop_bit_eq\<close>)
  qed
  then show ?thesis by (simp add: get_be32_def put_be32_def)
qed

lemma put_get_be32: "4 \<le> length bs \<Longrightarrow> put_be32 (get_be32 bs) = take 4 bs"
proof -
  assume "4 \<le> length bs"
  then obtain a b c d r where bs: "bs = a # b # c # d # r" by (rule length_4E)
  let ?w = "push_bit 24 (ucast a) OR push_bit 16 (ucast b) OR push_bit 8 (ucast c) OR ucast d :: u32"
  have "ucast (drop_bit 24 ?w) = a" "ucast (drop_bit 16 ?w) = b" "ucast (drop_bit 8 ?w) = c"
    "ucast ?w = d"
    by (rule bit_word_eqI; auto simp: bit_or_iff bit_push_bit_iff bit_unsigned_iff bit_drop_bit_eq
        dest: bit_imp_possible_bit)+
  then show ?thesis by (simp add: bs get_be32_def put_be32_def)
qed

interpretation be16: fixed_codec 2 put_be16 get_be16
  by unfold_locales (simp_all add: get_put_be16 put_get_be16)

interpretation be32: fixed_codec 4 put_be32 get_be32
  by unfold_locales (simp_all add: get_put_be32 put_get_be32)

interpretation native32: fixed_codec 4 put_native32 get_native32
proof unfold_locales
  show "length (put_native32 x) = 4" for x by simp
  show "get_native32 (put_native32 x @ r) = x" for x r
    using be32.get_put_only by (simp add: get_native32_def put_native32_def)
  show "4 \<le> length bs \<Longrightarrow> put_native32 (get_native32 bs) = take 4 bs" for bs
    by (simp add: get_native32_def put_native32_def be32.put_get)
qed

lemmas field_reads [wire_simps] =
  be16.get_put be16.get_put_only be32.get_put be32.get_put_only native32.get_put native32.get_put_only

lemmas field_writes = be16.put_get be32.put_get native32.put_get

lemma nth_put_be16 [wire_simps]:
  "(put_be16 w @ a # r) ! 2 = a" "(put_be16 w @ a # b # r) ! 3 = b"
  by (simp_all add: put_be16_def)

lemma take_two: "2 \<le> length bs \<Longrightarrow> take 2 bs = [bs ! 0, bs ! 1]"
  by (elim length_2E) simp

interpretation connect: fixed_codec 40 put_connect get_connect
proof unfold_locales
  show "length (put_connect x) = 40" for x by (simp add: put_connect_def)
  show "get_connect (put_connect x @ r) = x" for x r
    by (simp add: put_connect_def get_connect_def wire_simps)
  show "put_connect (get_connect bs) = take 40 bs" if "40 \<le> length bs" for bs
  proof -
    have two: "take 2 (drop 2 bs) = [bs ! 2, bs ! 3]"
      using that by (simp add: take_two)
    have "take 40 bs = take (2 + (2 + (4 + (4 + (4 + (4 + (4 + (4 + (4 + (4 + 4)))))))))) bs"
      by simp
    also have "\<dots> = put_connect (get_connect bs)"
      unfolding take_add drop_drop
      using that two by (simp add: put_connect_def get_connect_def field_writes)
    finally show ?thesis by simp
  qed
qed

interpretation fragment: fixed_codec 20 put_fragment get_fragment
proof unfold_locales
  show "length (put_fragment x) = 20" for x by (simp add: put_fragment_def)
  show "get_fragment (put_fragment x @ r) = x" for x r
    by (simp add: put_fragment_def get_fragment_def wire_simps)
  show "put_fragment (get_fragment bs) = take 20 bs" if "20 \<le> length bs" for bs
  proof -
    have "take 20 bs = take (2 + (2 + (4 + (4 + (4 + 4))))) bs" by simp
    also have "\<dots> = put_fragment (get_fragment bs)"
      unfolding take_add drop_drop
      using that by (simp add: put_fragment_def get_fragment_def field_writes)
    finally show ?thesis by simp
  qed
qed

lemmas record_reads [wire_simps] =
  connect.get_put connect.get_put_only fragment.get_put fragment.get_put_only
  connect.put_length fragment.put_length

section \<open>Commands round-trip\<close>

text \<open>
  A command is well formed when its header names its body: the code always writes
  the two together.
\<close>

definition well_formed :: "protocol \<Rightarrow> bool" where
  "well_formed p \<longleftrightarrow> command_of (hd_command (pr_header p)) = command_number (pr_body p)
    \<and> pr_body p \<noteq> No_Command"

lemma get_put_body: "b \<noteq> No_Command \<Longrightarrow> get_body (command_number b) (put_body b @ r) = b"
  by (cases b) (simp_all add: get_body_def wire_simps)

lemma length_put_body:
  "b \<noteq> No_Command \<Longrightarrow> length (put_body b) + 4 = commandSizes ! unat (command_number b)"
  by (cases b) (simp_all add: commandSizes_def sizeofs wire_simps)

lemma command_number_bound: "command_number b < ENET_PROTOCOL_COMMAND_COUNT"
  by (cases b) (simp_all add: command_flags)

lemma encode_eq: "encode_protocol p @ r =
    hd_command (pr_header p) # hd_channelID (pr_header p)
    # put_be16 (hd_reliableSequenceNumber (pr_header p)) @ put_body (pr_body p) @ r"
  by (simp add: encode_protocol_def)

lemma drop_put_be16: "drop 2 (put_be16 w @ r) = r"
  by (simp add: put_be16_def)

lemma view_encode: "well_formed p \<Longrightarrow> view_protocol (encode_protocol p @ r) = p"
  by (simp add: well_formed_def view_protocol_def encode_eq wire_simps get_put_body)

lemma length_encode: "well_formed p \<Longrightarrow>
    length (encode_protocol p) = enet_protocol_command_size (hd_command (pr_header p))"
  using length_put_body [of "pr_body p"]
  by (auto simp: well_formed_def encode_protocol_def enet_protocol_command_size_def)

text \<open>
  C19: Every command the code builds is read back unchanged from the bytes it was written to,
  whatever follows them in the datagram, and takes exactly the number of bytes that the
  table \<open>commandSizes\<close> states, by which both sides advance.
\<close>

theorem protocol_roundtrip:
  "well_formed p \<Longrightarrow>
    view_protocol (encode_protocol p @ rest) = p \<and>
    length (encode_protocol p) = enet_protocol_command_size (hd_command (pr_header p))"
  by (simp add: view_encode length_encode)

theorem protocol_roundtrip_witness:
  "view_protocol (encode_protocol
     \<lparr>pr_header = \<lparr>hd_command = 0x81, hd_channelID = 3, hd_reliableSequenceNumber = 77\<rparr>,
      pr_body = Acknowledge 77 1000\<rparr> @ [1, 2, 3])
   = \<lparr>pr_header = \<lparr>hd_command = 0x81, hd_channelID = 3, hd_reliableSequenceNumber = 77\<rparr>,
      pr_body = Acknowledge 77 1000\<rparr>"
  using protocol_roundtrip [of "\<lparr>pr_header = \<lparr>hd_command = 0x81, hd_channelID = 3,
    hd_reliableSequenceNumber = 77\<rparr>, pr_body = Acknowledge 77 1000\<rparr>" "[1, 2, 3]"]
  by (simp add: well_formed_def command_of_def command_flags)

lemma command_cases:
  assumes "0 < n" "n < ENET_PROTOCOL_COMMAND_COUNT"
  shows "n \<in> {1, 2, 3, 4, 5, 6, 7, 8, 9, 10, 11, 12}"
proof -
  have "1 \<le> unat n" "unat n < 13"
    using assms by (simp_all add: command_flags word_less_nat_alt Suc_le_eq)
  then have "unat n = 1 \<or> unat n = 2 \<or> unat n = 3 \<or> unat n = 4 \<or> unat n = 5 \<or> unat n = 6
      \<or> unat n = 7 \<or> unat n = 8 \<or> unat n = 9 \<or> unat n = 10 \<or> unat n = 11 \<or> unat n = 12"
    by arith
  moreover have "n = word_of_nat (unat n)" by simp
  ultimately show ?thesis by (elim disjE) simp_all
qed

lemma put_get_body:
  assumes n: "0 < n" "n < ENET_PROTOCOL_COMMAND_COUNT"
    and l: "commandSizes ! unat n \<le> length bs + 4"
  shows "put_body (get_body n bs) = take (commandSizes ! unat n - 4) bs"
proof -
  have sp: "take 4 bs = take 2 bs @ take 2 (drop 2 bs)"
    "take 8 bs = take 4 bs @ take 4 (drop 4 bs)"
    "take 12 bs = take 4 bs @ take 4 (drop 4 bs) @ take 4 (drop 8 bs)"
    "take 44 bs = take 40 bs @ take 4 (drop 40 bs)"
    using take_add [of 2 2 bs] take_add [of 4 4 bs] take_add [of 4 "4 + 4" bs]
      take_add [of 4 4 "drop 4 bs"] take_add [of 40 4 bs] by simp_all
  show ?thesis
    using command_cases [OF n] l
    by (auto simp: get_body_def commandSizes_def sizeofs field_writes connect.put_get
        fragment.put_get sp)
qed

text \<open>
  C20: The other direction: for a command byte inside the table and enough bytes, reading a
  command and writing it back reproduces exactly its bytes, so the receiver's view loses
  nothing and two different commands never look alike on the wire.
\<close>

theorem view_roundtrip:
  assumes "0 < command_of (bs ! 0)" and "command_of (bs ! 0) < ENET_PROTOCOL_COMMAND_COUNT"
    and "enet_protocol_command_size (bs ! 0) \<le> length bs"
  shows "encode_protocol (view_protocol bs) = take (enet_protocol_command_size (bs ! 0)) bs"
proof -
  let ?n = "command_of (bs ! 0)"
  have "4 \<le> commandSizes ! unat ?n"
    using command_cases [OF assms(1,2)] by (auto simp: commandSizes_def sizeofs)
  then obtain m where m: "commandSizes ! unat ?n = 4 + m" by (metis le_Suc_ex)
  have len: "4 + m \<le> length bs" using assms(3) by (simp add: enet_protocol_command_size_def m)
  have body: "put_body (get_body ?n (drop 4 bs)) = take m (drop 4 bs)"
    using put_get_body [OF assms(1,2), of "drop 4 bs"] len by (simp add: m)
  have "take (4 + m) bs = take 2 bs @ take 2 (drop 2 bs) @ take m (drop 4 bs)"
    using take_add [of 2 "2 + m" bs] take_add [of 2 m "drop 2 bs"]
    by (simp add: numeral_eq_Suc)
  then show ?thesis
    using len body
    by (simp add: encode_protocol_def view_protocol_def enet_protocol_command_size_def m
        field_writes take_two)
qed

theorem view_roundtrip_witness:
  "encode_protocol (view_protocol [0x86, 0, 0, 9, 0, 2, 65, 66]) = [0x86, 0, 0, 9, 0, 2]"
  using view_roundtrip [of "[0x86, 0, 0, 9, 0, 2, 65, 66]"]
  by (simp add: command_of_def command_flags enet_protocol_command_size_def commandSizes_def sizeofs)

section \<open>The datagram header\<close>

lemma mask_words:
  "(0xF000 :: u16) = push_bit 12 (mask 4)" "(0xC000 :: u16) = push_bit 14 (mask 2)"
  "(0x3000 :: u16) = push_bit 12 (mask 2)"
  by (simp_all add: mask_eq_exp_minus_1)

lemma bit_mask_words:
  "bit (0xF000 :: u16) i \<longleftrightarrow> 12 \<le> i \<and> i < 16" "bit (0xC000 :: u16) i \<longleftrightarrow> 14 \<le> i \<and> i < 16"
  "bit (0x3000 :: u16) i \<longleftrightarrow> 12 \<le> i \<and> i < 14"
  by (simp_all only: mask_words bit_push_bit_iff bit_mask_iff possible_bit_word) auto

lemma header_masks:
  "ENET_PROTOCOL_HEADER_FLAG_MASK = 0xC000" "ENET_PROTOCOL_HEADER_SESSION_MASK = 0x3000"
  by (simp_all add: header_flags)

lemma small_bits: "unat (w :: 'a::len word) < 2 ^ n \<Longrightarrow> bit w i \<Longrightarrow> i < n"
proof (rule ccontr)
  assume s: "unat w < 2 ^ n" "bit w i" "\<not> i < n"
  note s(1)
  also have "(2 :: nat) ^ n \<le> 2 ^ i" using s(3) by (simp add: power_increasing)
  finally have "\<not> bit (unat w) i" by (simp add: bit_iff_odd)
  moreover have "bit (unat w) i" using s(2) by (simp add: bit_unsigned_iff)
  ultimately show False by contradiction
qed

lemma header_fields:
  assumes pid: "\<And>i. bit pid i \<Longrightarrow> i < 12" and flags: "\<And>i. bit flags i \<Longrightarrow> 14 \<le> i \<and> i < 16"
    and session: "\<And>i. bit session i \<Longrightarrow> i < 2"
  shows "header_peerID (compose_peerID pid session flags) = pid"
    and "header_session (compose_peerID pid session flags) = session"
    and "header_flags_of (compose_peerID pid session flags) = flags"
proof -
  have bits: "bit (compose_peerID pid session flags) i \<longleftrightarrow>
      bit pid i \<or> bit flags i \<or> 12 \<le> i \<and> i < 14 \<and> bit session (i - 12)" for i
    using session [of "i - 12"]
    by (auto simp: compose_peerID_def bit_or_iff bit_push_bit_iff bit_unsigned_iff header_flags)
  show "header_peerID (compose_peerID pid session flags) = pid"
    by (rule bit_word_eqI)
      (simp only: header_peerID_def header_masks bit_and_iff bit_not_iff bit_or_iff bit_mask_words
        bits, auto dest: pid flags)
  show "header_session (compose_peerID pid session flags) = session"
    by (rule bit_word_eqI)
      (simp only: header_session_def header_masks ENET_PROTOCOL_HEADER_SESSION_SHIFT_def
        bit_unsigned_iff bit_drop_bit_eq comp_def bit_and_iff bit_mask_words bits,
        auto dest: pid flags session)
  show "header_flags_of (compose_peerID pid session flags) = flags"
    by (rule bit_word_eqI)
      (simp only: header_flags_of_def header_masks bit_and_iff bit_mask_words bits,
        auto dest: pid flags session)
qed

lemma flag_bits:
  "flags \<in> {0, ENET_PROTOCOL_HEADER_FLAG_COMPRESSED, ENET_PROTOCOL_HEADER_FLAG_SENT_TIME,
      ENET_PROTOCOL_HEADER_FLAG_MASK} \<Longrightarrow> bit flags i \<Longrightarrow> 14 \<le> i \<and> i < 16"
proof -
  assume f: "flags \<in> {0, ENET_PROTOCOL_HEADER_FLAG_COMPRESSED, ENET_PROTOCOL_HEADER_FLAG_SENT_TIME,
      ENET_PROTOCOL_HEADER_FLAG_MASK}" and b: "bit flags i"
  have "flags AND ENET_PROTOCOL_HEADER_FLAG_MASK = flags"
    using f by (auto simp: header_flags)
  then have "bit (flags AND ENET_PROTOCOL_HEADER_FLAG_MASK) i" using b by simp
  then show ?thesis unfolding header_masks bit_and_iff bit_mask_words by simp
qed

text \<open>
  C21: The first field of a datagram carries a peer ID of up to 4095, a two-bit session and
  the flags for compression and sent time; the receiver separates the three again.
\<close>

theorem datagram_header_roundtrip:
  assumes "unat pid \<le> ENET_PROTOCOL_MAXIMUM_PEER_ID" and "session < 4"
    and "flags \<in> {0, ENET_PROTOCOL_HEADER_FLAG_COMPRESSED, ENET_PROTOCOL_HEADER_FLAG_SENT_TIME,
          ENET_PROTOCOL_HEADER_FLAG_MASK}"
  shows "header_peerID (compose_peerID pid session flags) = pid \<and>
    header_session (compose_peerID pid session flags) = session \<and>
    header_flags_of (compose_peerID pid session flags) = flags"
proof -
  have "unat pid < 2 ^ 12" using assms(1) by (simp add: protocol_limits)
  then have "bit pid i \<Longrightarrow> i < 12" for i by (rule small_bits)
  moreover have "bit session i \<Longrightarrow> i < 2" for i
    by (rule small_bits) (use assms(2) in \<open>simp add: word_less_nat_alt\<close>)
  ultimately show ?thesis
    using header_fields [of pid flags session] flag_bits [OF assms(3)] by simp
qed

theorem datagram_header_roundtrip_witness:
  "header_session (compose_peerID 0xFFF 3 ENET_PROTOCOL_HEADER_FLAG_MASK) = 3"
  using datagram_header_roundtrip [where pid = "0xFFF" and session = 3
      and flags = ENET_PROTOCOL_HEADER_FLAG_MASK]
  by (simp add: protocol_limits)

end
