(* ===== verification/Enet_Time.thy ===== *)
theory Enet_Time
  imports Prelude
begin

text \<open>
  \<open>enet/include/enet/time.h\<close> and \<open>enet/include/enet/utility.h\<close>: comparison of 32-bit
  millisecond clocks that wrap around, and the minimum, maximum and difference macros.

  A clock reading is a \<open>u32\<close>.  \<open>a\<close> counts as earlier than \<open>b\<close> when \<open>a - b\<close>, computed modulo
  \<open>2 ^ 32\<close>, is a day or more; so two readings less than a day apart are ordered rightly
  whether or not the clock wrapped between them.
\<close>

definition ENET_TIME_OVERFLOW :: u32 where
  "ENET_TIME_OVERFLOW = 86400000"

definition ENET_TIME_LESS :: "u32 \<Rightarrow> u32 \<Rightarrow> bool" where
  "ENET_TIME_LESS a b \<longleftrightarrow> a - b \<ge> ENET_TIME_OVERFLOW"

definition ENET_TIME_GREATER :: "u32 \<Rightarrow> u32 \<Rightarrow> bool" where
  "ENET_TIME_GREATER a b \<longleftrightarrow> b - a \<ge> ENET_TIME_OVERFLOW"

definition ENET_TIME_LESS_EQUAL :: "u32 \<Rightarrow> u32 \<Rightarrow> bool" where
  "ENET_TIME_LESS_EQUAL a b \<longleftrightarrow> \<not> ENET_TIME_GREATER a b"

definition ENET_TIME_GREATER_EQUAL :: "u32 \<Rightarrow> u32 \<Rightarrow> bool" where
  "ENET_TIME_GREATER_EQUAL a b \<longleftrightarrow> \<not> ENET_TIME_LESS a b"

definition ENET_TIME_DIFFERENCE :: "u32 \<Rightarrow> u32 \<Rightarrow> u32" where
  "ENET_TIME_DIFFERENCE a b = (if a - b \<ge> ENET_TIME_OVERFLOW then b - a else a - b)"

definition ENET_MAX :: "'a::linorder \<Rightarrow> 'a \<Rightarrow> 'a" where
  "ENET_MAX x y = (if x > y then x else y)"

definition ENET_MIN :: "'a::linorder \<Rightarrow> 'a \<Rightarrow> 'a" where
  "ENET_MIN x y = (if x < y then x else y)"

definition ENET_DIFFERENCE :: "u32 \<Rightarrow> u32 \<Rightarrow> u32" where
  "ENET_DIFFERENCE x y = (if x < y then y - x else x - y)"

lemma ENET_MAX_max: "ENET_MAX x y = max x y"
  by (auto simp: ENET_MAX_def max_def)

lemma ENET_MIN_min: "ENET_MIN x y = min x y"
  by (auto simp: ENET_MIN_def min_def)

lemma ENET_TIME_GREATER_LESS: "ENET_TIME_GREATER a b \<longleftrightarrow> ENET_TIME_LESS b a"
  by (simp add: ENET_TIME_GREATER_def ENET_TIME_LESS_def)

lemma unat_neg: "(d :: 'a::len word) \<noteq> 0 \<Longrightarrow> unat (- d) = 2 ^ LENGTH('a) - unat d"
  using unat_sub_if' [of 0 d] by (simp add: unat_eq_0)

lemma neg_overflow: "0 < d \<Longrightarrow> d < ENET_TIME_OVERFLOW \<Longrightarrow> - d \<ge> ENET_TIME_OVERFLOW"
proof -
  assume d: "0 < d" "d < ENET_TIME_OVERFLOW"
  then have "unat (- d) = 2 ^ 32 - unat d" using unat_neg [of d] by simp
  moreover have "unat d < 86400000" using d(2) by (simp add: ENET_TIME_OVERFLOW_def word_less_nat_alt)
  ultimately show ?thesis by (simp add: ENET_TIME_OVERFLOW_def word_le_nat_alt)
qed

text \<open>
  C15: A clock reading taken \<open>d\<close> milliseconds after \<open>a\<close>, with \<open>d\<close> less than a day, compares as
  later than \<open>a\<close> and never as earlier, and \<open>ENET_TIME_DIFFERENCE\<close> recovers \<open>d\<close> in both
  argument orders, also when the 32-bit clock wrapped around in between.
\<close>

theorem time_order_across_wrap:
  assumes "0 < d" and "d < ENET_TIME_OVERFLOW"
  shows "ENET_TIME_LESS a (a + d) \<and> \<not> ENET_TIME_LESS (a + d) a \<and>
    ENET_TIME_GREATER_EQUAL (a + d) a \<and> ENET_TIME_DIFFERENCE (a + d) a = d \<and>
    ENET_TIME_DIFFERENCE a (a + d) = d"
proof -
  have "- d \<ge> ENET_TIME_OVERFLOW" "\<not> d \<ge> ENET_TIME_OVERFLOW"
    using neg_overflow [OF assms] assms(2) by simp_all
  then show ?thesis
    by (simp add: ENET_TIME_LESS_def ENET_TIME_GREATER_EQUAL_def ENET_TIME_DIFFERENCE_def)
qed

theorem time_order_across_wrap_witness:
  "ENET_TIME_LESS 4294967290 (4294967290 + 10) \<and> ENET_TIME_DIFFERENCE 4 4294967290 = 10"
proof -
  have h: "(0 :: u32) < 10" "(10 :: u32) < ENET_TIME_OVERFLOW"
    by (simp_all add: ENET_TIME_OVERFLOW_def)
  have w: "(4294967290 :: u32) + 10 = 4" by (simp add: word_uint_eq_iff)
  show ?thesis
    using time_order_across_wrap [OF h, of 4294967290] unfolding w by blast
qed

end
