(* ===== verification/Enet_State.thy ===== *)
theory Enet_State
  imports Enet_Packet Enet_Protocol Enet_Time
begin

text \<open>
  The data of \<open>enet/include/enet/enet.h\<close>: commands in the queues, channels, peers, the host
  and the events it reports.

  A queue is a HOL list of commands, on the strength of theory \<open>Enet_List\<close>: an intrusive node
  is in one queue at a time.  A pointer to a peer is its index in the array of the host, a
  pointer to a packet its address in the memory, and an incoming command carries the address
  \<open>ic_id\<close> by which the code compares pointers to it.  The host record also holds what the
  operations reach besides the C struct: the memory, the clock and the socket.

  \<open>h_dispatchQueue\<close> lists the peers whose \<open>dispatchList\<close> node is linked.  Linking a node that
  is linked already would corrupt the queue, which a HOL list cannot show; \<open>h_linkFault\<close>
  records that it happened.  \<open>h_hung\<close> records that a loop ran on past the bound the model gives
  it, \<open>h_overread\<close> that the socket was handed bytes from behind the end of a packet.
\<close>

section \<open>Constants\<close>

definition ENET_HOST_BROADCAST :: u32 where "ENET_HOST_BROADCAST = 0xFFFFFFFF"
definition ENET_HOST_BANDWIDTH_THROTTLE_INTERVAL :: u32 where
  "ENET_HOST_BANDWIDTH_THROTTLE_INTERVAL = 1000"
definition ENET_HOST_DEFAULT_MTU :: u32 where "ENET_HOST_DEFAULT_MTU = 1400"
definition ENET_HOST_DEFAULT_MAXIMUM_PACKET_SIZE :: nat where
  "ENET_HOST_DEFAULT_MAXIMUM_PACKET_SIZE = 32 * 1024 * 1024"
definition ENET_HOST_DEFAULT_MAXIMUM_WAITING_DATA :: nat where
  "ENET_HOST_DEFAULT_MAXIMUM_WAITING_DATA = 32 * 1024 * 1024"
definition ENET_BUFFER_MAXIMUM :: nat where
  "ENET_BUFFER_MAXIMUM = 1 + 2 * ENET_PROTOCOL_MAXIMUM_PACKET_COMMANDS"

definition ENET_PEER_DEFAULT_ROUND_TRIP_TIME :: u32 where "ENET_PEER_DEFAULT_ROUND_TRIP_TIME = 500"
definition ENET_PEER_DEFAULT_PACKET_THROTTLE :: u32 where "ENET_PEER_DEFAULT_PACKET_THROTTLE = 32"
definition ENET_PEER_PACKET_THROTTLE_SCALE :: u32 where "ENET_PEER_PACKET_THROTTLE_SCALE = 32"
definition ENET_PEER_PACKET_THROTTLE_COUNTER :: u32 where "ENET_PEER_PACKET_THROTTLE_COUNTER = 7"
definition ENET_PEER_PACKET_THROTTLE_ACCELERATION :: u32 where
  "ENET_PEER_PACKET_THROTTLE_ACCELERATION = 2"
definition ENET_PEER_PACKET_THROTTLE_DECELERATION :: u32 where
  "ENET_PEER_PACKET_THROTTLE_DECELERATION = 2"
definition ENET_PEER_PACKET_THROTTLE_INTERVAL :: u32 where
  "ENET_PEER_PACKET_THROTTLE_INTERVAL = 5000"
definition ENET_PEER_PACKET_LOSS_SCALE :: u32 where "ENET_PEER_PACKET_LOSS_SCALE = 65536"
definition ENET_PEER_PACKET_LOSS_INTERVAL :: u32 where "ENET_PEER_PACKET_LOSS_INTERVAL = 10000"
definition ENET_PEER_WINDOW_SIZE_SCALE :: u32 where "ENET_PEER_WINDOW_SIZE_SCALE = 65536"
definition ENET_PEER_TIMEOUT_LIMIT :: u32 where "ENET_PEER_TIMEOUT_LIMIT = 32"
definition ENET_PEER_TIMEOUT_MINIMUM :: u32 where "ENET_PEER_TIMEOUT_MINIMUM = 5000"
definition ENET_PEER_TIMEOUT_MAXIMUM :: u32 where "ENET_PEER_TIMEOUT_MAXIMUM = 30000"
definition ENET_PEER_PING_INTERVAL :: u32 where "ENET_PEER_PING_INTERVAL = 500"
definition ENET_PEER_UNSEQUENCED_WINDOW_SIZE :: nat where "ENET_PEER_UNSEQUENCED_WINDOW_SIZE = 1024"
definition ENET_PEER_FREE_UNSEQUENCED_WINDOWS :: nat where "ENET_PEER_FREE_UNSEQUENCED_WINDOWS = 32"
definition ENET_PEER_RELIABLE_WINDOWS :: nat where "ENET_PEER_RELIABLE_WINDOWS = 16"
definition ENET_PEER_RELIABLE_WINDOW_SIZE :: nat where "ENET_PEER_RELIABLE_WINDOW_SIZE = 0x1000"
definition ENET_PEER_FREE_RELIABLE_WINDOWS :: nat where "ENET_PEER_FREE_RELIABLE_WINDOWS = 8"
definition ENET_PEER_FLAG_NEEDS_DISPATCH :: u16 where "ENET_PEER_FLAG_NEEDS_DISPATCH = 1"

lemmas windows = ENET_PEER_RELIABLE_WINDOWS_def ENET_PEER_RELIABLE_WINDOW_SIZE_def
  ENET_PEER_FREE_RELIABLE_WINDOWS_def

section \<open>Queued commands\<close>

record acknowledgement =
  ac_sentTime :: u32
  ac_command :: protocol

record outgoing_command =
  oc_reliableSequenceNumber :: u16
  oc_unreliableSequenceNumber :: u16
  oc_sentTime :: u32
  oc_roundTripTimeout :: u32
  oc_roundTripTimeoutLimit :: u32
  oc_fragmentOffset :: u32
  oc_fragmentLength :: u16
  oc_sendAttempts :: u16
  oc_command :: protocol
  oc_packet :: "nat option"

record incoming_command =
  ic_id :: nat
  ic_reliableSequenceNumber :: u16
  ic_unreliableSequenceNumber :: u16
  ic_command :: protocol
  ic_fragmentCount :: u32
  ic_fragmentsRemaining :: u32
  ic_fragments :: "u32 list option"
  ic_packet :: "nat option"

definition command_acknowledged :: "outgoing_command \<Rightarrow> bool" where
  "command_acknowledged c \<longleftrightarrow> is_acknowledged (oc_command c)"

definition size_of :: "outgoing_command \<Rightarrow> nat" where
  "size_of c = commandSizes ! unat (kind_of (oc_command c))"

definition command_channel :: "outgoing_command \<Rightarrow> nat" where
  "command_channel c = unat (hd_channelID (pr_header (oc_command c)))"

section \<open>Channels and peers\<close>

record channel =
  ch_outgoingReliableSequenceNumber :: u16
  ch_outgoingUnreliableSequenceNumber :: u16
  ch_usedReliableWindows :: u16
  ch_reliableWindows :: "u16 list"
  ch_incomingReliableSequenceNumber :: u16
  ch_incomingUnreliableSequenceNumber :: u16
  ch_incomingReliableCommands :: "incoming_command list"
  ch_incomingUnreliableCommands :: "incoming_command list"

datatype peer_state =
  Disconnected | Connecting | Acknowledging_Connect | Connection_Pending
| Connection_Succeeded | Connected | Disconnect_Later | Disconnecting
| Acknowledging_Disconnect | Zombie

fun state_number :: "peer_state \<Rightarrow> nat" where
  "state_number Disconnected = 0"
| "state_number Connecting = 1"
| "state_number Acknowledging_Connect = 2"
| "state_number Connection_Pending = 3"
| "state_number Connection_Succeeded = 4"
| "state_number Connected = 5"
| "state_number Disconnect_Later = 6"
| "state_number Disconnecting = 7"
| "state_number Acknowledging_Disconnect = 8"
| "state_number Zombie = 9"

lemma state_number_inj [simp]: "state_number a = state_number b \<longleftrightarrow> a = b"
  by (cases a; cases b) simp_all

text \<open>The code compares states as numbers.\<close>

instantiation peer_state :: linorder
begin

definition less_eq_peer_state :: "peer_state \<Rightarrow> peer_state \<Rightarrow> bool" where
  "a \<le> b \<longleftrightarrow> state_number a \<le> state_number b"

definition less_peer_state :: "peer_state \<Rightarrow> peer_state \<Rightarrow> bool" where
  "a < b \<longleftrightarrow> state_number a < state_number b"

instance
  by standard (auto simp: less_eq_peer_state_def less_peer_state_def)

end

record address =
  ad_host :: u32
  ad_port :: u16

record peer =
  p_outgoingPeerID :: u16
  p_incomingPeerID :: u16
  p_connectID :: u32
  p_outgoingSessionID :: u8
  p_incomingSessionID :: u8
  p_address :: address
  p_state :: peer_state
  p_channels :: "channel list"
  p_channelCount :: nat
  p_incomingBandwidth :: u32
  p_outgoingBandwidth :: u32
  p_incomingBandwidthThrottleEpoch :: u32
  p_outgoingBandwidthThrottleEpoch :: u32
  p_incomingDataTotal :: u32
  p_outgoingDataTotal :: u32
  p_lastSendTime :: u32
  p_lastReceiveTime :: u32
  p_nextTimeout :: u32
  p_earliestTimeout :: u32
  p_packetLossEpoch :: u32
  p_packetsSent :: u32
  p_packetsLost :: u32
  p_packetLoss :: u32
  p_packetLossVariance :: u32
  p_packetThrottle :: u32
  p_packetThrottleLimit :: u32
  p_packetThrottleCounter :: u32
  p_packetThrottleEpoch :: u32
  p_packetThrottleAcceleration :: u32
  p_packetThrottleDeceleration :: u32
  p_packetThrottleInterval :: u32
  p_pingInterval :: u32
  p_timeoutLimit :: u32
  p_timeoutMinimum :: u32
  p_timeoutMaximum :: u32
  p_lastRoundTripTime :: u32
  p_lowestRoundTripTime :: u32
  p_lastRoundTripTimeVariance :: u32
  p_highestRoundTripTimeVariance :: u32
  p_roundTripTime :: u32
  p_roundTripTimeVariance :: u32
  p_mtu :: u32
  p_windowSize :: u32
  p_reliableDataInTransit :: u32
  p_outgoingReliableSequenceNumber :: u16
  p_acknowledgements :: "acknowledgement list"
  p_sentReliableCommands :: "outgoing_command list"
  p_sentUnreliableCommands :: "outgoing_command list"
  p_outgoingCommands :: "outgoing_command list"
  p_dispatchedCommands :: "incoming_command list"
  p_flags :: u16
  p_incomingUnsequencedGroup :: u16
  p_outgoingUnsequencedGroup :: u16
  p_unsequencedWindow :: "u32 list"
  p_eventData :: u32
  p_totalWaitingData :: nat

definition needs_dispatch :: "peer \<Rightarrow> bool" where
  "needs_dispatch p \<longleftrightarrow> p_flags p AND ENET_PEER_FLAG_NEEDS_DISPATCH \<noteq> 0"

text \<open>The states in which a peer counts as connected, the test the code repeats most.\<close>

definition is_connected :: "peer_state \<Rightarrow> bool" where
  "is_connected s \<longleftrightarrow> s = Connected \<or> s = Disconnect_Later"

section \<open>The world around a host\<close>

text \<open>
  \<open>nt_inbox\<close> lists what the coming calls of \<open>enet_socket_receive\<close> find, \<open>nt_sends\<close> what the
  coming calls of \<open>enet_socket_send\<close> return (a call past the end sends everything), and
  \<open>nt_clock\<close> the coming readings of \<open>enet_time_get\<close> (past the end the last reading stays).
  \<open>nt_outbox\<close> records the datagrams handed to the socket.
\<close>

datatype received = Receive_Error | Datagram address "u8 list"

record network =
  nt_inbox :: "received list"
  nt_sends :: "int list"
  nt_clock :: "u32 list"
  nt_now :: u32
  nt_outbox :: "(address \<times> u8 list list) list"

definition enet_time_get :: "network \<Rightarrow> u32 \<times> network" where
  "enet_time_get n =
    (case nt_clock n of
      [] \<Rightarrow> (nt_now n, n)
    | t # ts \<Rightarrow> (t, n\<lparr>nt_clock := ts, nt_now := t\<rparr>))"

text \<open>
  A compressor is a pair of functions of the application.  They get the bytes and the limits
  that the C functions get, and return what those write to the buffer they are given; the C
  function returns how much that is.
\<close>

record compressor =
  cp_context :: bool
  cp_compress :: "(u8 list list \<Rightarrow> nat \<Rightarrow> nat \<Rightarrow> u8 list) option"
  cp_decompress :: "(u8 list \<Rightarrow> nat \<Rightarrow> u8 list) option"
  cp_destroy :: bool

text \<open>A gather buffer points at the datagram header, a command slot or packet data.\<close>

datatype buffer = Header_Buffer | Command_Buffer nat nat | Packet_Buffer nat nat nat

record host =
  h_address :: address
  h_incomingBandwidth :: u32
  h_outgoingBandwidth :: u32
  h_bandwidthThrottleEpoch :: u32
  h_mtu :: u32
  h_randomSeed :: u32
  h_recalculateBandwidthLimits :: bool
  h_peers :: "peer list"
  h_channelLimit :: nat
  h_serviceTime :: u32
  h_dispatchQueue :: "nat list"
  h_continueSending :: bool
  h_packetSize :: nat
  h_headerFlags :: u16
  h_commands :: "protocol list"
  h_buffers :: "buffer list"
  h_checksum :: "(u8 list list \<Rightarrow> u32) option"
  h_compressor :: compressor
  h_receivedAddress :: address
  h_receivedData :: "u8 list"
  h_totalSentData :: u32
  h_totalSentPackets :: u32
  h_totalReceivedData :: u32
  h_totalReceivedPackets :: u32
  h_connectedPeers :: nat
  h_bandwidthLimitedPeers :: nat
  h_duplicatePeers :: nat
  h_maximumPacketSize :: nat
  h_maximumWaitingData :: nat
  h_linkFault :: bool
  h_hung :: bool
  h_overread :: bool
  h_mem :: memory
  h_net :: network

datatype event_type = Event_None | Event_Connect | Event_Disconnect | Event_Receive

record event =
  ev_type :: event_type
  ev_peer :: "nat option"
  ev_channelID :: u8
  ev_data :: u32
  ev_packet :: "nat option"

section \<open>Access\<close>

definition peer_at :: "host \<Rightarrow> nat \<Rightarrow> peer" where
  "peer_at h i = h_peers h ! i"

definition upd_peer :: "nat \<Rightarrow> (peer \<Rightarrow> peer) \<Rightarrow> host \<Rightarrow> host" where
  "upd_peer i f h = h\<lparr>h_peers := upd_nth i f (h_peers h)\<rparr>"

definition channel_at :: "peer \<Rightarrow> nat \<Rightarrow> channel" where
  "channel_at p c = p_channels p ! c"

definition upd_channel :: "nat \<Rightarrow> (channel \<Rightarrow> channel) \<Rightarrow> peer \<Rightarrow> peer" where
  "upd_channel c f p = p\<lparr>p_channels := upd_nth c f (p_channels p)\<rparr>"

definition upd_mem :: "(memory \<Rightarrow> memory) \<Rightarrow> host \<Rightarrow> host" where
  "upd_mem f h = h\<lparr>h_mem := f (h_mem h)\<rparr>"

text \<open>
  \<open>-- count\<close> on a \<open>size_t\<close>.
\<close>

definition sz_dec :: "nat \<Rightarrow> nat" where
  "sz_dec n = (if n = 0 then size_max - 1 else n - 1)"

text \<open>A call of the allocator by a host.\<close>

definition host_malloc :: "host \<Rightarrow> bool \<times> host" where
  "host_malloc h = (let (ok, m) = enet_malloc (h_mem h) in (ok, h\<lparr>h_mem := m\<rparr>))"

definition host_time :: "host \<Rightarrow> u32 \<times> host" where
  "host_time h = (let (t, n) = enet_time_get (h_net h) in (t, h\<lparr>h_net := n\<rparr>))"

text \<open>
  The step the code repeats wherever a peer gets something to report: link the peer into the
  dispatch queue unless its flag says that it is linked.
\<close>

definition mark_dispatch :: "nat \<Rightarrow> host \<Rightarrow> host" where
  "mark_dispatch i h =
    (if needs_dispatch (peer_at h i) then h
     else upd_peer i (\<lambda>p. p\<lparr>p_flags := p_flags p OR ENET_PEER_FLAG_NEEDS_DISPATCH\<rparr>)
       (h\<lparr>h_linkFault := (h_linkFault h \<or> i \<in> set (h_dispatchQueue h)),
          h_dispatchQueue := h_dispatchQueue h @ [i]\<rparr>))"

text \<open>
  Memory cleared by \<open>memset\<close>: a peer and a host before they are set up, with an empty store and
  a silent network.
\<close>

definition zero_peer :: peer where
  "zero_peer = \<lparr>
    p_outgoingPeerID = 0, p_incomingPeerID = 0, p_connectID = 0, p_outgoingSessionID = 0,
    p_incomingSessionID = 0, p_address = \<lparr>ad_host = 0, ad_port = 0\<rparr>,
    p_state = Disconnected, p_channels = [], p_channelCount = 0, p_incomingBandwidth = 0,
    p_outgoingBandwidth = 0, p_incomingBandwidthThrottleEpoch = 0,
    p_outgoingBandwidthThrottleEpoch = 0, p_incomingDataTotal = 0, p_outgoingDataTotal = 0,
    p_lastSendTime = 0, p_lastReceiveTime = 0, p_nextTimeout = 0, p_earliestTimeout = 0,
    p_packetLossEpoch = 0, p_packetsSent = 0, p_packetsLost = 0, p_packetLoss = 0,
    p_packetLossVariance = 0, p_packetThrottle = 0, p_packetThrottleLimit = 0,
    p_packetThrottleCounter = 0, p_packetThrottleEpoch = 0, p_packetThrottleAcceleration = 0,
    p_packetThrottleDeceleration = 0, p_packetThrottleInterval = 0, p_pingInterval = 0,
    p_timeoutLimit = 0, p_timeoutMinimum = 0, p_timeoutMaximum = 0, p_lastRoundTripTime = 0,
    p_lowestRoundTripTime = 0, p_lastRoundTripTimeVariance = 0,
    p_highestRoundTripTimeVariance = 0, p_roundTripTime = 0, p_roundTripTimeVariance = 0,
    p_mtu = 0, p_windowSize = 0, p_reliableDataInTransit = 0,
    p_outgoingReliableSequenceNumber = 0, p_acknowledgements = [],
    p_sentReliableCommands = [], p_sentUnreliableCommands = [], p_outgoingCommands = [],
    p_dispatchedCommands = [], p_flags = 0, p_incomingUnsequencedGroup = 0,
    p_outgoingUnsequencedGroup = 0, p_unsequencedWindow = [], p_eventData = 0,
    p_totalWaitingData = 0\<rparr>"

definition empty_memory :: memory where
  "empty_memory = \<lparr>packets = \<lambda>_. None, fresh = 0, mallocs = [], junk = \<lambda>_. 0, callback_log = [],
     fault = False\<rparr>"

definition silent_network :: network where
  "silent_network = \<lparr>nt_inbox = [], nt_sends = [], nt_clock = [], nt_now = 0, nt_outbox = []\<rparr>"

definition zero_host :: host where
  "zero_host = \<lparr>
    h_address = \<lparr>ad_host = 0, ad_port = 0\<rparr>, h_incomingBandwidth = 0,
    h_outgoingBandwidth = 0, h_bandwidthThrottleEpoch = 0, h_mtu = 0, h_randomSeed = 0,
    h_recalculateBandwidthLimits = False, h_peers = [], h_channelLimit = 0,
    h_serviceTime = 0, h_dispatchQueue = [], h_continueSending = False, h_packetSize = 0,
    h_headerFlags = 0, h_commands = [], h_buffers = [], h_checksum = None,
    h_compressor = \<lparr>cp_context = False, cp_compress = None, cp_decompress = None, cp_destroy = False\<rparr>,
    h_receivedAddress = \<lparr>ad_host = 0, ad_port = 0\<rparr>, h_receivedData = [],
    h_totalSentData = 0, h_totalSentPackets = 0, h_totalReceivedData = 0,
    h_totalReceivedPackets = 0, h_connectedPeers = 0, h_bandwidthLimitedPeers = 0,
    h_duplicatePeers = 0, h_maximumPacketSize = 0, h_maximumWaitingData = 0,
    h_linkFault = False, h_hung = False, h_overread = False, h_mem = empty_memory, h_net = silent_network\<rparr>"

definition zero_channel :: channel where
  "zero_channel = \<lparr>
    ch_outgoingReliableSequenceNumber = 0, ch_outgoingUnreliableSequenceNumber = 0,
    ch_usedReliableWindows = 0, ch_reliableWindows = replicate ENET_PEER_RELIABLE_WINDOWS 0,
    ch_incomingReliableSequenceNumber = 0, ch_incomingUnreliableSequenceNumber = 0,
    ch_incomingReliableCommands = [], ch_incomingUnreliableCommands = []\<rparr>"

text \<open>Frames.\<close>

lemma peer_at_upd_peer [simp]:
  "i < length (h_peers h) \<Longrightarrow> peer_at (upd_peer i f h) i = f (peer_at h i)"
  "i \<noteq> j \<Longrightarrow> peer_at (upd_peer i f h) j = peer_at h j"
  by (simp_all add: peer_at_def upd_peer_def)

lemma upd_peer_twice [simp]: "upd_peer i f (upd_peer i g h) = upd_peer i (\<lambda>p. f (g p)) h"
  by (simp add: upd_peer_def)

lemma peers_upd_peer [simp]: "h_peers (upd_peer i f h) = upd_nth i f (h_peers h)"
  by (simp add: upd_peer_def)

lemma upd_peer_frame [simp]:
  "h_mem (upd_peer i f h) = h_mem h" "h_net (upd_peer i f h) = h_net h"
  "h_connectedPeers (upd_peer i f h) = h_connectedPeers h"
  "h_bandwidthLimitedPeers (upd_peer i f h) = h_bandwidthLimitedPeers h"
  "h_dispatchQueue (upd_peer i f h) = h_dispatchQueue h"
  "h_linkFault (upd_peer i f h) = h_linkFault h"
  "h_checksum (upd_peer i f h) = h_checksum h" "h_serviceTime (upd_peer i f h) = h_serviceTime h"
  "h_maximumPacketSize (upd_peer i f h) = h_maximumPacketSize h"
  "h_maximumWaitingData (upd_peer i f h) = h_maximumWaitingData h"
  "h_mtu (upd_peer i f h) = h_mtu h" "h_buffers (upd_peer i f h) = h_buffers h"
  "h_commands (upd_peer i f h) = h_commands h" "h_packetSize (upd_peer i f h) = h_packetSize h"
  "h_continueSending (upd_peer i f h) = h_continueSending h"
  "h_receivedData (upd_peer i f h) = h_receivedData h"
  "h_receivedAddress (upd_peer i f h) = h_receivedAddress h"
  "h_compressor (upd_peer i f h) = h_compressor h"
  "h_channelLimit (upd_peer i f h) = h_channelLimit h"
  "h_duplicatePeers (upd_peer i f h) = h_duplicatePeers h"
  "h_incomingBandwidth (upd_peer i f h) = h_incomingBandwidth h"
  "h_outgoingBandwidth (upd_peer i f h) = h_outgoingBandwidth h"
  "h_headerFlags (upd_peer i f h) = h_headerFlags h"
  "h_hung (upd_peer i f h) = h_hung h" "h_overread (upd_peer i f h) = h_overread h"
  by (simp_all add: upd_peer_def)

lemma upd_mem_frame [simp]:
  "h_mem (upd_mem f h) = f (h_mem h)" "h_peers (upd_mem f h) = h_peers h"
  "peer_at (upd_mem f h) i = peer_at h i" "h_connectedPeers (upd_mem f h) = h_connectedPeers h"
  "h_bandwidthLimitedPeers (upd_mem f h) = h_bandwidthLimitedPeers h"
  "h_dispatchQueue (upd_mem f h) = h_dispatchQueue h" "h_linkFault (upd_mem f h) = h_linkFault h"
  "h_net (upd_mem f h) = h_net h" "h_receivedData (upd_mem f h) = h_receivedData h"
  "h_maximumPacketSize (upd_mem f h) = h_maximumPacketSize h" "h_hung (upd_mem f h) = h_hung h"
  "h_overread (upd_mem f h) = h_overread h"
  "h_buffers (upd_mem f h) = h_buffers h" "h_commands (upd_mem f h) = h_commands h"
  "h_packetSize (upd_mem f h) = h_packetSize h" "h_continueSending (upd_mem f h) = h_continueSending h"
  "h_headerFlags (upd_mem f h) = h_headerFlags h" "h_serviceTime (upd_mem f h) = h_serviceTime h"
  by (simp_all add: upd_mem_def peer_at_def)

lemma peer_at_mem [simp]: "peer_at (h\<lparr>h_mem := m\<rparr>) i = peer_at h i"
  by (simp add: peer_at_def)

lemma length_upd_channel [simp]: "length (p_channels (upd_channel c f p)) = length (p_channels p)"
  by (simp add: upd_channel_def)

lemma channel_at_upd_channel [simp]:
  "c < length (p_channels p) \<Longrightarrow> channel_at (upd_channel c f p) c = f (channel_at p c)"
  "c \<noteq> d \<Longrightarrow> channel_at (upd_channel c f p) d = channel_at p d"
  by (simp_all add: channel_at_def upd_channel_def)

lemma host_mallocE:
  assumes "host_malloc h = (ok, h')"
  obtains m where "enet_malloc (h_mem h) = (ok, m)" "h' = h\<lparr>h_mem := m\<rparr>"
  using assms by (auto simp: host_malloc_def split: prod.splits)

end
