(* ===== verification/Enet_Refs.thy ===== *)
theory Enet_Refs
  imports Enet_State
begin

text \<open>
  Who holds which packet: the multiset of packet pointers in the queues of a host, and the
  invariant \<open>memory_safe\<close>, by which the reference counts of the packets are exactly the number
  of queued commands that point at them.  The lemmas here reduce the invariant of the whole
  host to the one peer an operation works on.
\<close>

definition out_refs :: "outgoing_command list \<Rightarrow> nat option multiset" where
  "out_refs q = image_mset oc_packet (mset q)"

definition in_refs :: "incoming_command list \<Rightarrow> nat option multiset" where
  "in_refs q = image_mset ic_packet (mset q)"

lemma refs_simps [simp]:
  "out_refs [] = {#}" "out_refs (c # q) = add_mset (oc_packet c) (out_refs q)"
  "out_refs (q @ r) = out_refs q + out_refs r"
  "in_refs [] = {#}" "in_refs (d # s) = add_mset (ic_packet d) (in_refs s)"
  "in_refs (s @ t) = in_refs s + in_refs t"
  by (simp_all add: out_refs_def in_refs_def)

definition channel_refs :: "channel \<Rightarrow> nat option multiset" where
  "channel_refs ch = in_refs (ch_incomingReliableCommands ch) + in_refs (ch_incomingUnreliableCommands ch)"

definition channels_refs :: "channel list \<Rightarrow> nat option multiset" where
  "channels_refs chs = sum_list (map channel_refs chs)"

definition peer_refs :: "peer \<Rightarrow> nat option multiset" where
  "peer_refs p = out_refs (p_sentReliableCommands p) + out_refs (p_sentUnreliableCommands p)
    + out_refs (p_outgoingCommands p) + in_refs (p_dispatchedCommands p) + channels_refs (p_channels p)"

definition held :: "host \<Rightarrow> nat option multiset" where
  "held h = sum_list (map peer_refs (h_peers h))"

definition others :: "nat \<Rightarrow> host \<Rightarrow> nat option multiset" where
  "others i h = sum_list (map peer_refs (take i (h_peers h))) + sum_list (map peer_refs (drop (Suc i) (h_peers h)))"

lemma sum_list_mset_split:
  fixes g :: "'a \<Rightarrow> 'b::comm_monoid_add"
  shows "i < length xs \<Longrightarrow> sum_list (map g xs)
    = g (xs ! i) + (sum_list (map g (take i xs)) + sum_list (map g (drop (Suc i) xs)))"
proof -
  assume i: "i < length xs"
  have "sum_list (map g xs) = sum_list (map g (take i xs @ xs ! i # drop (Suc i) xs))"
    using i by (simp add: id_take_nth_drop [symmetric])
  then show ?thesis by (simp only: map_append list.map sum_list.append sum_list.Cons ac_simps)
qed

lemma held_split: "i < length (h_peers h) \<Longrightarrow> held h = peer_refs (peer_at h i) + others i h"
  by (simp add: held_def others_def peer_at_def sum_list_mset_split)

lemma others_upd_peer [simp]: "others i (upd_peer i f h) = others i h"
  by (simp only: others_def peers_upd_peer upd_nth_def take_update_cancel drop_update_cancel order_refl lessI)

lemma others_cong: "h_peers h' = h_peers h \<Longrightarrow> others i h' = others i h"
  by (simp add: others_def)

lemma others_mem [simp]: "others i (upd_mem f h) = others i h" "others i (h\<lparr>h_mem := m\<rparr>) = others i h"
  by (simp_all add: others_def)

lemma channels_refs_split: "c < length chs \<Longrightarrow>
    channels_refs chs = channel_refs (chs ! c) + channels_refs (take c chs @ drop (Suc c) chs)"
  by (simp add: channels_refs_def sum_list_mset_split)

lemma channels_refs_upd: "c < length chs \<Longrightarrow>
    channels_refs (upd_nth c f chs) = channel_refs (f (chs ! c)) + channels_refs (take c chs @ drop (Suc c) chs)"
  by (simp add: channels_refs_def sum_list_mset_split upd_nth_def)

lemma channels_refs_Nil [simp]: "channels_refs [] = {#}"
  by (simp add: channels_refs_def)

lemma channels_refs_upd_same:
  "(\<And>ch. channel_refs (f ch) = channel_refs ch) \<Longrightarrow> channels_refs (upd_nth c f chs) = channels_refs chs"
  by (simp add: channels_refs_def map_upd_nth_same)

section \<open>The invariant\<close>

text \<open>
  The reference counts are right, no channel past \<open>channelCount\<close> holds a command, a peer that
  is free or still connecting has received nothing, and the sizes that the arithmetic of
  fragments depends on are in range: the MTU of every peer within the protocol's limits, and
  packets shorter than the 32-bit offsets can count.  Every received command has a packet, was
  allocated right after it, and has a bit for each of its fragments, as many of them still clear
  as \<open>fragmentsRemaining\<close> says.  Of the commands to be
  sent, exactly those without a packet have the unreliable number 0, acknowledged ones aside:
  when \<open>enet_protocol_check_outgoing_commands\<close> drops a run of commands with equal numbers, it
  takes for granted that they all have a packet.  Unsequenced packets break this condition.
  And no decompressor is set, because a compressed datagram shorter than its header makes
  \<open>enet_protocol_handle_incoming_commands\<close> hand a decompressor a length that wrapped around.
\<close>

definition mtu_ok :: "u32 \<Rightarrow> bool" where
  "mtu_ok m \<longleftrightarrow> ENET_PROTOCOL_MINIMUM_MTU \<le> m \<and> m \<le> ENET_PROTOCOL_MAXIMUM_MTU"

definition channel_cmds :: "channel \<Rightarrow> incoming_command multiset" where
  "channel_cmds ch = mset (ch_incomingReliableCommands ch) + mset (ch_incomingUnreliableCommands ch)"

definition incoming_cmds :: "peer \<Rightarrow> incoming_command multiset" where
  "incoming_cmds p = mset (p_dispatchedCommands p) + sum_list (map channel_cmds (p_channels p))"

text \<open>The fragments that have not arrived, by the bits of a command.\<close>

definition arrived :: "u32 list \<Rightarrow> nat \<Rightarrow> bool" where
  "arrived bits k \<longleftrightarrow> bit (bits ! (k div 32)) (k mod 32)"

definition missing :: "nat \<Rightarrow> u32 list \<Rightarrow> nat" where
  "missing n bits = card {k. k < n \<and> \<not> arrived bits k}"

definition fragments_ok :: "incoming_command \<Rightarrow> bool" where
  "fragments_ok c \<longleftrightarrow> (ic_fragmentCount c = 0 \<or>
     (case ic_fragments c of None \<Rightarrow> False
      | Some bits \<Rightarrow> length bits = (unat (ic_fragmentCount c) + 31) div 32
          \<and> unat (ic_fragmentsRemaining c) = missing (unat (ic_fragmentCount c)) bits))"

lemma missing_all: "(n + 31) div 32 \<le> m \<Longrightarrow> missing n (replicate m 0) = n"
proof -
  assume m: "(n + 31) div 32 \<le> m"
  have "k div 32 < m" if "k < n" for k using that m by linarith
  then have "{k. k < n \<and> \<not> arrived (replicate m 0) k} = {..<n}" by (auto simp: arrived_def)
  then show ?thesis by (simp add: missing_def)
qed

lemma missing_none: "missing n bits = 0 \<longleftrightarrow> (\<forall>k < n. arrived bits k)"
  by (auto simp: missing_def)

lemma bit_single: "j < 32 \<Longrightarrow> bit (push_bit j 1 :: u32) k \<longleftrightarrow> k = j"
  unfolding bit_push_bit_iff bit_1_iff by auto

lemma and_push_bit_1: "j < 32 \<Longrightarrow> (x :: u32) AND push_bit j 1 \<noteq> 0 \<longleftrightarrow> bit x j"
proof -
  assume j: "j < 32"
  have "bit (x AND push_bit j 1) k \<longleftrightarrow> k = j \<and> bit x j" for k
    unfolding bit_and_iff bit_single [OF j] by auto
  then show ?thesis by (metis bit_0_eq bot_apply bot_bool_def bit_word_eqI)
qed

text \<open>A fragment that arrives is missing no more, and no other one changes.\<close>

lemma missing_mark:
  fixes bits :: "u32 list"
  assumes n: "n < m" "n div 32 < length bits" and b: "\<not> bit (bits ! (n div 32)) (n mod 32)"
  shows "missing m bits = Suc (missing m (bits[n div 32 := bits ! (n div 32) OR push_bit (n mod 32) 1]))"
proof -
  define B where "B = (push_bit (n mod 32) 1 :: u32)"
  have B: "bit B k \<longleftrightarrow> k = n mod 32" for k unfolding B_def by (rule bit_single) simp
  let ?bits = "bits[n div 32 := bits ! (n div 32) OR B]"
  have a: "arrived ?bits k \<longleftrightarrow> k = n \<or> arrived bits k" for k
  proof (cases "k div 32 = n div 32")
    case True
    then have "k = n \<longleftrightarrow> k mod 32 = n mod 32" by (metis mult_div_mod_eq)
    then show ?thesis using True n by (auto simp: arrived_def bit_or_iff B)
  next
    case False
    then show ?thesis by (auto simp: arrived_def)
  qed
  have "{k. k < m \<and> \<not> arrived bits k} = insert n {k. k < m \<and> \<not> arrived ?bits k}"
    unfolding a using n b by (auto simp: arrived_def)
  moreover have "n \<notin> {k. k < m \<and> \<not> arrived ?bits k}" unfolding a by simp
  ultimately have "missing m bits = Suc (missing m ?bits)" by (simp add: missing_def)
  then show ?thesis unfolding B_def .
qed

definition command_ok :: "incoming_command \<Rightarrow> bool" where
  "command_ok c \<longleftrightarrow> (case ic_packet c of None \<Rightarrow> False | Some p \<Rightarrow> ic_id c = Suc p) \<and> fragments_ok c"

definition outgoing_ok :: "outgoing_command \<Rightarrow> bool" where
  "outgoing_ok c \<longleftrightarrow> (case oc_packet c of
     None \<Rightarrow> oc_unreliableSequenceNumber c = 0
   | Some _ \<Rightarrow> command_acknowledged c \<or> oc_unreliableSequenceNumber c \<noteq> 0)"

definition idle :: "peer_state \<Rightarrow> bool" where
  "idle s \<longleftrightarrow> s = Disconnected \<or> s = Connecting"

text \<open>
  What the queues of commands hold can be sent: each command fits into a datagram, and a peer that
  has no connection yet, the size of whose datagrams may still change, has only commands without
  data to send.  A round trip time is never zero, and too short for the timeouts that are computed
  from it to wrap around.
\<close>

definition alone :: "u32 \<Rightarrow> outgoing_command \<Rightarrow> bool" where
  "alone mtu c \<longleftrightarrow> 4 + size_of c + unat (oc_fragmentLength c) \<le> unat mtu"

definition light :: "outgoing_command \<Rightarrow> bool" where
  "light c \<longleftrightarrow> size_of c \<le> 48 \<and> oc_fragmentLength c = 0"

definition traffic_view :: "peer \<Rightarrow> u32 \<times> bool \<times> outgoing_command list \<times> outgoing_command list \<times> u32 \<times> u32" where
  "traffic_view p = (p_mtu p, idle (p_state p), p_outgoingCommands p, p_sentReliableCommands p,
     p_roundTripTime p, p_roundTripTimeVariance p)"

definition traffic_ok :: "u32 \<times> bool \<times> outgoing_command list \<times> outgoing_command list \<times> u32 \<times> u32 \<Rightarrow> bool" where
  "traffic_ok v \<longleftrightarrow> (case v of (m, e, q, s, rtt, var) \<Rightarrow>
     (\<forall>c \<in> set q \<union> set s. alone m c \<and> (e \<longrightarrow> light c)) \<and> 1 \<le> rtt \<and> rtt \<le> 86400000 \<and> var \<le> 86400000)"

lemma mtu_bounds: "mtu_ok m \<Longrightarrow> 576 \<le> unat m \<and> unat m \<le> 4096"
  by (simp add: mtu_ok_def protocol_limits word_le_nat_alt)

lemma light_alone: "light c \<Longrightarrow> mtu_ok m \<Longrightarrow> alone m c"
  using mtu_bounds [of m] by (simp add: light_def alone_def)

lemma traffic_ok_connected: "traffic_ok (m, e, q, s, t, v) \<Longrightarrow> traffic_ok (m, False, q, s, t, v)"
  by (simp add: traffic_ok_def)

lemma traffic_ok_mtu: "traffic_ok (m, True, q, s, t, v) \<Longrightarrow> mtu_ok m' \<Longrightarrow> traffic_ok (m', e, q, s, t, v)"
  by (simp add: traffic_ok_def light_alone)

lemma traffic_ok_empty: "1 \<le> t \<Longrightarrow> t \<le> 86400000 \<Longrightarrow> v \<le> 86400000 \<Longrightarrow> traffic_ok (m, e, [], [], t, v)"
  by (simp add: traffic_ok_def)

lemma traffic_ok_cleared: "traffic_ok (m, e, q, s, t, v) \<Longrightarrow> traffic_ok (m', e', [], [], t, v)"
  by (simp add: traffic_ok_def)

lemma traffic_ok_subset:
  "traffic_ok (m, e, q, s, t, v) \<Longrightarrow> set q' \<union> set s' \<subseteq> set q \<union> set s \<Longrightarrow> traffic_ok (m, e, q', s', t, v)"
  by (auto simp: traffic_ok_def)

definition peer_ok :: "peer \<Rightarrow> bool" where
  "peer_ok p \<longleftrightarrow> p_channelCount p \<le> length (p_channels p) \<and>
    p_channelCount p \<le> ENET_PROTOCOL_MAXIMUM_CHANNEL_COUNT \<and>
    channels_refs (drop (p_channelCount p) (p_channels p)) = {#} \<and>
    (p_state p = Disconnected \<longrightarrow> p_channelCount p = 0) \<and>
    (idle (p_state p) \<longrightarrow> channels_refs (p_channels p) = {#}) \<and> mtu_ok (p_mtu p) \<and>
    (\<forall>c \<in># incoming_cmds p. command_ok c) \<and>
    (\<forall>c \<in> set (p_outgoingCommands p) \<union> set (p_sentReliableCommands p). outgoing_ok c) \<and>
    traffic_ok (traffic_view p)"

lemma traffic_view_other [simp]:
  "traffic_view (p\<lparr>p_channels := a\<rparr>) = traffic_view p"
  "traffic_view (p\<lparr>p_channelCount := b\<rparr>) = traffic_view p"
  "traffic_view (p\<lparr>p_dispatchedCommands := c\<rparr>) = traffic_view p"
  "traffic_view (p\<lparr>p_flags := d\<rparr>) = traffic_view p"
  "traffic_view (p\<lparr>p_acknowledgements := e\<rparr>) = traffic_view p"
  "traffic_view (p\<lparr>p_sentUnreliableCommands := f\<rparr>) = traffic_view p"
  "traffic_view (p\<lparr>p_totalWaitingData := n\<rparr>) = traffic_view p"
  "traffic_view (upd_channel k g p) = traffic_view p"
  by (simp_all add: traffic_view_def upd_channel_def)

lemmas peer_ok_defs = peer_ok_def incoming_cmds_def traffic_view_def

lemma channel_refs_cmds: "channel_refs ch = image_mset ic_packet (channel_cmds ch)"
  by (simp add: channel_refs_def channel_cmds_def in_refs_def)

text \<open>
  What is set for the whole host: the size of datagrams and packets, whether a decompressor is
  installed, which the invariant excludes, and that no loop was cut short.
\<close>

definition limits :: "host \<Rightarrow> u32 \<times> nat \<times> bool \<times> bool" where
  "limits h = (h_mtu h, h_maximumPacketSize h, cp_context (h_compressor h) \<and> cp_decompress (h_compressor h) \<noteq> None, h_hung h)"

definition limits_ok :: "host \<Rightarrow> bool" where
  "limits_ok h \<longleftrightarrow> (case limits h of (m, n, c, hung) \<Rightarrow> mtu_ok m \<and> n < 2 ^ 32 - 1 \<and> \<not> c \<and> \<not> hung)"

definition memory_safe :: "host \<Rightarrow> bool" where
  "memory_safe h \<longleftrightarrow> refs_ok (h_mem h) (held h) \<and> (\<forall>p \<in> set (h_peers h). peer_ok p) \<and> limits_ok h"

lemma limits_simps [simp]:
  "limits (upd_peer i f h) = limits h" "limits (upd_mem g h) = limits h"
  "limits (h\<lparr>h_mem := m\<rparr>) = limits h" "limits (h\<lparr>h_net := n\<rparr>) = limits h"
  by (simp_all add: limits_def upd_peer_def upd_mem_def)

text \<open>The same, seen from peer \<open>i\<close>, with the references of the other peers as a constant.\<close>

definition safe_at :: "nat \<Rightarrow> host \<Rightarrow> bool" where
  "safe_at i h \<longleftrightarrow> refs_ok (h_mem h) (peer_refs (peer_at h i) + others i h)"

lemma memory_safe_at: "memory_safe h \<Longrightarrow> i < length (h_peers h) \<Longrightarrow> safe_at i h \<and> peer_ok (peer_at h i)"
  by (auto simp: memory_safe_def safe_at_def held_split peer_at_def)

lemma memory_safe_upd:
  assumes s: "memory_safe h" and i: "i < length (h_peers h)"
    and p: "h_peers h' = upd_nth i f (h_peers h)" and l: "limits h' = limits h" and c: "peer_ok (peer_at h' i)"
    and r: "refs_ok (h_mem h') (peer_refs (peer_at h' i) + others i h)"
  shows "memory_safe h'"
proof -
  have o: "others i h' = others i h"
    using i p by (simp add: others_def upd_nth_def)
  have "\<forall>q \<in> set (h_peers h'). peer_ok q"
    using s c i p unfolding memory_safe_def peer_at_def all_set_conv_all_nth
    by (metis length_upd_nth nth_upd_nth_other)
  moreover have "held h' = peer_refs (peer_at h' i) + others i h"
    using i p o held_split [of i h'] by simp
  moreover have "limits_ok h'" using s l by (simp add: memory_safe_def limits_ok_def)
  ultimately show ?thesis using r by (simp add: memory_safe_def)
qed

lemma memory_safe_no_fault: "memory_safe h \<Longrightarrow> \<not> fault (h_mem h)"
  by (auto simp: memory_safe_def dest: refs_ok_no_fault)

lemma memory_safe_cong:
  "h_peers h' = h_peers h \<Longrightarrow> h_mem h' = h_mem h \<Longrightarrow> limits h' = limits h \<Longrightarrow>
    memory_safe h' = memory_safe h"
  by (simp add: memory_safe_def held_def limits_ok_def)

section \<open>What most operations leave alone\<close>

text \<open>
  The part of a host that the accounting of connections and the dispatch queue depend on.
  Operations on queues and packets do not change it.
\<close>

definition peer_view :: "peer \<Rightarrow> peer_state \<times> u32 \<times> u16" where
  "peer_view p = (p_state p, p_incomingBandwidth p, p_flags p)"

definition frame_view :: "host \<Rightarrow> nat \<times> nat \<times> nat list \<times> bool \<times> (peer_state \<times> u32 \<times> u16) list" where
  "frame_view h = (h_connectedPeers h, h_bandwidthLimitedPeers h, h_dispatchQueue h, h_linkFault h,
     map peer_view (h_peers h))"

lemma frame_view_upd_peer: "(\<And>p. peer_view (f p) = peer_view p) \<Longrightarrow> frame_view (upd_peer i f h) = frame_view h"
  by (simp add: frame_view_def map_upd_nth_same)

lemma frame_view_mem [simp, frame_simps]:
  "frame_view (upd_mem f h) = frame_view h" "frame_view (h\<lparr>h_mem := m\<rparr>) = frame_view h"
  "frame_view (h\<lparr>h_net := n\<rparr>) = frame_view h"
  by (simp_all add: frame_view_def)

lemma frame_view_malloc [simp, frame_simps]: "frame_view (snd (host_malloc h)) = frame_view h"
  by (simp add: host_malloc_def split: prod.split)

lemma frame_view_length: "frame_view h' = frame_view h \<Longrightarrow> length (h_peers h') = length (h_peers h)"
  by (auto simp: frame_view_def dest: map_eq_imp_length_eq)

section \<open>Building blocks of the operations\<close>

lemma memory_safe_malloc [simp]: "memory_safe (snd (host_malloc h)) = memory_safe h"
  using refs_ok_malloc [of "h_mem h"]
  by (cases "enet_malloc (h_mem h)") (simp add: host_malloc_def memory_safe_def held_def limits_ok_def)

lemma host_malloc_frame [simp]:
  "h_peers (snd (host_malloc h)) = h_peers h" "peer_at (snd (host_malloc h)) i = peer_at h i"
  "packets (h_mem (snd (host_malloc h))) = packets (h_mem h)"
  "h_net (snd (host_malloc h)) = h_net h"
  using enet_malloc_frame [of "h_mem h"]
  by (cases "enet_malloc (h_mem h)"; simp add: host_malloc_def peer_at_def)+

definition alive :: "host \<Rightarrow> nat option \<Rightarrow> bool" where
  "alive h packet \<longleftrightarrow> (\<forall>p. packet = Some p \<longrightarrow> packets (h_mem h) p \<noteq> None)"

lemma alive_None [simp]: "alive h None"
  by (simp add: alive_def)

text \<open>Queueing a command at a peer: \<open>n\<close> new references to the packet.\<close>

lemma memory_safe_enqueue:
  assumes s: "memory_safe h" and i: "i < length (h_peers h)" and a: "alive h packet"
    and r: "peer_refs (f (peer_at h i)) = replicate_mset n packet + peer_refs (peer_at h i)"
    and c: "peer_ok (peer_at h i) \<Longrightarrow> peer_ok (f (peer_at h i))"
  shows "memory_safe (upd_peer i f (upd_mem (packet_retain n packet) h))"
proof (rule memory_safe_upd [OF s i, of _ f])
  note m = memory_safe_at [OF s i]
  show "h_peers (upd_peer i f (upd_mem (packet_retain n packet) h)) = upd_nth i f (h_peers h)"
    "limits (upd_peer i f (upd_mem (packet_retain n packet) h)) = limits h" by simp_all
  show "peer_ok (peer_at (upd_peer i f (upd_mem (packet_retain n packet) h)) i)" using m c i by simp
  show "refs_ok (h_mem (upd_peer i f (upd_mem (packet_retain n packet) h)))
     (peer_refs (peer_at (upd_peer i f (upd_mem (packet_retain n packet) h)) i) + others i h)"
  proof (cases packet)
    case None
    have "refs_ok m (replicate_mset n None + M) = refs_ok m M" for m M
      by (induction n) simp_all
    then show ?thesis using m i r None by (simp add: safe_at_def packet_retain_def add.assoc)
  next
    case (Some p)
    obtain k where "packets (h_mem h) p = Some k" using a Some by (auto simp: alive_def)
    then show ?thesis using m i r Some refs_ok_retain [of "h_mem h" "peer_refs (peer_at h i) + others i h" p k n]
      by (simp add: safe_at_def add.assoc)
  qed
qed

text \<open>A change that keeps the queues of the peer.\<close>

lemma memory_safe_peer:
  assumes "memory_safe h" "peer_refs (f (peer_at h i)) = peer_refs (peer_at h i)"
    "peer_ok (peer_at h i) \<Longrightarrow> peer_ok (f (peer_at h i))"
  shows "memory_safe (upd_peer i f h)"
proof (cases "i < length (h_peers h)")
  case True
  then show ?thesis
    using memory_safe_at [OF assms(1) True] assms
    by (intro memory_safe_upd [OF assms(1) True, of _ f]) (simp_all add: safe_at_def)
next
  case False
  then show ?thesis using assms(1) by (simp add: memory_safe_def held_def limits_ok_def)
qed

end
