(* ===== verification/Enet_Peer_Send.thy ===== *)
theory Enet_Peer_Send
  imports Enet_Refs
begin

text \<open>
  The sending half of \<open>enet/peer.c\<close>: the throttle, the numbering of outgoing commands,
  \<open>enet_peer_send\<close> with its fragmentation, pings, timeouts and acknowledgements.

  A command is built with its header and body.  Where the code leaves a field of the command
  uninitialised until \<open>enet_peer_setup_outgoing_command\<close> assigns it, the model builds the
  field as zero.
\<close>

section \<open>Numbering and queueing\<close>

fun stamp_body :: "u16 \<Rightarrow> u16 \<Rightarrow> protocol_body \<Rightarrow> protocol_body" where
  "stamp_body unreliable unsequencedGroup (Send_Unreliable _ n) = Send_Unreliable unreliable n"
| "stamp_body unreliable unsequencedGroup (Send_Unsequenced _ n) = Send_Unsequenced unsequencedGroup n"
| "stamp_body _ _ b = b"

definition enet_peer_setup_outgoing_command :: "outgoing_command \<Rightarrow> peer \<Rightarrow> peer" where
  "enet_peer_setup_outgoing_command c p =
    (let hd = pr_header (oc_command c);
         chan = unat (hd_channelID hd);
         p = p\<lparr>p_outgoingDataTotal := p_outgoingDataTotal p
               + of_nat (enet_protocol_command_size (hd_command hd) + unat (oc_fragmentLength c))\<rparr>;
         (p, reliable, unreliable) =
           (if hd_channelID hd = 0xFF
            then let p = p\<lparr>p_outgoingReliableSequenceNumber := p_outgoingReliableSequenceNumber p + 1\<rparr>
                 in (p, p_outgoingReliableSequenceNumber p, 0)
            else if is_acknowledged (oc_command c)
            then let p = upd_channel chan (\<lambda>ch. ch\<lparr>
                       ch_outgoingReliableSequenceNumber := ch_outgoingReliableSequenceNumber ch + 1,
                       ch_outgoingUnreliableSequenceNumber := 0\<rparr>) p
                 in (p, ch_outgoingReliableSequenceNumber (channel_at p chan), 0)
            else if is_unsequenced (oc_command c)
            then (p\<lparr>p_outgoingUnsequencedGroup := p_outgoingUnsequencedGroup p + 1\<rparr>, 0, 0)
            else let p = (if oc_fragmentOffset c = 0
                          then upd_channel chan (\<lambda>ch. ch\<lparr>ch_outgoingUnreliableSequenceNumber :=
                                 ch_outgoingUnreliableSequenceNumber ch + 1\<rparr>) p
                          else p)
                 in (p, ch_outgoingReliableSequenceNumber (channel_at p chan),
                     ch_outgoingUnreliableSequenceNumber (channel_at p chan)));
         c = c\<lparr>oc_reliableSequenceNumber := reliable,
               oc_unreliableSequenceNumber := unreliable,
               oc_sendAttempts := 0, oc_sentTime := 0, oc_roundTripTimeout := 0,
               oc_roundTripTimeoutLimit := 0,
               oc_command := \<lparr>pr_header = hd\<lparr>hd_reliableSequenceNumber := reliable\<rparr>,
                 pr_body = stamp_body unreliable (p_outgoingUnsequencedGroup p)
                             (pr_body (oc_command c))\<rparr>\<rparr>
     in p\<lparr>p_outgoingCommands := p_outgoingCommands p @ [c]\<rparr>)"

definition new_outgoing_command ::
  "protocol \<Rightarrow> nat option \<Rightarrow> u32 \<Rightarrow> u16 \<Rightarrow> outgoing_command" where
  "new_outgoing_command command packet offset n =
    \<lparr>oc_reliableSequenceNumber = 0, oc_unreliableSequenceNumber = 0, oc_sentTime = 0,
     oc_roundTripTimeout = 0, oc_roundTripTimeoutLimit = 0, oc_fragmentOffset = offset,
     oc_fragmentLength = n, oc_sendAttempts = 0, oc_command = command, oc_packet = packet\<rparr>"

definition enet_peer_queue_outgoing_command ::
  "nat \<Rightarrow> protocol \<Rightarrow> nat option \<Rightarrow> u32 \<Rightarrow> u16 \<Rightarrow> host \<Rightarrow> bool \<times> host" where
  "enet_peer_queue_outgoing_command i command packet offset n h =
    (let (ok, h) = host_malloc h in
     if \<not> ok then (False, h)
     else
       let h = upd_mem (packet_retain 1 packet) h
       in (True, upd_peer i
            (enet_peer_setup_outgoing_command (new_outgoing_command command packet offset n)) h))"

text \<open>A command with its header; the sequence number is assigned when it is queued.\<close>

definition command_on :: "u8 \<Rightarrow> u8 \<Rightarrow> protocol_body \<Rightarrow> protocol" where
  "command_on flags channelID body =
    \<lparr>pr_header = \<lparr>hd_command = command_number body OR flags, hd_channelID = channelID,
                  hd_reliableSequenceNumber = 0\<rparr>,
     pr_body = body\<rparr>"

section \<open>Throttle, ping and timeout parameters\<close>

definition enet_peer_throttle_configure :: "nat \<Rightarrow> u32 \<Rightarrow> u32 \<Rightarrow> u32 \<Rightarrow> host \<Rightarrow> host" where
  "enet_peer_throttle_configure i interval acceleration deceleration h =
    (let h = upd_peer i (\<lambda>p. p\<lparr>p_packetThrottleInterval := interval,
               p_packetThrottleAcceleration := acceleration,
               p_packetThrottleDeceleration := deceleration\<rparr>) h
     in snd (enet_peer_queue_outgoing_command i
          (command_on ENET_PROTOCOL_COMMAND_FLAG_ACKNOWLEDGE 0xFF
            (Throttle_Configure interval acceleration deceleration)) None 0 0 h))"

definition enet_peer_throttle :: "u32 \<Rightarrow> peer \<Rightarrow> int \<times> peer" where
  "enet_peer_throttle rtt p =
    (if p_lastRoundTripTime p \<le> p_lastRoundTripTimeVariance p
     then (0, p\<lparr>p_packetThrottle := p_packetThrottleLimit p\<rparr>)
     else if rtt \<le> p_lastRoundTripTime p
     then let p = p\<lparr>p_packetThrottle := p_packetThrottle p + p_packetThrottleAcceleration p\<rparr>
          in (1, if p_packetThrottle p > p_packetThrottleLimit p
                 then p\<lparr>p_packetThrottle := p_packetThrottleLimit p\<rparr> else p)
     else if rtt > p_lastRoundTripTime p + 2 * p_lastRoundTripTimeVariance p
     then (-1, if p_packetThrottle p > p_packetThrottleDeceleration p
               then p\<lparr>p_packetThrottle := p_packetThrottle p - p_packetThrottleDeceleration p\<rparr>
               else p\<lparr>p_packetThrottle := 0\<rparr>)
     else (0, p))"

definition enet_peer_ping :: "nat \<Rightarrow> host \<Rightarrow> host" where
  "enet_peer_ping i h =
    (if p_state (peer_at h i) \<noteq> Connected then h
     else snd (enet_peer_queue_outgoing_command i
            (command_on ENET_PROTOCOL_COMMAND_FLAG_ACKNOWLEDGE 0xFF Ping) None 0 0 h))"

definition enet_peer_ping_interval :: "u32 \<Rightarrow> peer \<Rightarrow> peer" where
  "enet_peer_ping_interval pingInterval p =
    p\<lparr>p_pingInterval := (if pingInterval \<noteq> 0 then pingInterval else ENET_PEER_PING_INTERVAL)\<rparr>"

definition enet_peer_timeout :: "u32 \<Rightarrow> u32 \<Rightarrow> u32 \<Rightarrow> peer \<Rightarrow> peer" where
  "enet_peer_timeout timeoutLimit timeoutMinimum timeoutMaximum p =
    p\<lparr>p_timeoutLimit := (if timeoutLimit \<noteq> 0 then timeoutLimit else ENET_PEER_TIMEOUT_LIMIT),
      p_timeoutMinimum := (if timeoutMinimum \<noteq> 0 then timeoutMinimum else ENET_PEER_TIMEOUT_MINIMUM),
      p_timeoutMaximum := (if timeoutMaximum \<noteq> 0 then timeoutMaximum else ENET_PEER_TIMEOUT_MAXIMUM)\<rparr>"

section \<open>Windows\<close>

text \<open>
  The window of a sequence number, counted on from the window of the channel: the code adds
  \<open>ENET_PEER_RELIABLE_WINDOWS\<close> to a number below the channel's, which has wrapped.
\<close>

definition window_of :: "u16 \<Rightarrow> nat" where
  "window_of n = unat n div ENET_PEER_RELIABLE_WINDOW_SIZE"

definition reliable_window :: "u16 \<Rightarrow> u16 \<Rightarrow> nat" where
  "reliable_window n current =
    (if n < current then window_of n + ENET_PEER_RELIABLE_WINDOWS else window_of n)"

definition enet_peer_queue_acknowledgement ::
  "nat \<Rightarrow> protocol \<Rightarrow> u16 \<Rightarrow> host \<Rightarrow> bool \<times> host" where
  "enet_peer_queue_acknowledgement i command sentTime h =
    (let p = peer_at h i;
         chan = unat (hd_channelID (pr_header command));
         current = ch_incomingReliableSequenceNumber (channel_at p chan);
         reliableWindow = reliable_window (hd_reliableSequenceNumber (pr_header command)) current;
         currentWindow = window_of current
     in if chan < p_channelCount p
           \<and> reliableWindow \<ge> currentWindow + ENET_PEER_FREE_RELIABLE_WINDOWS - 1
           \<and> reliableWindow \<le> currentWindow + ENET_PEER_FREE_RELIABLE_WINDOWS
        then (False, h)
        else
          let (ok, h) = host_malloc h in
          if \<not> ok then (False, h)
          else (True, upd_peer i (\<lambda>p. p\<lparr>
                 p_outgoingDataTotal := p_outgoingDataTotal p + of_nat sizeof_Acknowledge,
                 p_acknowledgements := p_acknowledgements p
                   @ [\<lparr>ac_sentTime = ucast sentTime, ac_command = command\<rparr>]\<rparr>) h))"

section \<open>Sending a packet\<close>

text \<open>
  The loop that cuts a packet into fragments.  \<open>fuel\<close> bounds its rounds: each advances by a
  byte at least, so \<open>dataLength + 1\<close> rounds are enough while the 32-bit offset does not wrap;
  running out of fuel stands for a loop that does not end.
\<close>

fun fragment_loop ::
  "nat \<Rightarrow> (fragment_fields \<Rightarrow> protocol) \<Rightarrow> u16 \<Rightarrow> u32 \<Rightarrow> nat \<Rightarrow> nat \<Rightarrow> nat \<Rightarrow> u32 \<Rightarrow> u32
    \<Rightarrow> outgoing_command list \<Rightarrow> memory \<Rightarrow> (outgoing_command list option \<times> u32 \<times> memory) option" where
  "fragment_loop 0 _ _ _ _ _ _ _ _ _ _ = None"
| "fragment_loop (Suc fuel) mk startSequenceNumber fragmentCount packet dataLength fragmentLength
     fragmentNumber fragmentOffset fragments m =
    (if unat fragmentOffset < dataLength
     then
       let fragmentLength = (if dataLength - unat fragmentOffset < fragmentLength
                             then dataLength - unat fragmentOffset else fragmentLength);
           (ok, m) = enet_malloc m
       in if \<not> ok then Some (None, fragmentNumber, m)
          else
            let fragment = new_outgoing_command
                  (mk \<lparr>fr_startSequenceNumber = startSequenceNumber,
                       fr_dataLength = of_nat fragmentLength,
                       fr_fragmentCount = fragmentCount,
                       fr_fragmentNumber = fragmentNumber,
                       fr_totalLength = of_nat dataLength,
                       fr_fragmentOffset = fragmentOffset\<rparr>)
                  (Some packet) fragmentOffset (of_nat fragmentLength)
            in fragment_loop fuel mk startSequenceNumber fragmentCount packet dataLength fragmentLength
                 (fragmentNumber + 1) (fragmentOffset + of_nat fragmentLength) (fragments @ [fragment]) m
     else Some (Some fragments, fragmentNumber, m))"

declare fragment_loop.simps [simp del]

definition fragment_length :: "host \<Rightarrow> peer \<Rightarrow> nat" where
  "fragment_length h p =
    (let n = sz_sub (sz_sub (unat (p_mtu p)) sizeof_ProtocolHeader) sizeof_SendFragment
     in if h_checksum h \<noteq> None then sz_sub n 4 else n)"

definition packet_flags_of :: "host \<Rightarrow> nat \<Rightarrow> u32" where
  "packet_flags_of h packet =
    (case packets (h_mem h) packet of None \<Rightarrow> 0 | Some k \<Rightarrow> pk_flags k)"

definition send_fragments :: "nat \<Rightarrow> u8 \<Rightarrow> nat \<Rightarrow> nat \<Rightarrow> nat \<Rightarrow> host \<Rightarrow> int \<times> host" where
  "send_fragments i channelID packet dataLength fragmentLength h =
    (let ch = channel_at (peer_at h i) (unat channelID);
         flags = packet_flags_of h packet;
         fragmentCount = of_nat ((dataLength + fragmentLength - 1) div fragmentLength) :: u32
     in if unat fragmentCount > ENET_PROTOCOL_MAXIMUM_FRAGMENT_COUNT then (-1, h)
        else
          let (mk, startSequenceNumber) =
                (if flags AND (ENET_PACKET_FLAG_RELIABLE OR ENET_PACKET_FLAG_UNRELIABLE_FRAGMENT)
                      = ENET_PACKET_FLAG_UNRELIABLE_FRAGMENT
                    \<and> ch_outgoingUnreliableSequenceNumber ch < 0xFFFF
                 then (\<lambda>f. command_on 0 channelID (Send_Unreliable_Fragment f),
                       ch_outgoingUnreliableSequenceNumber ch + 1)
                 else (\<lambda>f. command_on ENET_PROTOCOL_COMMAND_FLAG_ACKNOWLEDGE channelID (Send_Fragment f),
                       ch_outgoingReliableSequenceNumber ch + 1))
          in case fragment_loop (Suc dataLength) mk startSequenceNumber fragmentCount packet dataLength
                    fragmentLength 0 0 [] (h_mem h) of
               None \<Rightarrow> (-1, upd_mem (faulty True) h)
             | Some (None, _, m) \<Rightarrow> (-1, h\<lparr>h_mem := m\<rparr>)
             | Some (Some fragments, fragmentNumber, m) \<Rightarrow>
                 let h = h\<lparr>h_mem := packet_retain (unat fragmentNumber) (Some packet) m\<rparr>
                 in (0, upd_peer i (fold enet_peer_setup_outgoing_command fragments) h))"

definition enet_peer_send :: "nat \<Rightarrow> u8 \<Rightarrow> nat \<Rightarrow> host \<Rightarrow> int \<times> host" where
  "enet_peer_send i channelID packet h =
    (let p = peer_at h i;
         ch = channel_at p (unat channelID);
         dataLength = packet_length (h_mem h) packet;
         flags = packet_flags_of h packet
     in if p_state p \<noteq> Connected \<or> unat channelID \<ge> p_channelCount p
           \<or> dataLength > h_maximumPacketSize h
        then (-1, h)
        else
          let fragmentLength = fragment_length h p in
          if dataLength > fragmentLength
          then send_fragments i channelID packet dataLength fragmentLength h
          else
            let command =
              (if flags AND (ENET_PACKET_FLAG_RELIABLE OR ENET_PACKET_FLAG_UNSEQUENCED)
                    = ENET_PACKET_FLAG_UNSEQUENCED
               then command_on ENET_PROTOCOL_COMMAND_FLAG_UNSEQUENCED channelID
                      (Send_Unsequenced 0 (of_nat dataLength))
               else if flags AND ENET_PACKET_FLAG_RELIABLE \<noteq> 0
                       \<or> ch_outgoingUnreliableSequenceNumber ch \<ge> 0xFFFF
               then command_on ENET_PROTOCOL_COMMAND_FLAG_ACKNOWLEDGE channelID
                      (Send_Reliable (of_nat dataLength))
               else command_on 0 channelID (Send_Unreliable 0 (of_nat dataLength)));
                (ok, h) = enet_peer_queue_outgoing_command i command (Some packet) 0
                            (of_nat dataLength) h
            in (if ok then 0 else -1, h))"

section \<open>What queueing a command does\<close>

lemma upd_channel_frame [simp]:
  "p_state (upd_channel c f p) = p_state p" "p_channelCount (upd_channel c f p) = p_channelCount p"
  "p_outgoingCommands (upd_channel c f p) = p_outgoingCommands p"
  "p_sentReliableCommands (upd_channel c f p) = p_sentReliableCommands p"
  "p_sentUnreliableCommands (upd_channel c f p) = p_sentUnreliableCommands p"
  "p_dispatchedCommands (upd_channel c f p) = p_dispatchedCommands p"
  "p_outgoingReliableSequenceNumber (upd_channel c f p) = p_outgoingReliableSequenceNumber p"
  "p_outgoingUnsequencedGroup (upd_channel c f p) = p_outgoingUnsequencedGroup p"
  "p_outgoingDataTotal (upd_channel c f p) = p_outgoingDataTotal p"
  "p_flags (upd_channel c f p) = p_flags p"
  "p_incomingBandwidth (upd_channel c f p) = p_incomingBandwidth p"
  "p_totalWaitingData (upd_channel c f p) = p_totalWaitingData p"
  "p_mtu (upd_channel c f p) = p_mtu p"
  "p_roundTripTime (upd_channel c f p) = p_roundTripTime p"
  "p_roundTripTimeVariance (upd_channel c f p) = p_roundTripTimeVariance p"
  "p_channels (upd_channel c f p) = upd_nth c f (p_channels p)"
  by (simp_all add: upd_channel_def)

text \<open>The numbers a command gets, and the channel counters after it.\<close>

definition on_channel :: "outgoing_command \<Rightarrow> bool" where
  "on_channel c \<longleftrightarrow> hd_channelID (pr_header (oc_command c)) \<noteq> 0xFF"

lemma setup_frame [simp]:
  "p_state (enet_peer_setup_outgoing_command c p) = p_state p"
  "p_channelCount (enet_peer_setup_outgoing_command c p) = p_channelCount p"
  "p_sentReliableCommands (enet_peer_setup_outgoing_command c p) = p_sentReliableCommands p"
  "p_sentUnreliableCommands (enet_peer_setup_outgoing_command c p) = p_sentUnreliableCommands p"
  "p_dispatchedCommands (enet_peer_setup_outgoing_command c p) = p_dispatchedCommands p"
  "p_flags (enet_peer_setup_outgoing_command c p) = p_flags p"
  "p_incomingBandwidth (enet_peer_setup_outgoing_command c p) = p_incomingBandwidth p"
  "p_totalWaitingData (enet_peer_setup_outgoing_command c p) = p_totalWaitingData p"
  "p_mtu (enet_peer_setup_outgoing_command c p) = p_mtu p"
  "length (p_channels (enet_peer_setup_outgoing_command c p)) = length (p_channels p)"
  by (simp_all add: enet_peer_setup_outgoing_command_def Let_def)

lemma setup_channels_refs:
  "map channel_refs (p_channels (enet_peer_setup_outgoing_command c p)) = map channel_refs (p_channels p)"
  by (simp add: enet_peer_setup_outgoing_command_def Let_def map_upd_nth_same channel_refs_def)

lemma setup_appends:
  "\<exists>c'. p_outgoingCommands (enet_peer_setup_outgoing_command c p) = p_outgoingCommands p @ [c']
    \<and> oc_packet c' = oc_packet c \<and> oc_fragmentOffset c' = oc_fragmentOffset c
    \<and> oc_fragmentLength c' = oc_fragmentLength c"
  by (simp add: enet_peer_setup_outgoing_command_def Let_def)

lemma setup_refs [heap_simps]:
  "peer_refs (enet_peer_setup_outgoing_command c p) = add_mset (oc_packet c) (peer_refs p)"
proof -
  obtain c' where "p_outgoingCommands (enet_peer_setup_outgoing_command c p) = p_outgoingCommands p @ [c']"
    "oc_packet c' = oc_packet c" using setup_appends by blast
  then show ?thesis by (simp add: peer_refs_def channels_refs_def setup_channels_refs)
qed

text \<open>When a command may be queued: see \<open>outgoing_ok\<close>.\<close>

definition new_number_ok :: "outgoing_command \<Rightarrow> peer \<Rightarrow> bool" where
  "new_number_ok c p \<longleftrightarrow> (let chan = hd_channelID (pr_header (oc_command c)) in
     case oc_packet c of
       None \<Rightarrow> chan = 0xFF
     | Some _ \<Rightarrow> command_acknowledged c \<or>
         (chan \<noteq> 0xFF \<and> \<not> is_unsequenced (oc_command c) \<and> unat chan < length (p_channels p) \<and>
          (if oc_fragmentOffset c = 0
           then ch_outgoingUnreliableSequenceNumber (channel_at p (unat chan)) < 0xFFFF
           else ch_outgoingUnreliableSequenceNumber (channel_at p (unat chan)) \<noteq> 0)))"

definition new_outgoing_ok :: "outgoing_command \<Rightarrow> peer \<Rightarrow> bool" where
  "new_outgoing_ok c p \<longleftrightarrow> new_number_ok c p \<and> alone (p_mtu p) c \<and> (idle (p_state p) \<longrightarrow> light c)"

lemma setup_channels_cmds:
  "map channel_cmds (p_channels (enet_peer_setup_outgoing_command c p)) = map channel_cmds (p_channels p)"
  by (simp add: enet_peer_setup_outgoing_command_def Let_def map_upd_nth_same channel_cmds_def)

lemma next_nonzero: "(w :: u16) < 0xFFFF \<Longrightarrow> w + 1 \<noteq> 0"
proof
  assume l: "w < 0xFFFF" and "w + 1 = 0"
  then have "w = - 1" by (simp add: eq_neg_iff_add_eq_0)
  then show False using l by simp
qed

lemma setup_outgoing_ok:
  assumes n: "new_number_ok c p"
  obtains c' where "p_outgoingCommands (enet_peer_setup_outgoing_command c p) = p_outgoingCommands p @ [c']"
    "outgoing_ok c'" "size_of c' = size_of c" "oc_fragmentLength c' = oc_fragmentLength c"
proof -
  let ?c = "last (p_outgoingCommands (enet_peer_setup_outgoing_command c p))"
  have "p_outgoingCommands (enet_peer_setup_outgoing_command c p) = p_outgoingCommands p @ [?c]"
    using setup_appends [of c p] by auto
  moreover have "outgoing_ok ?c"
    using n next_nonzero
    by (auto simp: enet_peer_setup_outgoing_command_def Let_def outgoing_ok_def new_number_ok_def
        command_acknowledged_def is_acknowledged_def channel_at_def split: option.splits if_splits)
  moreover have "size_of ?c = size_of c" "oc_fragmentLength ?c = oc_fragmentLength c"
    by (simp_all add: enet_peer_setup_outgoing_command_def Let_def size_of_def kind_of_def)
  ultimately show ?thesis using that by blast
qed

lemma setup_round_trip [simp]:
  "p_roundTripTime (enet_peer_setup_outgoing_command c p) = p_roundTripTime p"
  "p_roundTripTimeVariance (enet_peer_setup_outgoing_command c p) = p_roundTripTimeVariance p"
  by (simp_all add: enet_peer_setup_outgoing_command_def Let_def upd_channel_def)

lemma setup_peer_ok:
  "peer_ok p \<Longrightarrow> new_outgoing_ok c p \<Longrightarrow> peer_ok (enet_peer_setup_outgoing_command c p)"
proof -
  assume p: "peer_ok p" and n: "new_outgoing_ok c p"
  then obtain c' where c: "p_outgoingCommands (enet_peer_setup_outgoing_command c p) = p_outgoingCommands p @ [c']"
    "outgoing_ok c'" "size_of c' = size_of c" "oc_fragmentLength c' = oc_fragmentLength c"
    using setup_outgoing_ok unfolding new_outgoing_ok_def by metis
  then have "traffic_ok (traffic_view (enet_peer_setup_outgoing_command c p))"
    using p n by (auto simp: peer_ok_def new_outgoing_ok_def traffic_view_def traffic_ok_def alone_def light_def)
  then show ?thesis using p c
    by (simp add: peer_ok_def incoming_cmds_def channels_refs_def setup_channels_refs setup_channels_cmds drop_map [symmetric])
qed

lemma fold_setup_refs [heap_simps]:
  "peer_refs (fold enet_peer_setup_outgoing_command cs p) = out_refs cs + peer_refs p"
  by (induction cs arbitrary: p) (simp_all add: heap_simps)

text \<open>The fragments of a packet: only the first takes a new unreliable number.\<close>

lemma setup_unreliable_number:
  assumes "\<not> command_acknowledged c" "new_number_ok c p" "oc_packet c \<noteq> None"
  defines "chan \<equiv> unat (hd_channelID (pr_header (oc_command c)))"
  shows "ch_outgoingUnreliableSequenceNumber (channel_at (enet_peer_setup_outgoing_command c p) chan) \<noteq> 0"
  using assms next_nonzero
  by (auto simp: enet_peer_setup_outgoing_command_def Let_def new_number_ok_def command_acknowledged_def
      channel_at_def split: option.splits if_splits)

lemma fold_setup_peer_ok:
  assumes "peer_ok p" "\<forall>c \<in> set cs. oc_packet c \<noteq> None"
    "\<not> idle (p_state p) \<and> (\<forall>c \<in> set cs. alone (p_mtu p) c)"
    "(\<forall>c \<in> set cs. command_acknowledged c) \<or>
     unat chan < length (p_channels p) \<and> chan \<noteq> 0xFF \<and>
     (\<forall>c \<in> set cs. \<not> command_acknowledged c \<and> hd_channelID (pr_header (oc_command c)) = chan
        \<and> \<not> is_unsequenced (oc_command c)) \<and>
     (\<forall>c \<in> set (tl cs). oc_fragmentOffset c \<noteq> 0) \<and>
     (cs \<noteq> [] \<longrightarrow> (if oc_fragmentOffset (hd cs) = 0
        then ch_outgoingUnreliableSequenceNumber (channel_at p (unat chan)) < 0xFFFF
        else ch_outgoingUnreliableSequenceNumber (channel_at p (unat chan)) \<noteq> 0))"
  shows "peer_ok (fold enet_peer_setup_outgoing_command cs p)"
  using assms
proof (induction cs arbitrary: p)
  case (Cons c cs)
  have n: "new_number_ok c p"
    using Cons.prems by (auto simp: new_number_ok_def Let_def split: option.splits)
  have "new_outgoing_ok c p" using n Cons.prems(3) by (simp add: new_outgoing_ok_def)
  then have "peer_ok (enet_peer_setup_outgoing_command c p)" using setup_peer_ok Cons.prems(1) by blast
  moreover have "cs \<noteq> [] \<Longrightarrow> oc_fragmentOffset (hd cs) \<noteq> 0" if "\<forall>c \<in> set (tl (c # cs)). oc_fragmentOffset c \<noteq> 0"
    using that by simp
  moreover have "\<forall>c \<in> set (tl cs). oc_fragmentOffset c \<noteq> 0" if "\<forall>c \<in> set (tl (c # cs)). oc_fragmentOffset c \<noteq> 0"
    using that by (cases cs) auto
  ultimately show ?case
    using Cons.IH [of "enet_peer_setup_outgoing_command c p"] Cons.prems(2-4) setup_unreliable_number [OF _ n]
    by auto
qed simp

section \<open>Sequence numbers\<close>

text \<open>
  The counter from which the reliable commands of a channel are numbered; channel \<open>0xFF\<close> is
  the peer itself, whose commands all draw from its own counter.
\<close>

definition counter :: "nat \<Rightarrow> peer \<Rightarrow> u16" where
  "counter chan p = (if chan = 255 then p_outgoingReliableSequenceNumber p
     else ch_outgoingReliableSequenceNumber (channel_at p chan))"

definition sequenced_on :: "nat \<Rightarrow> outgoing_command \<Rightarrow> bool" where
  "sequenced_on chan c \<longleftrightarrow> command_channel c = chan \<and> (chan = 255 \<or> command_acknowledged c)"

lemma channel_255: "hd_channelID h = 0xFF \<longleftrightarrow> unat (hd_channelID h) = 255"
  by (simp add: unsigned_eq_0_iff word_unat_eq_iff)

lemma setup_numbers:
  assumes "chan = 255 \<or> chan < length (p_channels p)"
  obtains c' where
    "p_outgoingCommands (enet_peer_setup_outgoing_command c p) = p_outgoingCommands p @ [c']"
    "sequenced_on chan c' = sequenced_on chan c"
    "hd_reliableSequenceNumber (pr_header (oc_command c')) = oc_reliableSequenceNumber c'"
    "sequenced_on chan c \<Longrightarrow> oc_reliableSequenceNumber c' = counter chan p + 1"
    "counter chan (enet_peer_setup_outgoing_command c p)
       = (if sequenced_on chan c then counter chan p + 1 else counter chan p)"
proof -
  let ?q = "enet_peer_setup_outgoing_command c p"
  let ?c = "last (p_outgoingCommands ?q)"
  have app: "p_outgoingCommands ?q = p_outgoingCommands p @ [?c]"
    using setup_appends [of c p] by auto
  have "sequenced_on chan ?c = sequenced_on chan c"
    "hd_reliableSequenceNumber (pr_header (oc_command ?c)) = oc_reliableSequenceNumber ?c"
    by (simp_all add: enet_peer_setup_outgoing_command_def Let_def sequenced_on_def command_channel_def
        command_acknowledged_def is_acknowledged_def)
  moreover have "sequenced_on chan c \<Longrightarrow> oc_reliableSequenceNumber ?c = counter chan p + 1"
    using assms
    by (auto simp: enet_peer_setup_outgoing_command_def Let_def sequenced_on_def command_channel_def
        command_acknowledged_def counter_def channel_255 channel_at_def)
  moreover have "counter chan ?q = (if sequenced_on chan c then counter chan p + 1 else counter chan p)"
  proof (cases "hd_channelID (pr_header (oc_command c)) = 0xFF")
    case True
    then show ?thesis
      by (auto simp: enet_peer_setup_outgoing_command_def Let_def sequenced_on_def command_channel_def
          counter_def channel_255 channel_at_def)
  next
    case False
    then show ?thesis using assms
      by (cases "unat (hd_channelID (pr_header (oc_command c))) = chan")
        (auto simp: enet_peer_setup_outgoing_command_def Let_def sequenced_on_def command_channel_def
          command_acknowledged_def counter_def channel_255 channel_at_def)
  qed
  ultimately show ?thesis using app that by blast
qed

text \<open>
  C22: Commands queued one after another keep their order, and the reliable ones of a channel
  (all of them, on the control channel) get consecutive sequence numbers from the channel's
  counter on, modulo \<open>2^16\<close>; each carries its number on the wire.
\<close>

theorem reliable_numbers_consecutive:
  assumes "chan = 255 \<or> chan < length (p_channels p)"
  shows "\<exists>new. p_outgoingCommands (fold enet_peer_setup_outgoing_command cs p) = p_outgoingCommands p @ new
    \<and> length new = length cs
    \<and> map oc_reliableSequenceNumber (filter (sequenced_on chan) new)
        = map (\<lambda>k. counter chan p + of_nat (Suc k)) [0..<length (filter (sequenced_on chan) cs)]
    \<and> (\<forall>c \<in> set new. hd_reliableSequenceNumber (pr_header (oc_command c)) = oc_reliableSequenceNumber c)"
  using assms
proof (induction cs arbitrary: p)
  case Nil
  show ?case by simp
next
  case (Cons c cs)
  let ?q = "enet_peer_setup_outgoing_command c p"
  obtain c' where c': "p_outgoingCommands ?q = p_outgoingCommands p @ [c']"
    "sequenced_on chan c' = sequenced_on chan c"
    "hd_reliableSequenceNumber (pr_header (oc_command c')) = oc_reliableSequenceNumber c'"
    "sequenced_on chan c \<Longrightarrow> oc_reliableSequenceNumber c' = counter chan p + 1"
    "counter chan ?q = (if sequenced_on chan c then counter chan p + 1 else counter chan p)"
    using setup_numbers [OF Cons.prems] by metis
  obtain new where new: "p_outgoingCommands (fold enet_peer_setup_outgoing_command cs ?q)
      = p_outgoingCommands ?q @ new" "length new = length cs"
    "map oc_reliableSequenceNumber (filter (sequenced_on chan) new)
      = map (\<lambda>k. counter chan ?q + of_nat (Suc k)) [0..<length (filter (sequenced_on chan) cs)]"
    "\<forall>c \<in> set new. hd_reliableSequenceNumber (pr_header (oc_command c)) = oc_reliableSequenceNumber c"
    using Cons.IH [of ?q] Cons.prems by auto
  have "map oc_reliableSequenceNumber (filter (sequenced_on chan) (c' # new))
      = map (\<lambda>k. counter chan p + of_nat (Suc k)) [0..<length (filter (sequenced_on chan) (c # cs))]"
    using new(3) c'(2,4,5) by (simp add: map_upt_Suc ac_simps del: upt_Suc)
  then show ?case using new c' by (intro exI [of _ "c' # new"]) simp
qed

theorem reliable_numbers_consecutive_witness:
  "\<exists>new. p_outgoingCommands (fold enet_peer_setup_outgoing_command
       (replicate 2 (new_outgoing_command (command_on 0x80 0xFF Ping) None 0 0)) zero_peer) = new
     \<and> map oc_reliableSequenceNumber (filter (sequenced_on 255) new) = [1, 2]"
proof -
  let ?cs = "replicate 2 (new_outgoing_command (command_on 0x80 0xFF Ping) None 0 0)"
  have "counter 255 zero_peer = 0" "p_outgoingCommands zero_peer = []"
    by (simp_all add: counter_def zero_peer_def)
  moreover have "filter (sequenced_on 255) ?cs = ?cs"
    by (simp add: sequenced_on_def command_channel_def new_outgoing_command_def command_on_def)
  moreover have "[0..<2] = [0, 1 :: nat]" by (simp add: upt_rec)
  ultimately show ?thesis
    using reliable_numbers_consecutive [of 255 zero_peer ?cs] by auto
qed

section \<open>The throttle\<close>

text \<open>
  C23: The throttle never leaves its limit, whatever round trip times are measured and however
  large the configured steps are; it goes down when the code reports -1, and up when it
  reports 1 unless the step wraps around.
\<close>

theorem throttle_bounded:
  "p_packetThrottle p \<le> p_packetThrottleLimit p \<Longrightarrow>
    (case enet_peer_throttle rtt p of (r, q) \<Rightarrow>
      p_packetThrottle q \<le> p_packetThrottleLimit q \<and> p_packetThrottleLimit q = p_packetThrottleLimit p \<and>
      (r = -1 \<longrightarrow> p_packetThrottle q \<le> p_packetThrottle p) \<and>
      (r = 1 \<and> unat (p_packetThrottle p) + unat (p_packetThrottleAcceleration p) < 2 ^ 32 \<longrightarrow>
         p_packetThrottle p \<le> p_packetThrottle q))"
proof -
  assume le: "p_packetThrottle p \<le> p_packetThrottleLimit p"
  have "p_packetThrottle p > d \<Longrightarrow> p_packetThrottle p - d \<le> p_packetThrottle p" for d
    by (simp add: word_le_nat_alt word_less_nat_alt unat_sub)
  moreover have "unat (p_packetThrottle p) + unat a < 2 ^ 32 \<Longrightarrow> p_packetThrottle p \<le> p_packetThrottle p + a"
    for a by (simp add: word_le_nat_alt unat_word_ariths)
  ultimately show ?thesis
    using le by (auto simp: enet_peer_throttle_def Let_def intro: order_trans)
qed

theorem throttle_bounded_witness:
  "p_packetThrottle (snd (enet_peer_throttle 10
     (zero_peer\<lparr>p_packetThrottle := 5, p_packetThrottleLimit := 32, p_lastRoundTripTime := 20,
                p_packetThrottleAcceleration := 2\<rparr>))) \<le> 32"
  using throttle_bounded [of "zero_peer\<lparr>p_packetThrottle := 5, p_packetThrottleLimit := 32,
      p_lastRoundTripTime := 20, p_packetThrottleAcceleration := 2\<rparr>" 10]
  by (auto split: prod.splits)

section \<open>Fragmentation\<close>

definition fragment_at ::
  "(fragment_fields \<Rightarrow> protocol) \<Rightarrow> u16 \<Rightarrow> nat \<Rightarrow> nat \<Rightarrow> nat \<Rightarrow> nat \<Rightarrow> nat \<Rightarrow> outgoing_command" where
  "fragment_at mk start n packet dl fl k = new_outgoing_command
     (mk \<lparr>fr_startSequenceNumber = start, fr_dataLength = of_nat (min fl (dl - k * fl)),
          fr_fragmentCount = of_nat n, fr_fragmentNumber = of_nat k, fr_totalLength = of_nat dl,
          fr_fragmentOffset = of_nat (k * fl)\<rparr>)
     (Some packet) (of_nat (k * fl)) (of_nat (min fl (dl - k * fl)))"

lemma last_fragment:
  fixes dl fl k :: nat
  assumes "0 < fl" "fl < dl"
  shows "((dl + fl - 1) div fl - 1) * fl < dl" "dl \<le> (dl + fl - 1) div fl * fl"
    "k < (dl + fl - 1) div fl \<Longrightarrow> k * fl < dl"
proof -
  have eq: "(dl + fl - 1) div fl = Suc ((dl - 1) div fl)"
    using assms div_add_self2 [of fl "dl - 1"] by simp
  have m: "(dl - 1) div fl * fl + (dl - 1) mod fl = dl - 1" "(dl - 1) mod fl < fl"
    using assms by simp_all
  show "((dl + fl - 1) div fl - 1) * fl < dl"
    using div_times_less_eq_dividend [of "dl - 1" fl] assms unfolding eq diff_Suc_1 by linarith
  then show "k < (dl + fl - 1) div fl \<Longrightarrow> k * fl < dl"
    using mult_le_mono1 [of k "(dl + fl - 1) div fl - 1" fl] by linarith
  show "dl \<le> (dl + fl - 1) div fl * fl"
    using m assms unfolding eq mult_Suc by linarith
qed

lemma fragment_loop_stop:
  "dl \<le> unat o' \<Longrightarrow> fragment_loop (Suc f) mk start cnt packet dl fl j o' acc m = Some (Some acc, j, m)"
  by (simp add: fragment_loop.simps)

lemma fragment_loop_next:
  assumes "k * fl < dl" "dl < 2 ^ 32" "mallocs m = []"
  shows "fragment_loop (Suc f) mk start (of_nat n) packet dl fl (of_nat k) (of_nat (k * fl)) acc m
    = fragment_loop f mk start (of_nat n) packet dl (min fl (dl - k * fl)) (of_nat (Suc k))
        (of_nat (k * fl + min fl (dl - k * fl))) (acc @ [fragment_at mk start n packet dl fl k]) m"
proof -
  have u: "unat (of_nat (k * fl) :: u32) = k * fl" using assms by (subst unat_of_nat_id) simp_all
  have "enet_malloc m = (True, m)" by (simp add: enet_malloc_def assms(3))
  moreover have "(if dl - k * fl < fl then dl - k * fl else fl) = min fl (dl - k * fl)" by simp
  moreover have "of_nat k + 1 = (of_nat (Suc k) :: u32)" by simp
  ultimately show ?thesis
    using assms(1) u
    by (simp only: fragment_loop.simps Let_def prod.case simp_thms if_True if_False of_nat_add fragment_at_def)
qed

lemma fragment_loop_runs:
  assumes fl: "0 < fl" "fl < dl" and dl: "dl < 2 ^ 32" and n: "n = (dl + fl - 1) div fl"
    and m: "mallocs m = []"
  shows "k < n \<Longrightarrow> n - k < fuel \<Longrightarrow>
    fragment_loop fuel mk start (of_nat n) packet dl fl (of_nat k) (of_nat (k * fl)) acc m
    = Some (Some (acc @ map (fragment_at mk start n packet dl fl) [k..<n]), of_nat n, m)"
proof (induction "n - k" arbitrary: k fuel acc)
  case 0
  then show ?case by simp
next
  case (Suc d)
  obtain fuel' where fuel: "fuel = Suc fuel'" using Suc.prems by (cases fuel) auto
  note lf = last_fragment [OF fl, folded n]
  note step = fragment_loop_next [OF lf(3) [OF Suc.prems(1)] dl m]
  have up: "[k..<n] = k # [Suc k..<n]" using Suc.prems(1) by (simp add: upt_conv_Cons)
  show ?case
  proof (cases "Suc k = n")
    case True
    obtain fuel2 where fuel2: "fuel' = Suc fuel2" using Suc.prems True fuel by (cases fuel') auto
    have "k * fl + min fl (dl - k * fl) = dl"
      using lf(2) lf(3) [OF Suc.prems(1)] True by auto
    moreover have "unat (of_nat dl :: u32) = dl" using dl by (subst unat_of_nat_id) simp_all
    ultimately show ?thesis
      unfolding fuel fuel2 step by (subst fragment_loop_stop) (simp_all add: up True)
  next
    case False
    then have sk: "Suc k < n" using Suc.prems by simp
    have r: "min fl (dl - k * fl) = fl" using lf(3) [OF sk] by simp
    have e: "k * fl + fl = Suc k * fl" by simp
    show ?thesis
      unfolding fuel step r e
      by (subst Suc.hyps(1)) (use Suc sk fuel in \<open>auto simp: up\<close>)
  qed
qed

lemma fragments_sum: "(\<Sum>j<k. min fl (dl - j * fl)) = min dl (k * fl)" for dl fl k :: nat
  by (induction k) auto

definition fragment_fields_of :: "outgoing_command \<Rightarrow> fragment_fields option" where
  "fragment_fields_of c = (case pr_body (oc_command c) of
      Send_Fragment f \<Rightarrow> Some f | Send_Unreliable_Fragment f \<Rightarrow> Some f | _ \<Rightarrow> None)"

definition same_fragment :: "outgoing_command \<Rightarrow> outgoing_command \<Rightarrow> bool" where
  "same_fragment c d \<longleftrightarrow> oc_packet d = oc_packet c \<and> oc_fragmentOffset d = oc_fragmentOffset c
    \<and> oc_fragmentLength d = oc_fragmentLength c \<and> fragment_fields_of d = fragment_fields_of c"

lemma fragment_fields_stamp:
  "(case stamp_body u g b of Send_Fragment f \<Rightarrow> Some f | Send_Unreliable_Fragment f \<Rightarrow> Some f | _ \<Rightarrow> None)
    = (case b of Send_Fragment f \<Rightarrow> Some f | Send_Unreliable_Fragment f \<Rightarrow> Some f | _ \<Rightarrow> None)"
  by (cases b) simp_all

lemma setup_same_fragment:
  "\<exists>d. p_outgoingCommands (enet_peer_setup_outgoing_command c p) = p_outgoingCommands p @ [d]
    \<and> same_fragment c d"
  by (simp add: enet_peer_setup_outgoing_command_def Let_def same_fragment_def fragment_fields_of_def
      fragment_fields_stamp)

lemma fold_setup_same_fragments:
  "\<exists>new. p_outgoingCommands (fold enet_peer_setup_outgoing_command cs p) = p_outgoingCommands p @ new
    \<and> list_all2 same_fragment cs new"
proof (induction cs arbitrary: p)
  case Nil
  show ?case by simp
next
  case (Cons c cs)
  obtain d where "p_outgoingCommands (enet_peer_setup_outgoing_command c p) = p_outgoingCommands p @ [d]"
    "same_fragment c d" using setup_same_fragment by blast
  moreover obtain new where "p_outgoingCommands (fold enet_peer_setup_outgoing_command cs
      (enet_peer_setup_outgoing_command c p)) = p_outgoingCommands (enet_peer_setup_outgoing_command c p) @ new"
    "list_all2 same_fragment cs new" using Cons by blast
  ultimately show ?case by (intro exI [of _ "d # new"]) simp
qed

lemma fragment_length_bounds:
  assumes "ENET_PROTOCOL_MINIMUM_MTU \<le> p_mtu p" "p_mtu p \<le> ENET_PROTOCOL_MAXIMUM_MTU"
  shows "0 < fragment_length h p" "fragment_length h p < 2 ^ 16"
proof -
  have m: "576 \<le> unat (p_mtu p)" "unat (p_mtu p) \<le> 4096"
    using assms by (simp_all add: protocol_limits word_le_nat_alt)
  then show "0 < fragment_length h p" "fragment_length h p < 2 ^ 16"
    by (auto simp: fragment_length_def Let_def sizeofs size_max_def)
qed

lemma fragment_length_room: "mtu_ok (p_mtu p) \<Longrightarrow> 28 + fragment_length h p \<le> unat (p_mtu p)"
  using mtu_bounds [of "p_mtu p"] by (auto simp: fragment_length_def Let_def sizeofs size_max_def)

lemma fragment_at_fields:
  assumes "mk = (\<lambda>f. command_on b chan (Send_Fragment f)) \<or> mk = (\<lambda>f. command_on b chan (Send_Unreliable_Fragment f))"
  shows "fragment_fields_of (fragment_at mk start n packet dl fl j)
      = Some \<lparr>fr_startSequenceNumber = start, fr_dataLength = of_nat (min fl (dl - j * fl)),
          fr_fragmentCount = of_nat n, fr_fragmentNumber = of_nat j, fr_totalLength = of_nat dl,
          fr_fragmentOffset = of_nat (j * fl)\<rparr>"
  using assms
  by (auto simp: fragment_fields_of_def fragment_at_def new_outgoing_command_def command_on_def)

lemma fragment_at_range [simp]:
  "oc_packet (fragment_at mk start n packet dl fl j) = Some packet"
  "oc_fragmentOffset (fragment_at mk start n packet dl fl j) = of_nat (j * fl)"
  "oc_fragmentLength (fragment_at mk start n packet dl fl j) = of_nat (min fl (dl - j * fl))"
  by (simp_all add: fragment_at_def new_outgoing_command_def)

text \<open>What \<open>send_fragments\<close> does when it does not run out of memory.\<close>

lemma send_fragments_runs:
  assumes i: "i < length (h_peers h)" and m: "mallocs (h_mem h) = []"
    and fl: "0 < fl" "fl < dl" "dl < 2 ^ 32"
    and n: "n = (dl + fl - 1) div fl" "n \<le> ENET_PROTOCOL_MAXIMUM_FRAGMENT_COUNT"
  obtains mk start b where
    "mk = (\<lambda>f. command_on b chan (Send_Fragment f)) \<or> mk = (\<lambda>f. command_on b chan (Send_Unreliable_Fragment f))"
    "send_fragments i chan packet dl fl h = (0, upd_peer i (fold enet_peer_setup_outgoing_command
        (map (fragment_at mk start n packet dl fl) [0..<n])) (upd_mem (packet_retain n (Some packet)) h))"
proof -
  let ?ch = "channel_at (peer_at h i) (unat chan)"
  let ?U = "packet_flags_of h packet AND (ENET_PACKET_FLAG_RELIABLE OR ENET_PACKET_FLAG_UNRELIABLE_FRAGMENT)
      = ENET_PACKET_FLAG_UNRELIABLE_FRAGMENT \<and> ch_outgoingUnreliableSequenceNumber ?ch < 0xFFFF"
  let ?b = "if ?U then 0 else ENET_PROTOCOL_COMMAND_FLAG_ACKNOWLEDGE"
  let ?mk = "if ?U then (\<lambda>f. command_on 0 chan (Send_Unreliable_Fragment f))
     else (\<lambda>f. command_on ENET_PROTOCOL_COMMAND_FLAG_ACKNOWLEDGE chan (Send_Fragment f))"
  let ?start = "if ?U then ch_outgoingUnreliableSequenceNumber ?ch + 1
     else ch_outgoingReliableSequenceNumber ?ch + 1"
  have n0: "0 < n" using fl by (simp add: n div_greater_zero_iff)
  have "n - 1 \<le> (n - 1) * fl" using fl by simp
  then have nl: "n \<le> dl" using last_fragment(1) [OF fl(1,2)] unfolding n(1) [symmetric] by linarith
  have un: "unat (of_nat n :: u32) = n"
    using n(2) by (subst unat_of_nat_id) (simp_all add: protocol_limits)
  have run: "fragment_loop (Suc dl) mk start (of_nat n) packet dl fl 0 0 [] (h_mem h)
      = Some (Some (map (fragment_at mk start n packet dl fl) [0..<n]), of_nat n, h_mem h)" for mk start
    using fragment_loop_runs [OF fl n(1) m n0, of "Suc dl" mk start packet "[]"] nl by simp
  have "send_fragments i chan packet dl fl h = (0, upd_peer i (fold enet_peer_setup_outgoing_command
      (map (fragment_at ?mk ?start n packet dl fl) [0..<n])) (upd_mem (packet_retain n (Some packet)) h))"
    unfolding send_fragments_def Let_def n(1) [symmetric] un
    using n(2) by (simp add: run un upd_mem_def)
  then show ?thesis by (intro that [of ?mk ?b]) simp_all
qed

text \<open>
  C9: A packet too long for one datagram is cut into fragments that cover it exactly: fragment
  \<open>j\<close> starts at byte \<open>j * fragmentLength\<close>, each is full except the last, each carries its
  number, its offset, the number of fragments and the total length, and every fragment holds
  one reference to the packet.
\<close>

theorem enet_peer_send_fragments:
  assumes i: "i < length (h_peers h)" and p: "p_state (peer_at h i) = Connected"
    "unat chan < p_channelCount (peer_at h i)"
    "ENET_PROTOCOL_MINIMUM_MTU \<le> p_mtu (peer_at h i)" "p_mtu (peer_at h i) \<le> ENET_PROTOCOL_MAXIMUM_MTU"
    and k: "packets (h_mem h) packet = Some k" "pk_dataLength k \<le> h_maximumPacketSize h"
      "pk_dataLength k < 2 ^ 32"
    and fl: "fl = fragment_length h (peer_at h i)" "fl < pk_dataLength k"
    and n: "n = (pk_dataLength k + fl - 1) div fl" "n \<le> ENET_PROTOCOL_MAXIMUM_FRAGMENT_COUNT"
    and m: "mallocs (h_mem h) = []"
  shows "\<exists>h' fragments. enet_peer_send i chan packet h = (0, h')
    \<and> p_outgoingCommands (peer_at h' i) = p_outgoingCommands (peer_at h i) @ fragments
    \<and> length fragments = n
    \<and> (\<forall>j < n. oc_packet (fragments ! j) = Some packet
        \<and> unat (oc_fragmentOffset (fragments ! j)) = j * fl
        \<and> unat (oc_fragmentLength (fragments ! j)) = min fl (pk_dataLength k - j * fl)
        \<and> (\<exists>start. fragment_fields_of (fragments ! j) = Some \<lparr>fr_startSequenceNumber = start,
             fr_dataLength = oc_fragmentLength (fragments ! j), fr_fragmentCount = of_nat n,
             fr_fragmentNumber = of_nat j, fr_totalLength = of_nat (pk_dataLength k),
             fr_fragmentOffset = oc_fragmentOffset (fragments ! j)\<rparr>))
    \<and> sum_list (map (\<lambda>c. unat (oc_fragmentLength c)) fragments) = pk_dataLength k
    \<and> packet_refs (h_mem h') packet = pk_referenceCount k + n"
proof -
  note flb = fragment_length_bounds [OF p(3,4), of h, folded fl(1)]
  obtain mk start b where mk:
    "mk = (\<lambda>f. command_on b chan (Send_Fragment f)) \<or> mk = (\<lambda>f. command_on b chan (Send_Unreliable_Fragment f))"
    "send_fragments i chan packet (pk_dataLength k) fl h = (0, upd_peer i (fold enet_peer_setup_outgoing_command
        (map (fragment_at mk start n packet (pk_dataLength k) fl) [0..<n])) (upd_mem (packet_retain n (Some packet)) h))"
    using send_fragments_runs [OF i m flb(1) fl(2) k(3) n] by metis
  let ?cs = "map (fragment_at mk start n packet (pk_dataLength k) fl) [0..<n]"
  obtain new where new: "p_outgoingCommands (fold enet_peer_setup_outgoing_command ?cs (peer_at h i))
      = p_outgoingCommands (peer_at h i) @ new" "list_all2 same_fragment ?cs new"
    using fold_setup_same_fragments by blast
  have len: "length new = n" using list_all2_lengthD [OF new(2)] by simp
  have same: "same_fragment (fragment_at mk start n packet (pk_dataLength k) fl j) (new ! j)" if "j < n" for j
    using list_all2_nthD2 [OF new(2), of j] that len by simp
  have lens: "unat (oc_fragmentLength (new ! j)) = min fl (pk_dataLength k - j * fl)" if "j < n" for j
  proof -
    have "unat (of_nat (min fl (pk_dataLength k - j * fl)) :: u16) = min fl (pk_dataLength k - j * fl)"
      by (rule unat_of_nat_id) (use flb(2) in simp)
    then show ?thesis using same [OF that] by (simp add: same_fragment_def del: of_nat_diff)
  qed
  have offs: "unat (oc_fragmentOffset (new ! j)) = j * fl" if "j < n" for j
  proof -
    have "j * fl < pk_dataLength k" by (rule last_fragment(3) [OF flb(1) fl(2)]) (use that n in simp)
    then have "unat (of_nat (j * fl) :: u32) = j * fl"
      by (intro unat_of_nat_id) (use k(3) in simp)
    then show ?thesis using same [OF that] by (simp add: same_fragment_def del: of_nat_mult)
  qed
  have "sum_list (map (\<lambda>c. unat (oc_fragmentLength c)) new) = (\<Sum>j<n. min fl (pk_dataLength k - j * fl))"
    using lens len by (simp add: sum_list_sum_nth lessThan_atLeast0)
  also have "\<dots> = pk_dataLength k"
    using last_fragment(2) [OF flb(1) fl(2)] by (simp add: fragments_sum n(1))
  finally have total: "sum_list (map (\<lambda>c. unat (oc_fragmentLength c)) new) = pk_dataLength k" .
  have send: "enet_peer_send i chan packet h = (0, upd_peer i (fold enet_peer_setup_outgoing_command ?cs)
      (upd_mem (packet_retain n (Some packet)) h))"
    using p k fl mk(2) by (simp add: enet_peer_send_def Let_def packet_length_def)
  have body: "\<exists>start. fragment_fields_of (new ! j) = Some \<lparr>fr_startSequenceNumber = start,
        fr_dataLength = oc_fragmentLength (new ! j), fr_fragmentCount = of_nat n,
        fr_fragmentNumber = of_nat j, fr_totalLength = of_nat (pk_dataLength k),
        fr_fragmentOffset = oc_fragmentOffset (new ! j)\<rparr>" if "j < n" for j
    using same [OF that] fragment_at_fields [OF mk(1)] by (simp add: same_fragment_def)
  have pkt: "oc_packet (new ! j) = Some packet" if "j < n" for j
    using same [OF that] by (simp add: same_fragment_def)
  have refs: "packet_refs (packet_retain n (Some packet) (h_mem h)) packet = pk_referenceCount k + n"
    by (simp add: packet_retain_def upd_packet_def k packet_refs_def)
  show ?thesis
    unfolding send using i new(1) len lens offs total body pkt refs
    by (intro exI [of _ "upd_peer i (fold enet_peer_setup_outgoing_command ?cs)
        (upd_mem (packet_retain n (Some packet)) h)"] exI [of _ new] conjI) simp_all
qed

definition connected_pair :: "nat \<Rightarrow> host" where
  "connected_pair n = zero_host\<lparr>
     h_peers := [zero_peer\<lparr>p_state := Connected, p_channelCount := 1, p_mtu := 576, p_roundTripTime := 500,
                           p_channels := [zero_channel]\<rparr>],
     h_mtu := 1400, h_maximumPacketSize := 5000,
     h_mem := empty_memory\<lparr>packets := [7 \<mapsto> \<lparr>pk_referenceCount = 0, pk_flags = 1,
       pk_data = replicate n 42, pk_dataLength = n, pk_freeCallback = False\<rparr>], fresh := 8\<rparr>\<rparr>"

lemmas connected_pair_simps = connected_pair_def zero_host_def zero_peer_def peer_at_def
  empty_memory_def fragment_length_def sizeofs size_max_def protocol_limits

theorem enet_peer_send_fragments_witness:
  "\<exists>h' fragments. enet_peer_send 0 0 7 (connected_pair 2000) = (0, h') \<and> length fragments = 4
     \<and> p_outgoingCommands (peer_at h' 0) = fragments \<and> oc_fragmentLength (fragments ! 3) = 356"
proof -
  let ?h = "connected_pair 2000"
  let ?k = "\<lparr>pk_referenceCount = 0, pk_flags = 1, pk_data = replicate 2000 42, pk_dataLength = 2000,
    pk_freeCallback = False\<rparr> :: packet"
  have p: "p_state (peer_at ?h 0) = Connected" "unat (0 :: u8) < p_channelCount (peer_at ?h 0)"
    "ENET_PROTOCOL_MINIMUM_MTU \<le> p_mtu (peer_at ?h 0)" "p_mtu (peer_at ?h 0) \<le> ENET_PROTOCOL_MAXIMUM_MTU"
    "p_outgoingCommands (peer_at ?h 0) = []" "0 < length (h_peers ?h)"
    by (simp_all add: connected_pair_simps)
  have m: "packets (h_mem ?h) 7 = Some ?k" "pk_dataLength ?k \<le> h_maximumPacketSize ?h"
    "pk_dataLength ?k < 2 ^ 32" "mallocs (h_mem ?h) = []"
    by (simp_all add: connected_pair_simps)
  have f: "548 = fragment_length ?h (peer_at ?h 0)" "548 < pk_dataLength ?k"
    "4 = (pk_dataLength ?k + 548 - 1) div 548" "4 \<le> ENET_PROTOCOL_MAXIMUM_FRAGMENT_COUNT"
    by (simp_all add: connected_pair_simps)
  obtain h' fragments where r: "enet_peer_send 0 0 7 ?h = (0, h')"
    "p_outgoingCommands (peer_at h' 0) = p_outgoingCommands (peer_at ?h 0) @ fragments"
    "length fragments = 4"
    "\<forall>j < 4. unat (oc_fragmentLength (fragments ! j)) = min 548 (pk_dataLength ?k - j * 548)"
    using enet_peer_send_fragments [OF p(6) p(1-4) m(1-3) f m(4)] by blast
  have "unat (oc_fragmentLength (fragments ! 3)) = unat (356 :: u16)" using r(4) by simp
  then have "oc_fragmentLength (fragments ! 3) = 356" by (simp only: word_unat_eq_iff)
  then show ?thesis using r(1-3) p(5) by auto
qed

section \<open>Sending keeps the references right\<close>

lemma peer_view_setup [frame_simps]: "peer_view (enet_peer_setup_outgoing_command c p) = peer_view p"
  by (simp add: peer_view_def)

lemma peer_view_fold_setup [frame_simps]:
  "peer_view (fold enet_peer_setup_outgoing_command cs p) = peer_view p"
  by (induction cs arbitrary: p) (simp_all add: frame_simps)

lemma queue_outgoing_frame [simp, frame_simps]:
  "frame_view (snd (enet_peer_queue_outgoing_command i c packet off n h)) = frame_view h"
  using frame_view_malloc [of h]
  by (cases "host_malloc h")
    (simp add: enet_peer_queue_outgoing_command_def Let_def frame_view_upd_peer frame_simps
      del: frame_view_malloc)

lemma alive_malloc [simp]: "alive (snd (host_malloc h)) = alive h"
  by (rule ext) (simp add: alive_def)

text \<open>A command the operations of a host queue: without a packet and on the control channel.\<close>

lemma queue_packet_safe:
  assumes "memory_safe h" "i < length (h_peers h)" "alive h packet"
    "new_outgoing_ok (new_outgoing_command c packet off n) (peer_at h i)"
  shows "memory_safe (snd (enet_peer_queue_outgoing_command i c packet off n h))"
proof -
  obtain ok h1 where m: "host_malloc h = (ok, h1)" by fastforce
  have s: "memory_safe h1" "i < length (h_peers h1)" "alive h1 packet" "peer_at h1 i = peer_at h i"
    using assms memory_safe_malloc [of h] host_malloc_frame(1,2) [of h] alive_malloc [of h] m by auto
  show ?thesis
    using s assms(4) setup_peer_ok
      memory_safe_enqueue [OF s(1-3), of "enet_peer_setup_outgoing_command (new_outgoing_command c packet off n)" 1]
    by (simp add: enet_peer_queue_outgoing_command_def m Let_def heap_simps new_outgoing_command_def)
qed

definition control_command :: "protocol \<Rightarrow> bool" where
  "control_command c \<longleftrightarrow> hd_channelID (pr_header c) = 0xFF \<and> commandSizes ! unat (kind_of c) \<le> 48"

lemma commandSizes_le: "commandSizes ! unat (command_number b) \<le> 48"
  by (cases b) (simp_all add: commandSizes_def sizeofs)

lemma kind_of_command_on:
  "kind_of (command_on ENET_PROTOCOL_COMMAND_FLAG_ACKNOWLEDGE chan b) = command_number b"
  "kind_of (command_on ENET_PROTOCOL_COMMAND_FLAG_UNSEQUENCED chan b) = command_number b"
  "kind_of (command_on 0 chan b) = command_number b"
  by (cases b; simp add: kind_of_def command_on_def command_of_def command_flags)+

lemma control_command_on [simp]:
  "control_command (command_on ENET_PROTOCOL_COMMAND_FLAG_ACKNOWLEDGE 0xFF b)"
  "control_command (command_on ENET_PROTOCOL_COMMAND_FLAG_UNSEQUENCED 0xFF b)"
  using commandSizes_le by (simp_all add: control_command_def kind_of_command_on) (simp_all add: command_on_def)

lemma queue_outgoing_safe:
  assumes "memory_safe h" "i < length (h_peers h)" "control_command c"
  shows "memory_safe (snd (enet_peer_queue_outgoing_command i c None off 0 h))"
proof -
  have "mtu_ok (p_mtu (peer_at h i))" using memory_safe_at [OF assms(1,2)] by (simp add: peer_ok_def)
  moreover have "light (new_outgoing_command c None off 0)"
    using assms(3) by (simp add: light_def size_of_def new_outgoing_command_def control_command_def)
  moreover have "new_number_ok (new_outgoing_command c None off 0) (peer_at h i)"
    using assms(3) by (simp add: new_number_ok_def new_outgoing_command_def control_command_def)
  ultimately show ?thesis
    using assms by (intro queue_packet_safe) (simp_all add: new_outgoing_ok_def light_alone)
qed

lemma command_on_channel [simp]: "hd_channelID (pr_header (command_on fl chan b)) = chan"
  by (simp add: command_on_def)

lemma fragment_loop_step:
  assumes "unat o' < dl" "enet_malloc m = (True, m1)"
  obtains c f where "oc_packet c = Some packet" "oc_command c = mk f" "oc_fragmentOffset c = o'"
    "unat (oc_fragmentLength c) \<le> fl"
    "fragment_loop (Suc fuel) mk start cnt packet dl fl j o' acc m
      = fragment_loop fuel mk start cnt packet dl (min fl (dl - unat o')) (j + 1)
          (o' + of_nat (min fl (dl - unat o'))) (acc @ [c]) m1"
proof -
  let ?fl = "min fl (dl - unat o')"
  have fl: "(if dl - unat o' < fl then dl - unat o' else fl) = ?fl" by simp
  let ?f = "\<lparr>fr_startSequenceNumber = start, fr_dataLength = of_nat ?fl,
      fr_fragmentCount = cnt, fr_fragmentNumber = j, fr_totalLength = of_nat dl,
      fr_fragmentOffset = o'\<rparr>"
  let ?c = "new_outgoing_command (mk ?f) (Some packet) o' (of_nat ?fl)"
  have "unat (of_nat ?fl :: u16) \<le> ?fl" unfolding unat_of_nat by (rule mod_less_eq_dividend)
  then have "oc_packet ?c = Some packet" "oc_command ?c = mk ?f" "oc_fragmentOffset ?c = o'"
    "unat (oc_fragmentLength ?c) \<le> fl" by (simp_all add: new_outgoing_command_def)
  moreover have "fragment_loop (Suc fuel) mk start cnt packet dl fl j o' acc m
      = fragment_loop fuel mk start cnt packet dl ?fl (j + 1) (o' + of_nat ?fl) (acc @ [?c]) m1"
    using assms by (simp only: fragment_loop.simps Let_def fl prod.case simp_thms if_True if_False)
  ultimately show ?thesis using that by blast
qed

lemma offset_advances:
  assumes "0 < fl" "dl < 2 ^ 32" "unat (o' :: u32) < dl"
  shows "unat (o' + of_nat (min fl (dl - unat o'))) = unat o' + min fl (dl - unat o')"
proof -
  let ?fl = "min fl (dl - unat o')"
  have "unat (of_nat ?fl :: u32) = ?fl" by (rule unat_of_nat_id) (use assms in simp)
  then show ?thesis
    using assms by (subst unat_plus_simple [THEN iffD1]) (auto simp: no_olen_add_nat)
qed

lemma fragment_loop_offsets:
  "fragment_loop fuel mk start cnt packet dl fl j o' acc m = Some (Some cs, j', m') \<Longrightarrow> 0 < fl \<Longrightarrow> dl < 2 ^ 32 \<Longrightarrow>
    \<exists>new. cs = acc @ new \<and> (\<forall>c \<in> set new. unat o' \<le> unat (oc_fragmentOffset c) \<and> (\<exists>f. oc_command c = mk f)
        \<and> unat (oc_fragmentLength c) \<le> fl)
      \<and> (\<forall>c \<in> set (tl new). unat o' < unat (oc_fragmentOffset c))
      \<and> (new \<noteq> [] \<longrightarrow> oc_fragmentOffset (hd new) = o')"
proof (induction fuel arbitrary: fl j o' acc m)
  case 0
  then show ?case by (simp add: fragment_loop.simps)
next
  case (Suc fuel)
  obtain ok m1 where m1: "enet_malloc m = (ok, m1)" by fastforce
  show ?case
  proof (cases "unat o' < dl \<and> ok")
    case False
    then show ?thesis using Suc.prems m1 by (auto simp: fragment_loop.simps split: if_splits)
  next
    case True
    then have t: "unat o' < dl" "enet_malloc m = (True, m1)" using m1 by simp_all
    let ?fl = "min fl (dl - unat o')"
    obtain c f where c: "oc_command c = mk f" "oc_fragmentOffset c = o'" "unat (oc_fragmentLength c) \<le> fl" "fragment_loop fuel mk start cnt packet dl
        ?fl (j + 1) (o' + of_nat ?fl) (acc @ [c]) m1 = Some (Some cs, j', m')"
      using fragment_loop_step [OF t] Suc.prems(1) by metis
    have adv: "unat (o' + of_nat ?fl) = unat o' + ?fl" "0 < ?fl"
      using offset_advances Suc.prems(2,3) t(1) by auto
    obtain new where new: "cs = (acc @ [c]) @ new" "\<forall>d \<in> set new. unat o' < unat (oc_fragmentOffset d)
        \<and> (\<exists>f. oc_command d = mk f) \<and> unat (oc_fragmentLength d) \<le> fl"
      using Suc.IH [OF c(4) adv(2) Suc.prems(3)] adv by fastforce
    then show ?thesis using c by (intro exI [of _ "c # new"]) (auto intro: less_imp_le)
  qed
qed

lemma fragment_loop_packets:
  "fragment_loop fuel mk start cnt packet dl fl j o' acc m = Some (r, j', m') \<Longrightarrow>
    packets m' = packets m \<and> fresh m' = fresh m \<and> fault m' = fault m \<and>
    (\<forall>cs. r = Some cs \<longrightarrow> (\<exists>new. cs = acc @ new \<and> (\<forall>c \<in> set new. oc_packet c = Some packet)
       \<and> j' = j + of_nat (length new) \<and> length new < fuel))"
proof (induction fuel arbitrary: fl j o' acc m)
  case 0
  then show ?case by (simp add: fragment_loop.simps)
next
  case (Suc fuel)
  obtain ok m1 where m1: "enet_malloc m = (ok, m1)" by fastforce
  note f1 = enet_malloc_frame [of m, unfolded m1 snd_conv]
  show ?case
  proof (cases "unat o' < dl \<and> ok")
    case False
    then show ?thesis using Suc.prems f1 m1 by (auto simp: fragment_loop.simps split: if_splits)
  next
    case True
    then have t: "unat o' < dl" "enet_malloc m = (True, m1)" using m1 by simp_all
    obtain c where c: "oc_packet c = Some packet" "fragment_loop fuel mk start cnt packet dl
        (min fl (dl - unat o')) (j + 1) (o' + of_nat (min fl (dl - unat o'))) (acc @ [c]) m1 = Some (r, j', m')"
      using fragment_loop_step [OF t] Suc.prems by metis
    note * = Suc.IH [OF c(2)]
    show ?thesis
    proof (intro conjI allI impI)
      fix cs assume "r = Some cs"
      then obtain new where "cs = (acc @ [c]) @ new" "\<forall>c \<in> set new. oc_packet c = Some packet"
        "j' = j + 1 + of_nat (length new)" "length new < fuel" using * by blast
      then show "\<exists>new. cs = acc @ new \<and> (\<forall>c \<in> set new. oc_packet c = Some packet)
          \<and> j' = j + of_nat (length new) \<and> length new < Suc fuel"
        using c(1) by (intro exI [of _ "c # new"]) (simp add: algebra_simps)
    qed (use * f1 in auto)
  qed
qed

lemma fragment_loop_ends:
  "0 < fl \<Longrightarrow> dl < 2 ^ 32 \<Longrightarrow> dl - unat o' < fuel \<Longrightarrow>
    fragment_loop fuel mk start cnt packet dl fl j o' acc m \<noteq> None"
proof (induction fuel arbitrary: fl j o' acc m)
  case 0
  then show ?case by simp
next
  case (Suc fuel)
  obtain ok m1 where m1: "enet_malloc m = (ok, m1)" by fastforce
  show ?case
  proof (cases "unat o' < dl \<and> ok")
    case False
    then show ?thesis using m1 by (auto simp: fragment_loop.simps)
  next
    case True
    then have t: "unat o' < dl" "enet_malloc m = (True, m1)" using m1 by simp_all
    let ?fl = "min fl (dl - unat o')"
    have "unat (o' + of_nat ?fl) = unat o' + ?fl" by (rule offset_advances) (use t(1) Suc.prems in simp_all)
    then have "0 < ?fl" "dl - unat (o' + of_nat ?fl) < fuel" using t(1) Suc.prems by auto
    then show ?thesis
      using fragment_loop_step [OF t] Suc.IH Suc.prems(2) by metis
  qed
qed

lemma out_refs_same:
  "\<forall>c \<in> set cs. oc_packet c = x \<Longrightarrow> out_refs cs = replicate_mset (length cs) x"
  by (induction cs) simp_all

text \<open>Every outcome of \<open>send_fragments\<close>.\<close>

lemma send_fragments_cases:
  assumes "0 < fl" "dl < 2 ^ 32 - 1" and r: "send_fragments i chan packet dl fl h = (r, h')"
  obtains (failed) m where "r = -1" "h' = h\<lparr>h_mem := m\<rparr>" "packets m = packets (h_mem h)"
      "fresh m = fresh (h_mem h)" "fault m = fault (h_mem h)"
  | (sent) m cs where "r = 0" "packets m = packets (h_mem h)" "fresh m = fresh (h_mem h)"
      "fault m = fault (h_mem h)" "\<forall>c \<in> set cs. oc_packet c = Some packet"
      "(\<forall>c \<in> set cs. command_acknowledged c) \<or>
         ch_outgoingUnreliableSequenceNumber (channel_at (peer_at h i) (unat chan)) < 0xFFFF \<and>
         (\<forall>c \<in> set cs. \<not> command_acknowledged c \<and> hd_channelID (pr_header (oc_command c)) = chan
            \<and> \<not> is_unsequenced (oc_command c)) \<and>
         (\<forall>c \<in> set (tl cs). oc_fragmentOffset c \<noteq> 0) \<and> (cs \<noteq> [] \<longrightarrow> oc_fragmentOffset (hd cs) = 0)"
      "h' = upd_peer i (fold enet_peer_setup_outgoing_command cs)
         (upd_mem (packet_retain (length cs) (Some packet)) (h\<lparr>h_mem := m\<rparr>))"
      "\<forall>c \<in> set cs. size_of c = 24 \<and> unat (oc_fragmentLength c) \<le> fl"
proof -
  let ?cnt = "of_nat ((dl + fl - 1) div fl) :: u32"
  show ?thesis
  proof (cases "unat ?cnt > ENET_PROTOCOL_MAXIMUM_FRAGMENT_COUNT")
    case True
    then show ?thesis using r
      by (intro failed [of "h_mem h"]) (simp_all add: send_fragments_def Let_def)
  next
    case False
    let ?ch = "channel_at (peer_at h i) (unat chan)"
    obtain mk start where mk: "(mk = (\<lambda>f. command_on 0 chan (Send_Unreliable_Fragment f)) \<and>
          ch_outgoingUnreliableSequenceNumber ?ch < 0xFFFF) \<or>
        mk = (\<lambda>f. command_on ENET_PROTOCOL_COMMAND_FLAG_ACKNOWLEDGE chan (Send_Fragment f))"
      and res: "(case fragment_loop (Suc dl) mk start ?cnt packet dl fl 0 0 [] (h_mem h) of
         None \<Rightarrow> (-1, upd_mem (faulty True) h)
       | Some (None, _, m) \<Rightarrow> (-1, h\<lparr>h_mem := m\<rparr>)
       | Some (Some fragments, fragmentNumber, m) \<Rightarrow>
           let h = h\<lparr>h_mem := packet_retain (unat fragmentNumber) (Some packet) m\<rparr>
           in (0, upd_peer i (fold enet_peer_setup_outgoing_command fragments) h)) = (r, h')"
    proof -
      let ?U = "packet_flags_of h packet AND (ENET_PACKET_FLAG_RELIABLE OR ENET_PACKET_FLAG_UNRELIABLE_FRAGMENT)
        = ENET_PACKET_FLAG_UNRELIABLE_FRAGMENT \<and> ch_outgoingUnreliableSequenceNumber ?ch < 0xFFFF"
      show ?thesis
        using False r that [of "if ?U then (\<lambda>f. command_on 0 chan (Send_Unreliable_Fragment f))
            else (\<lambda>f. command_on ENET_PROTOCOL_COMMAND_FLAG_ACKNOWLEDGE chan (Send_Fragment f))"
            "if ?U then ch_outgoingUnreliableSequenceNumber ?ch + 1 else ch_outgoingReliableSequenceNumber ?ch + 1"]
        unfolding send_fragments_def Let_def by (cases ?U) simp_all
    qed
    obtain res j' m where loop:
      "fragment_loop (Suc dl) mk start ?cnt packet dl fl 0 0 [] (h_mem h) = Some (res, j', m)"
      using fragment_loop_ends [of fl dl 0 "Suc dl" mk start ?cnt packet 0 "[]" "h_mem h"] assms(1,2) by auto
    note p = fragment_loop_packets [OF loop]
    show ?thesis
    proof (cases res)
      case None
      then show ?thesis using res loop p by (intro failed [of m]) simp_all
    next
      case (Some cs)
      then have cs: "\<forall>c \<in> set cs. oc_packet c = Some packet" "j' = of_nat (length cs)" "length cs < Suc dl"
        using p by auto
      then have "unat j' = length cs" using assms(2) by (simp only: cs(2)) (rule unat_of_nat_id, simp)
      moreover have "(\<forall>c \<in> set cs. (\<exists>f. oc_command c = mk f) \<and> unat (oc_fragmentLength c) \<le> fl) \<and> (\<forall>c \<in> set (tl cs). oc_fragmentOffset c \<noteq> 0)
          \<and> (cs \<noteq> [] \<longrightarrow> oc_fragmentOffset (hd cs) = 0)"
        using fragment_loop_offsets [of "Suc dl" mk start ?cnt packet dl fl 0 0 "[]" "h_mem h" cs j' m]
          loop Some assms by fastforce
      moreover have "command_acknowledged c = (mk = (\<lambda>f. command_on ENET_PROTOCOL_COMMAND_FLAG_ACKNOWLEDGE chan (Send_Fragment f)))
          \<and> hd_channelID (pr_header (oc_command c)) = chan \<and> \<not> is_unsequenced (oc_command c) \<and> size_of c = 24"
        if "\<exists>f. oc_command c = mk f" for c
        using that mk by (auto simp: command_acknowledged_def is_acknowledged_def is_unsequenced_def command_on_def
            command_flags fun_eq_iff size_of_def kind_of_def command_of_def commandSizes_def sizeofs)
      ultimately show ?thesis using res loop p cs Some mk
        by (intro sent [of m cs]) (auto simp: Let_def upd_mem_def)
    qed
  qed
qed

lemma enet_peer_send_frame [simp, frame_simps]:
  assumes "0 < fragment_length h (peer_at h i)" "packet_length (h_mem h) packet < 2 ^ 32 - 1"
  shows "frame_view (snd (enet_peer_send i chan packet h)) = frame_view h"
proof -
  obtain r h' where s: "send_fragments i chan packet (packet_length (h_mem h) packet)
      (fragment_length h (peer_at h i)) h = (r, h')" by fastforce
  have "frame_view h' = frame_view h"
    using assms s by (cases rule: send_fragments_cases) (simp_all add: frame_view_upd_peer frame_simps)
  then show ?thesis
    by (auto simp: enet_peer_send_def Let_def s split: prod.splits)
       (metis queue_outgoing_frame snd_conv)+
qed

text \<open>An unsequenced packet is the one thing that an application must not send, see \<open>outgoing_ok\<close>.\<close>

definition sequenced_packet :: "host \<Rightarrow> nat \<Rightarrow> bool" where
  "sequenced_packet h packet \<longleftrightarrow>
     packet_flags_of h packet AND (ENET_PACKET_FLAG_RELIABLE OR ENET_PACKET_FLAG_UNSEQUENCED)
       \<noteq> ENET_PACKET_FLAG_UNSEQUENCED"

lemma enet_peer_send_safe:
  assumes s: "memory_safe h" and i: "i < length (h_peers h)" and a: "alive h (Some packet)"
    and u: "sequenced_packet h packet"
  shows "memory_safe (snd (enet_peer_send i chan packet h))"
proof (cases "p_state (peer_at h i) \<noteq> Connected \<or> unat chan \<ge> p_channelCount (peer_at h i)
    \<or> packet_length (h_mem h) packet > h_maximumPacketSize h")
  case True
  then show ?thesis using s by (auto simp: enet_peer_send_def Let_def)
next
  case False
  note m = memory_safe_at [OF s i]
  let ?p = "peer_at h i" let ?ch = "channel_at ?p (unat chan)"
  have c: "unat chan < length (p_channels ?p)" "unat chan \<noteq> 255"
    using False m by (auto simp: peer_ok_def protocol_limits)
  then have c': "chan \<noteq> 0xFF" by auto
  have dl: "packet_length (h_mem h) packet < 2 ^ 32 - 1"
    using False s by (auto simp: memory_safe_def limits_ok_def limits_def)
  have mtu: "mtu_ok (p_mtu ?p)" using m by (simp add: peer_ok_def)
  have fl: "0 < fragment_length h ?p"
    using m by (intro fragment_length_bounds) (auto simp: peer_ok_def mtu_ok_def)
  have al: "alone (p_mtu ?p) d" if "size_of d \<le> 24" "unat (oc_fragmentLength d) \<le> fragment_length h ?p" for d
    using that fragment_length_room [OF mtu, of h] by (simp add: alone_def)
  have st: "\<not> idle (p_state ?p)" using False by (simp add: idle_def)
  obtain r h' where r: "send_fragments i chan packet (packet_length (h_mem h) packet)
      (fragment_length h ?p) h = (r, h')" by fastforce
  have f: "memory_safe h'"
    using fl dl r
  proof (cases rule: send_fragments_cases)
    case (failed m)
    then show ?thesis using s refs_ok_cong [of m "h_mem h" "held h"]
      by (simp add: memory_safe_def held_def limits_ok_def)
  next
    case (sent m cs)
    have "memory_safe (h\<lparr>h_mem := m\<rparr>)" "alive (h\<lparr>h_mem := m\<rparr>) (Some packet)"
      using sent s a refs_ok_cong [of m "h_mem h" "held h"]
      by (simp_all add: memory_safe_def held_def limits_ok_def alive_def)
    moreover have "peer_ok ?p \<Longrightarrow> peer_ok (fold enet_peer_setup_outgoing_command cs ?p)"
      by (rule fold_setup_peer_ok [of _ _ chan]) (use sent c c' st al in auto)
    ultimately show ?thesis unfolding sent
      using i by (intro memory_safe_enqueue) (simp_all add: heap_simps out_refs_same sent)
  qed
  have q: "memory_safe (snd (enet_peer_queue_outgoing_command i (command_on b chan body) (Some packet) 0 n h))"
    if "b = ENET_PROTOCOL_COMMAND_FLAG_ACKNOWLEDGE \<and> body = Send_Reliable k \<or>
      b = 0 \<and> body = Send_Unreliable 0 k \<and> ch_outgoingUnreliableSequenceNumber ?ch < 0xFFFF"
      "unat n \<le> fragment_length h ?p" for b body n k
  proof (rule queue_packet_safe [OF s i a])
    let ?c = "new_outgoing_command (command_on b chan body) (Some packet) 0 n"
    have "alone (p_mtu ?p) ?c"
      by (rule al) (use that in \<open>auto simp: new_outgoing_command_def size_of_def kind_of_command_on commandSizes_def sizeofs\<close>)
    moreover have "new_number_ok ?c ?p"
      using that c c' by (auto simp: new_number_ok_def new_outgoing_command_def command_acknowledged_def
        is_acknowledged_def is_unsequenced_def command_on_def command_flags Let_def)
    ultimately show "new_outgoing_ok ?c ?p" using st by (simp add: new_outgoing_ok_def)
  qed
  have n: "unat (of_nat (packet_length (h_mem h) packet) :: u16) \<le> fragment_length h ?p"
    if "\<not> packet_length (h_mem h) packet > fragment_length h ?p"
    using that order_trans [OF mod_less_eq_dividend] unfolding unat_of_nat not_less by blast
  show ?thesis
    using f u False n q [of ENET_PROTOCOL_COMMAND_FLAG_ACKNOWLEDGE "Send_Reliable _"] q [of 0 "Send_Unreliable 0 _"]
    by (auto simp: enet_peer_send_def Let_def r sequenced_packet_def not_le split: prod.splits)
       (metis snd_conv)+
qed

end
