(* ===== verification/Enet_Peer_Receive.thy ===== *)
theory Enet_Peer_Receive
  imports Enet_Refs Enet_Peer_Send "HOL-Library.Sublist"
begin

text \<open>
  The receiving half of \<open>enet/peer.c\<close>: the queues of commands that wait for their turn on a
  channel, their dispatch, and \<open>enet_peer_receive\<close>.

  The code walks a queue with pointers into it.  The model walks a HOL list: the pointers
  \<open>startCommand\<close> and \<open>currentCommand\<close> become a split of the queue into the commands passed
  and kept, those between the two pointers, and those to come; \<open>droppedCommand\<close>, which always
  points at or before \<open>startCommand\<close> or just after it, becomes a number of commands from the
  head of the queue.  A queue that the code searches from its tail is searched as the
  reversed list, and the result counts the commands that were passed.
\<close>

section \<open>Receiving a packet\<close>

definition enet_peer_receive :: "nat \<Rightarrow> host \<Rightarrow> (nat \<times> u8) option \<times> host" where
  "enet_peer_receive i h =
    (case p_dispatchedCommands (peer_at h i) of
      [] \<Rightarrow> (None, h)
    | c # cs \<Rightarrow>
        let h = upd_peer i (\<lambda>p. p\<lparr>p_dispatchedCommands := cs\<rparr>) h
        in case ic_packet c of
             None \<Rightarrow> (None, upd_mem (faulty True) h)
           | Some packet \<Rightarrow>
               let h = upd_mem (packet_unref packet) h;
                   h = upd_peer i (\<lambda>p. p\<lparr>p_totalWaitingData :=
                         sz_sub (p_totalWaitingData p) (packet_length (h_mem h) packet)\<rparr>) h
               in (Some (packet, hd_channelID (pr_header (ic_command c))), h))"

section \<open>Removing commands\<close>

definition enet_peer_reset_outgoing_commands :: "outgoing_command list \<Rightarrow> memory \<Rightarrow> memory" where
  "enet_peer_reset_outgoing_commands queue m = fold (\<lambda>c. packet_release (oc_packet c)) queue m"

text \<open>The commands from \<open>startCommand\<close> up to \<open>endCommand\<close>, given as a list, and what stays of them.\<close>

fun enet_peer_remove_incoming_commands ::
  "incoming_command list \<Rightarrow> nat option \<Rightarrow> memory \<Rightarrow> incoming_command list \<times> memory" where
  "enet_peer_remove_incoming_commands [] excludeCommand m = ([], m)"
| "enet_peer_remove_incoming_commands (c # cs) excludeCommand m =
    (if excludeCommand = Some (ic_id c)
     then let (left, m) = enet_peer_remove_incoming_commands cs excludeCommand m in (c # left, m)
     else enet_peer_remove_incoming_commands cs excludeCommand (packet_release (ic_packet c) m))"

definition enet_peer_reset_incoming_commands :: "incoming_command list \<Rightarrow> memory \<Rightarrow> memory" where
  "enet_peer_reset_incoming_commands queue m = snd (enet_peer_remove_incoming_commands queue None m)"

section \<open>Dispatching\<close>

definition in_window :: "u16 \<Rightarrow> u16 \<Rightarrow> bool" where
  "in_window n current \<longleftrightarrow> reliable_window n current \<ge> window_of current
     \<and> reliable_window n current < window_of current + ENET_PEER_FREE_RELIABLE_WINDOWS - 1"

fun unreliable_scan ::
  "u16 \<Rightarrow> u16 \<Rightarrow> incoming_command list \<Rightarrow> incoming_command list \<Rightarrow> nat \<Rightarrow> incoming_command list
    \<Rightarrow> incoming_command list
    \<Rightarrow> u16 \<times> incoming_command list \<times> incoming_command list \<times> nat \<times> incoming_command list
       \<times> incoming_command list" where
  "unreliable_scan current unreliable passed pending dropped moved [] =
    (unreliable, passed, pending, dropped, moved, [])"
| "unreliable_scan current unreliable passed pending dropped moved (c # cs) =
    (if kind_of (ic_command c) = ENET_PROTOCOL_COMMAND_SEND_UNSEQUENCED
     then unreliable_scan current unreliable passed (pending @ [c]) dropped moved cs
     else if ic_reliableSequenceNumber c = current
     then
       if ic_fragmentsRemaining c \<le> 0
       then unreliable_scan current (ic_unreliableSequenceNumber c) passed (pending @ [c]) dropped moved cs
       else unreliable_scan current unreliable (passed @ [c]) []
              (if pending \<noteq> [] then length passed
               else if dropped \<noteq> length passed then length passed - 1 else dropped)
              (moved @ pending) cs
     else if in_window (ic_reliableSequenceNumber c) current
     then (unreliable, passed, pending, dropped, moved, c # cs)
     else unreliable_scan current unreliable (passed @ [c]) [] (Suc (length passed)) (moved @ pending) cs)"

definition enet_peer_dispatch_incoming_unreliable_commands ::
  "nat \<Rightarrow> nat \<Rightarrow> nat option \<Rightarrow> host \<Rightarrow> host" where
  "enet_peer_dispatch_incoming_unreliable_commands i chan queuedCommand h =
    (let ch = channel_at (peer_at h i) chan;
         (unreliable, passed, pending, dropped, moved, rest) =
           unreliable_scan (ch_incomingReliableSequenceNumber ch) (ch_incomingUnreliableSequenceNumber ch)
             [] [] 0 [] (ch_incomingUnreliableCommands ch);
         moved = moved @ pending;
         dropped = (if pending \<noteq> [] then length passed else dropped);
         queue = passed @ rest;
         (left, m) = enet_peer_remove_incoming_commands (take dropped queue) queuedCommand (h_mem h);
         h = upd_peer i (\<lambda>p. upd_channel chan (\<lambda>ch. ch\<lparr>
                 ch_incomingUnreliableSequenceNumber := unreliable,
                 ch_incomingUnreliableCommands := left @ drop dropped queue\<rparr>)
               (p\<lparr>p_dispatchedCommands := p_dispatchedCommands p @ moved\<rparr>)) (h\<lparr>h_mem := m\<rparr>)
     in if moved \<noteq> [] then mark_dispatch i h else h)"

text \<open>The number of the last command that a command stands for: a reassembled packet uses up one
  number for each fragment.\<close>

definition last_number :: "incoming_command \<Rightarrow> u16" where
  "last_number c = (if ic_fragmentCount c > 0
     then ic_reliableSequenceNumber c + ucast (ic_fragmentCount c - 1) else ic_reliableSequenceNumber c)"

definition deliverable :: "u16 \<Rightarrow> incoming_command \<Rightarrow> bool" where
  "deliverable current c \<longleftrightarrow>
     \<not> (ic_fragmentsRemaining c > 0 \<or> ic_reliableSequenceNumber c \<noteq> current + 1)"

fun reliable_scan ::
  "u16 \<Rightarrow> incoming_command list \<Rightarrow> u16 \<times> incoming_command list \<times> incoming_command list" where
  "reliable_scan current [] = (current, [], [])"
| "reliable_scan current (c # cs) =
    (if \<not> deliverable current c then (current, [], c # cs)
     else let (current, ready, rest) = reliable_scan (last_number c) cs in (current, c # ready, rest))"

definition enet_peer_dispatch_incoming_reliable_commands ::
  "nat \<Rightarrow> nat \<Rightarrow> nat option \<Rightarrow> host \<Rightarrow> host" where
  "enet_peer_dispatch_incoming_reliable_commands i chan queuedCommand h =
    (let ch = channel_at (peer_at h i) chan;
         (current, ready, rest) =
           reliable_scan (ch_incomingReliableSequenceNumber ch) (ch_incomingReliableCommands ch)
     in if ready = [] then h
        else
          let h = upd_peer i (\<lambda>p. upd_channel chan (\<lambda>ch. ch\<lparr>
                    ch_incomingReliableSequenceNumber := current,
                    ch_incomingUnreliableSequenceNumber := 0,
                    ch_incomingReliableCommands := rest\<rparr>)
                  (p\<lparr>p_dispatchedCommands := p_dispatchedCommands p @ ready\<rparr>)) h;
              h = mark_dispatch i h
          in if ch_incomingUnreliableCommands ch \<noteq> []
             then enet_peer_dispatch_incoming_unreliable_commands i chan queuedCommand h else h)"

section \<open>Queueing a received command\<close>

text \<open>
  The result of \<open>enet_peer_queue_incoming_command\<close>: \<open>NULL\<close>, the dummy command that stands for
  a discarded one, or the queued command.
\<close>

datatype queued = Queue_Error | Discarded | Queued nat

text \<open>
  \<open>reliable_position n current\<close> runs from the tail of the queue to the place of number \<open>n\<close>;
  \<open>None\<close> means that the number is there already.
\<close>

fun reliable_position :: "u16 \<Rightarrow> u16 \<Rightarrow> incoming_command list \<Rightarrow> nat option" where
  "reliable_position n current [] = Some 0"
| "reliable_position n current (c # cs) =
    (let here = (if ic_reliableSequenceNumber c \<le> n
                 then if ic_reliableSequenceNumber c < n then Some 0 else None
                 else map_option Suc (reliable_position n current cs))
     in if n \<ge> current
        then if ic_reliableSequenceNumber c < current
             then map_option Suc (reliable_position n current cs) else here
        else if ic_reliableSequenceNumber c \<ge> current then Some 0 else here)"

text \<open>
  The same for unreliable commands.  The code asks here whether \<open>command\<close> is unsequenced, and
  in this branch it never is.
\<close>

fun unreliable_position :: "protocol \<Rightarrow> u16 \<Rightarrow> u16 \<Rightarrow> u16 \<Rightarrow> incoming_command list \<Rightarrow> nat option" where
  "unreliable_position command n unreliable current [] = Some 0"
| "unreliable_position command n unreliable current (c # cs) =
    (let next = map_option Suc (unreliable_position command n unreliable current cs);
         here = (if ic_reliableSequenceNumber c < n then Some 0
                 else if ic_reliableSequenceNumber c > n then next
                 else if ic_unreliableSequenceNumber c \<le> unreliable
                 then if ic_unreliableSequenceNumber c < unreliable then Some 0 else None
                 else next)
     in if kind_of command = ENET_PROTOCOL_COMMAND_SEND_UNSEQUENCED then next
        else if n \<ge> current
        then if ic_reliableSequenceNumber c < current then next else here
        else if ic_reliableSequenceNumber c \<ge> current then Some 0 else here)"

text \<open>
  The field \<open>sendUnreliable.unreliableSequenceNumber\<close>, which lies where a fragment has its
  \<open>startSequenceNumber\<close>.
\<close>

definition unreliable_number :: "protocol \<Rightarrow> u16" where
  "unreliable_number command = (case pr_body command of
      Send_Unreliable u _ \<Rightarrow> u | Send_Unreliable_Fragment f \<Rightarrow> fr_startSequenceNumber f | _ \<Rightarrow> 0)"

definition insert_at :: "nat \<Rightarrow> 'a \<Rightarrow> 'a list \<Rightarrow> 'a list" where
  "insert_at k x xs = (let n = length xs - k in take n xs @ x # drop n xs)"

text \<open>Where a command goes: its unreliable number and its place, or no place.\<close>

definition incoming_place :: "protocol \<Rightarrow> channel \<Rightarrow> u16 \<times> nat option" where
  "incoming_place command ch =
    (let kind = kind_of command;
         n = hd_reliableSequenceNumber (pr_header command);
         current = ch_incomingReliableSequenceNumber ch
     in if kind = ENET_PROTOCOL_COMMAND_SEND_FRAGMENT \<or> kind = ENET_PROTOCOL_COMMAND_SEND_RELIABLE
        then (0, if n = current then None
                 else reliable_position n current (rev (ch_incomingReliableCommands ch)))
        else if kind = ENET_PROTOCOL_COMMAND_SEND_UNRELIABLE
             \<or> kind = ENET_PROTOCOL_COMMAND_SEND_UNRELIABLE_FRAGMENT
        then let u = unreliable_number command
             in (u, if n = current \<and> u \<le> ch_incomingUnreliableSequenceNumber ch then None
                    else unreliable_position command n u current (rev (ch_incomingUnreliableCommands ch)))
        else if kind = ENET_PROTOCOL_COMMAND_SEND_UNSEQUENCED
        then (0, Some (length (ch_incomingUnreliableCommands ch)))
        else (0, None))"

definition is_reliable_kind :: "protocol \<Rightarrow> bool" where
  "is_reliable_kind command \<longleftrightarrow> kind_of command = ENET_PROTOCOL_COMMAND_SEND_FRAGMENT
     \<or> kind_of command = ENET_PROTOCOL_COMMAND_SEND_RELIABLE"

definition enqueue_incoming :: "nat \<Rightarrow> nat \<Rightarrow> bool \<Rightarrow> nat \<Rightarrow> incoming_command \<Rightarrow> host \<Rightarrow> host" where
  "enqueue_incoming i chan reliable place c h =
    upd_peer i (upd_channel chan (\<lambda>ch.
      if reliable
      then ch\<lparr>ch_incomingReliableCommands := insert_at place c (ch_incomingReliableCommands ch)\<rparr>
      else ch\<lparr>ch_incomingUnreliableCommands := insert_at place c (ch_incomingUnreliableCommands ch)\<rparr>)) h"

definition enet_peer_queue_incoming_command ::
  "nat \<Rightarrow> protocol \<Rightarrow> u8 list option \<Rightarrow> nat \<Rightarrow> u32 \<Rightarrow> u32 \<Rightarrow> host \<Rightarrow> queued \<times> host" where
  "enet_peer_queue_incoming_command i command data dataLength flags fragmentCount h =
    (let p = peer_at h i;
         chan = unat (hd_channelID (pr_header command));
         ch = channel_at p chan;
         n = hd_reliableSequenceNumber (pr_header command);
         discardCommand = ((if fragmentCount > 0 then Queue_Error else Discarded), h)
     in if p_state p = Disconnect_Later then discardCommand
        else if kind_of command \<noteq> ENET_PROTOCOL_COMMAND_SEND_UNSEQUENCED
                \<and> \<not> in_window n (ch_incomingReliableSequenceNumber ch)
        then discardCommand
        else
          case incoming_place command ch of
            (_, None) \<Rightarrow> discardCommand
          | (unreliable, Some place) \<Rightarrow>
              if p_totalWaitingData p \<ge> h_maximumWaitingData h then (Queue_Error, h)
              else
                case enet_packet_create data dataLength flags (h_mem h) of
                  (None, m) \<Rightarrow> (Queue_Error, h\<lparr>h_mem := m\<rparr>)
                | (Some packet, m) \<Rightarrow>
                    let notifyError = (\<lambda>h. (Queue_Error, upd_mem (enet_packet_destroy (Some packet)) h));
                        (ok, h) = host_malloc (h\<lparr>h_mem := m\<rparr>)
                    in if \<not> ok then notifyError h
                       else
                         let (ok, h) =
                               (if fragmentCount > 0
                                then if unat fragmentCount \<le> ENET_PROTOCOL_MAXIMUM_FRAGMENT_COUNT
                                     then host_malloc h else (False, h)
                                else (True, h))
                         in if \<not> ok then notifyError h
                            else
                              let c = \<lparr>ic_id = fresh (h_mem h), ic_reliableSequenceNumber = n,
                                       ic_unreliableSequenceNumber = unreliable, ic_command = command,
                                       ic_fragmentCount = fragmentCount,
                                       ic_fragmentsRemaining = fragmentCount,
                                       ic_fragments = (if fragmentCount > 0
                                         then Some (replicate ((unat fragmentCount + 31) div 32) 0)
                                         else None),
                                       ic_packet = Some packet\<rparr>;
                                  h = upd_mem (\<lambda>m. packet_retain 1 (Some packet)
                                        (m\<lparr>fresh := Suc (fresh m)\<rparr>)) h;
                                  h = upd_peer i (\<lambda>p. p\<lparr>p_totalWaitingData :=
                                        sz_add (p_totalWaitingData p) (packet_length (h_mem h) packet)\<rparr>) h;
                                  h = enqueue_incoming i chan (is_reliable_kind command) place c h
                              in (Queued (ic_id c),
                                  if is_reliable_kind command
                                  then enet_peer_dispatch_incoming_reliable_commands i chan (Some (ic_id c)) h
                                  else enet_peer_dispatch_incoming_unreliable_commands i chan (Some (ic_id c)) h))"

section \<open>References while commands move\<close>

lemma remove_incoming_refs:
  "refs_ok m (in_refs q + M) \<Longrightarrow>
    refs_ok (snd (enet_peer_remove_incoming_commands q ex m))
      (in_refs (fst (enet_peer_remove_incoming_commands q ex m)) + M)"
proof (induction q ex m arbitrary: M rule: enet_peer_remove_incoming_commands.induct)
  case (1 ex m)
  then show ?case by simp
next
  case (2 c cs ex m)
  show ?case
  proof (cases "ex = Some (ic_id c)")
    case True
    then show ?thesis using "2.IH"(1) [OF True, of "add_mset (ic_packet c) M"] "2.prems"
      by (cases "enet_peer_remove_incoming_commands cs ex m") simp
  next
    case False
    have "refs_ok (packet_release (ic_packet c) m) (in_refs cs + M)"
      by (rule refs_ok_release) (use "2.prems" in simp)
    then show ?thesis using "2.IH"(2) [OF False] False by simp
  qed
qed

lemma remove_incoming_subset: "mset (fst (enet_peer_remove_incoming_commands q ex m)) \<subseteq># mset q"
  by (induction q ex m rule: enet_peer_remove_incoming_commands.induct)
    (auto split: prod.split intro: subset_mset.order_trans)

lemma reset_incoming_refs:
  "refs_ok m (in_refs q + M) \<Longrightarrow> refs_ok (enet_peer_reset_incoming_commands q m) M"
  unfolding enet_peer_reset_incoming_commands_def
proof (induction q arbitrary: m)
  case (Cons c cs)
  have "refs_ok (packet_release (ic_packet c) m) (in_refs cs + M)"
    by (rule refs_ok_release) (use Cons.prems in simp)
  then show ?case using Cons.IH by simp
qed simp

lemma reset_outgoing_refs:
  "refs_ok m (out_refs q + M) \<Longrightarrow> refs_ok (enet_peer_reset_outgoing_commands q m) M"
  using released.release_all [of m "map oc_packet q" M]
  by (simp add: enet_peer_reset_outgoing_commands_def out_refs_def fold_map comp_def)

lemma unreliable_scan_mset:
  "unreliable_scan cur u passed pending d moved cs = (u', passed', pending', d', moved', rest) \<Longrightarrow>
    mset passed' + mset pending' + mset moved' + mset rest
    = mset passed + mset pending + mset moved + mset cs"
  by (induction cur u passed pending d moved cs rule: unreliable_scan.induct)
    (auto split: if_splits simp: ac_simps)

lemma reliable_scan_split:
  "reliable_scan cur q = (cur', ready, rest) \<Longrightarrow> q = ready @ rest"
  by (induction cur q arbitrary: ready rule: reliable_scan.induct) (auto split: if_splits prod.splits)

text \<open>A peer seen from one of its channels.\<close>

definition rest_refs :: "nat \<Rightarrow> peer \<Rightarrow> nat option multiset" where
  "rest_refs c p = out_refs (p_sentReliableCommands p) + out_refs (p_sentUnreliableCommands p)
    + out_refs (p_outgoingCommands p)
    + channels_refs (take c (p_channels p) @ drop (Suc c) (p_channels p))"

lemma peer_refs_channel: "c < length (p_channels p) \<Longrightarrow>
    peer_refs p = channel_refs (channel_at p c) + (in_refs (p_dispatchedCommands p) + rest_refs c p)"
  by (simp add: peer_refs_def rest_refs_def channel_at_def channels_refs_split ac_simps)

lemma rest_refs_simps [simp]:
  "rest_refs c (upd_channel c f p) = rest_refs c p"
  "rest_refs c (p\<lparr>p_dispatchedCommands := d\<rparr>) = rest_refs c p"
  "rest_refs c (p\<lparr>p_totalWaitingData := w\<rparr>) = rest_refs c p"
  by (simp_all add: rest_refs_def upd_nth_def)

lemma drop_upd_nth: "drop n (upd_nth c f xs) = (if c < n then drop n xs else upd_nth (c - n) f (drop n xs))"
  by (cases "c < length xs") (auto simp: upd_nth_def drop_update_swap list_update_beyond)

lemma channels_refs_upd_subset:
  "c < length chs \<Longrightarrow> channel_refs (f (chs ! c)) \<subseteq># channel_refs (chs ! c) \<Longrightarrow>
    channels_refs chs = {#} \<Longrightarrow> channels_refs (upd_nth c f chs) = {#}"
  using channels_refs_split [of c chs] channels_refs_upd [of c chs f] by simp

lemma incoming_cmds_channel: "c < length (p_channels p) \<Longrightarrow>
    incoming_cmds p = channel_cmds (channel_at p c) + (mset (p_dispatchedCommands p)
      + sum_list (map channel_cmds (take c (p_channels p) @ drop (Suc c) (p_channels p))))"
  by (simp add: incoming_cmds_def channel_at_def sum_list_mset_split)

text \<open>Commands that leave a channel, for the dispatched commands or for good.\<close>

lemma peer_ok_shrink:
  assumes ok: "peer_ok p" and c: "c < length (p_channels p)"
    and s: "channel_cmds (f (channel_at p c)) + mset new \<subseteq># channel_cmds (channel_at p c)"
  shows "peer_ok (upd_channel c f (p\<lparr>p_dispatchedCommands := p_dispatchedCommands p @ new\<rparr>))"
proof -
  let ?q = "p\<lparr>p_dispatchedCommands := p_dispatchedCommands p @ new\<rparr>"
  have at: "channel_at ?q c = channel_at p c" by (simp add: channel_at_def)
  have "channel_cmds (f (channel_at p c)) \<subseteq># channel_cmds (channel_at p c)"
    using s by (metis mset_subset_eq_add_left subset_mset.order_trans)
  then have s': "channel_refs (f (channel_at p c)) \<subseteq># channel_refs (channel_at p c)"
    by (simp add: channel_refs_cmds image_mset_subseteq_mono)
  have "channels_refs (drop (p_channelCount p) (upd_nth c f (p_channels p))) = {#}"
  proof (cases "c < p_channelCount p")
    case True
    then show ?thesis using ok by (simp add: peer_ok_def drop_upd_nth)
  next
    case False
    then show ?thesis
      using ok s' c channels_refs_upd_subset [of "c - p_channelCount p" "drop (p_channelCount p) (p_channels p)" f]
      by (simp add: peer_ok_def drop_upd_nth channel_at_def)
  qed
  moreover have "idle (p_state p) \<Longrightarrow> channels_refs (upd_nth c f (p_channels p)) = {#}"
    using ok s' c channels_refs_upd_subset [of c "p_channels p" f] by (simp add: peer_ok_def channel_at_def)
  moreover have "\<forall>d \<in># incoming_cmds (upd_channel c f ?q). command_ok d"
  proof -
    have "incoming_cmds (upd_channel c f ?q) = channel_cmds (f (channel_at p c)) + mset new
        + (mset (p_dispatchedCommands p) + sum_list (map channel_cmds (take c (p_channels p) @ drop (Suc c) (p_channels p))))"
      using c at by (simp add: incoming_cmds_channel [of c] upd_nth_def ac_simps)
    then have "incoming_cmds (upd_channel c f ?q) \<subseteq># incoming_cmds p"
      using s by (simp add: incoming_cmds_channel [OF c] subset_mset.add_right_mono)
    then show ?thesis using ok mset_subset_eqD unfolding peer_ok_def by metis
  qed
  ultimately show ?thesis using ok by (simp add: peer_ok_def)
qed

lemma peer_ok_grow:
  assumes "peer_ok p" "c < p_channelCount p" "\<not> idle (p_state p)"
    and "\<forall>d \<in># channel_cmds (f (channel_at p c)). command_ok d"
  shows "peer_ok (upd_channel c f p)"
proof -
  have c: "c < length (p_channels p)" using assms by (simp add: peer_ok_def)
  have "\<forall>d \<in># incoming_cmds (upd_channel c f p). command_ok d"
    using assms(1,4) c
    by (auto simp: peer_ok_def incoming_cmds_channel [of c] upd_nth_def)
  then show ?thesis using assms by (simp add: peer_ok_def drop_upd_nth)
qed

lemma peer_ok_channel:
  "peer_ok p \<Longrightarrow> c < length (p_channels p) \<Longrightarrow> d \<in># channel_cmds (channel_at p c) \<Longrightarrow> command_ok d"
  by (auto simp: peer_ok_def incoming_cmds_channel [of c])

lemma peer_ok_simps [simp]:
  "peer_ok (p\<lparr>p_totalWaitingData := w\<rparr>) = peer_ok p"
  "peer_ok (p\<lparr>p_flags := fl\<rparr>) = peer_ok p"
  by (simp_all add: peer_ok_defs)

lemma peer_refs_simps [simp]:
  "peer_refs (p\<lparr>p_totalWaitingData := w\<rparr>) = peer_refs p"
  "peer_refs (p\<lparr>p_flags := fl\<rparr>) = peer_refs p"
  by (simp_all add: peer_refs_def)

lemma mark_dispatch_safe [simp]: "memory_safe (mark_dispatch i h) = memory_safe h"
proof -
  let ?h = "h\<lparr>h_linkFault := (h_linkFault h \<or> i \<in> set (h_dispatchQueue h)),
          h_dispatchQueue := h_dispatchQueue h @ [i]\<rparr>"
  have "memory_safe (upd_peer i (\<lambda>p. p\<lparr>p_flags := f p\<rparr>) h) = memory_safe h" for f h
  proof -
    have "map peer_refs (upd_nth i (\<lambda>p. p\<lparr>p_flags := f p\<rparr>) (h_peers h)) = map peer_refs (h_peers h)"
      by (rule map_upd_nth_same) simp
    moreover have "map peer_ok (upd_nth i (\<lambda>p. p\<lparr>p_flags := f p\<rparr>) (h_peers h)) = map peer_ok (h_peers h)"
      by (rule map_upd_nth_same) simp
    then have "(\<forall>p \<in> set (upd_nth i (\<lambda>p. p\<lparr>p_flags := f p\<rparr>) (h_peers h)). peer_ok p)
        = (\<forall>p \<in> set (h_peers h). peer_ok p)"
      by (metis (no_types, lifting) in_set_conv_nth length_map nth_map)
    ultimately show ?thesis by (simp add: memory_safe_def held_def limits_ok_def)
  qed
  moreover have "memory_safe ?h = memory_safe h"
    by (rule memory_safe_cong) (simp_all add: limits_def)
  ultimately show ?thesis by (simp add: mark_dispatch_def)
qed

text \<open>Replacing a channel and its dispatched commands when the memory follows.\<close>

lemma memory_safe_channel:
  assumes s: "memory_safe h" and i: "i < length (h_peers h)" and c: "c < length (p_channels (peer_at h i))"
    and ok: "channel_cmds (f (channel_at (peer_at h i) c)) + mset new \<subseteq># channel_cmds (channel_at (peer_at h i) c)"
    and r: "refs_ok m (channel_refs (f (channel_at (peer_at h i) c))
        + (in_refs (p_dispatchedCommands (peer_at h i)) + in_refs new)
        + (rest_refs c (peer_at h i) + others i h))"
  shows "memory_safe (upd_peer i (\<lambda>p. upd_channel c f (p\<lparr>p_dispatchedCommands := p_dispatchedCommands p @ new\<rparr>))
      (h\<lparr>h_mem := m\<rparr>))"
proof (rule memory_safe_upd [OF s i])
  let ?p = "peer_at h i"
  let ?q = "upd_channel c f (?p\<lparr>p_dispatchedCommands := p_dispatchedCommands ?p @ new\<rparr>)"
  let ?h = "upd_peer i (\<lambda>p. upd_channel c f (p\<lparr>p_dispatchedCommands := p_dispatchedCommands p @ new\<rparr>)) (h\<lparr>h_mem := m\<rparr>)"
  have at: "peer_at ?h i = ?q" using i by simp
  show "peer_ok (peer_at ?h i)" unfolding at using ok c memory_safe_at [OF s i] by (intro peer_ok_shrink) simp_all
  have "channel_at (?p\<lparr>p_dispatchedCommands := p_dispatchedCommands ?p @ new\<rparr>) c = channel_at ?p c"
    by (simp add: channel_at_def)
  then have "peer_refs ?q = channel_refs (f (channel_at ?p c))
      + (in_refs (p_dispatchedCommands ?p) + in_refs new + rest_refs c ?p)"
    using c peer_refs_channel [of c ?q] by simp
  then show "refs_ok (h_mem ?h) (peer_refs (peer_at ?h i) + others i h)"
    unfolding at using r by (simp add: ac_simps)
qed simp_all

text \<open>The unreliable dispatch, taken apart once for the proofs about it.\<close>

lemma dispatch_unreliable_unfold:
  obtains u passed pending d moved rest left m d' q and f :: "channel \<Rightarrow> channel" where
    "unreliable_scan (ch_incomingReliableSequenceNumber (channel_at (peer_at h i) c))
       (ch_incomingUnreliableSequenceNumber (channel_at (peer_at h i) c)) [] [] 0 []
       (ch_incomingUnreliableCommands (channel_at (peer_at h i) c)) = (u, passed, pending, d, moved, rest)"
    "q = passed @ rest"
    "enet_peer_remove_incoming_commands (take d' q) ex (h_mem h) = (left, m)"
    "f = (\<lambda>ch. ch\<lparr>ch_incomingUnreliableSequenceNumber := u,
            ch_incomingUnreliableCommands := left @ drop d' q\<rparr>)"
    "enet_peer_dispatch_incoming_unreliable_commands i c ex h =
      (let h = upd_peer i (\<lambda>p. upd_channel c f
             (p\<lparr>p_dispatchedCommands := p_dispatchedCommands p @ (moved @ pending)\<rparr>)) (h\<lparr>h_mem := m\<rparr>)
       in if moved @ pending \<noteq> [] then mark_dispatch i h else h)"
proof -
  let ?ch = "channel_at (peer_at h i) c"
  obtain u passed pending d moved rest where sc: "unreliable_scan (ch_incomingReliableSequenceNumber ?ch)
      (ch_incomingUnreliableSequenceNumber ?ch) [] [] 0 [] (ch_incomingUnreliableCommands ?ch)
      = (u, passed, pending, d, moved, rest)" by (metis prod_cases6)
  define d' where "d' = (if pending \<noteq> [] then length passed else d)"
  define q where "q = passed @ rest"
  obtain left m where rm: "enet_peer_remove_incoming_commands (take d' q) ex (h_mem h) = (left, m)" by fastforce
  show ?thesis
    by (rule that [OF sc q_def rm refl])
      (simp only: enet_peer_dispatch_incoming_unreliable_commands_def Let_def sc prod.case rm
        d'_def [symmetric] q_def [symmetric])
qed

lemma dispatch_unreliable_safe:
  assumes s: "memory_safe h" and i: "i < length (h_peers h)" and c: "c < length (p_channels (peer_at h i))"
  shows "memory_safe (enet_peer_dispatch_incoming_unreliable_commands i c ex h)"
proof (rule dispatch_unreliable_unfold [of h i c ex])
  let ?p = "peer_at h i" let ?ch = "channel_at ?p c"
  fix u passed pending d moved rest left m d' q and f :: "channel \<Rightarrow> channel"
  assume sc: "unreliable_scan (ch_incomingReliableSequenceNumber ?ch)
      (ch_incomingUnreliableSequenceNumber ?ch) [] [] 0 [] (ch_incomingUnreliableCommands ?ch)
      = (u, passed, pending, d, moved, rest)"
    and q_def: "q = passed @ rest"
    and rm: "enet_peer_remove_incoming_commands (take d' q) ex (h_mem h) = (left, m)"
    and f_def: "f = (\<lambda>ch. ch\<lparr>ch_incomingUnreliableSequenceNumber := u,
         ch_incomingUnreliableCommands := left @ drop d' q\<rparr>)"
    and eq: "enet_peer_dispatch_incoming_unreliable_commands i c ex h =
      (let h = upd_peer i (\<lambda>p. upd_channel c f
             (p\<lparr>p_dispatchedCommands := p_dispatchedCommands p @ (moved @ pending)\<rparr>)) (h\<lparr>h_mem := m\<rparr>)
       in if moved @ pending \<noteq> [] then mark_dispatch i h else h)"
  have q: "mset q = mset (take d' q) + mset (drop d' q)" by (metis append_take_drop_id mset_append)
  have "mset (ch_incomingUnreliableCommands ?ch) = mset q + (mset moved + mset pending)"
    using unreliable_scan_mset [OF sc] by (simp add: q_def ac_simps)
  then have msplit: "mset (ch_incomingUnreliableCommands ?ch)
      = mset (take d' q) + (mset (drop d' q) + (mset moved + mset pending))"
    by (subst (asm) q) (simp only: ac_simps)
  have split: "in_refs (ch_incomingUnreliableCommands ?ch)
      = in_refs (take d' q) + (in_refs (drop d' q) + (in_refs moved + in_refs pending))"
    by (simp only: in_refs_def msplit image_mset_union)
  have p: "peer_refs ?p = in_refs (take d' q) + (in_refs (drop d' q) + (in_refs moved + in_refs pending)
      + in_refs (ch_incomingReliableCommands ?ch) + in_refs (p_dispatchedCommands ?p) + rest_refs c ?p)"
    by (simp only: peer_refs_channel [OF c] channel_refs_def split ac_simps)
  have r: "refs_ok (h_mem h) (in_refs (take d' q) + (in_refs (drop d' q) + (in_refs moved + in_refs pending)
      + in_refs (ch_incomingReliableCommands ?ch) + in_refs (p_dispatchedCommands ?p) + rest_refs c ?p + others i h))"
    using memory_safe_at [OF s i] p by (simp add: safe_at_def add.assoc)
  have "memory_safe (upd_peer i (\<lambda>p. upd_channel c f (p\<lparr>p_dispatchedCommands := p_dispatchedCommands p @ (moved @ pending)\<rparr>))
         (h\<lparr>h_mem := m\<rparr>))"
  proof (rule memory_safe_channel [OF s i c])
    have "mset left \<subseteq># mset (take d' q)"
      using remove_incoming_subset [of "take d' q" ex "h_mem h"] rm by simp
    then show "channel_cmds (f ?ch) + mset (moved @ pending) \<subseteq># channel_cmds ?ch"
      by (simp add: f_def channel_cmds_def msplit subset_mset.add_mono add.assoc)
    show "refs_ok m (channel_refs (f ?ch) + (in_refs (p_dispatchedCommands ?p) + in_refs (moved @ pending))
        + (rest_refs c ?p + others i h))"
      using remove_incoming_refs [OF r, of ex] rm by (simp add: f_def channel_refs_def ac_simps)
  qed
  then show ?thesis unfolding eq by (simp only: Let_def mark_dispatch_safe simp_thms split: if_split)
qed

lemma mark_dispatch_frame [simp]:
  "length (h_peers (mark_dispatch i h)) = length (h_peers h)"
  "p_channels (peer_at (mark_dispatch i h) j) = p_channels (peer_at h j)"
  "h_mem (mark_dispatch i h) = h_mem h"
proof -
  show "p_channels (peer_at (mark_dispatch i h) j) = p_channels (peer_at h j)"
    by (cases "i < length (h_peers h)"; cases "i = j") (simp_all add: mark_dispatch_def peer_at_def)
qed (simp_all add: mark_dispatch_def)

lemma dispatch_reliable_safe:
  assumes s: "memory_safe h" and i: "i < length (h_peers h)" and c: "c < length (p_channels (peer_at h i))"
  shows "memory_safe (enet_peer_dispatch_incoming_reliable_commands i c ex h)"
proof -
  let ?p = "peer_at h i" let ?ch = "channel_at ?p c"
  obtain cur ready rest where sc: "reliable_scan (ch_incomingReliableSequenceNumber ?ch)
      (ch_incomingReliableCommands ?ch) = (cur, ready, rest)" by (metis prod_cases3)
  define f :: "channel \<Rightarrow> channel" where "f = (\<lambda>ch. ch\<lparr>ch_incomingReliableSequenceNumber := cur,
     ch_incomingUnreliableSequenceNumber := 0, ch_incomingReliableCommands := rest\<rparr>)"
  let ?h = "upd_peer i (\<lambda>p. upd_channel c f (p\<lparr>p_dispatchedCommands := p_dispatchedCommands p @ ready\<rparr>))
     (h\<lparr>h_mem := h_mem h\<rparr>)"
  have q: "in_refs (ch_incomingReliableCommands ?ch) = in_refs ready + in_refs rest"
    by (simp add: reliable_scan_split [OF sc])
  have "memory_safe ?h"
  proof (rule memory_safe_channel [OF s i c])
    show "channel_cmds (f ?ch) + mset ready \<subseteq># channel_cmds ?ch"
      by (simp add: f_def channel_cmds_def reliable_scan_split [OF sc])
    show "refs_ok (h_mem h) (channel_refs (f ?ch) + (in_refs (p_dispatchedCommands ?p) + in_refs ready)
        + (rest_refs c ?p + others i h))"
      using memory_safe_at [OF s i] peer_refs_channel [OF c]
      by (simp add: safe_at_def f_def channel_refs_def q ac_simps)
  qed
  then show ?thesis
    using s i c dispatch_unreliable_safe [of "mark_dispatch i ?h" i c ex]
    by (simp add: enet_peer_dispatch_incoming_reliable_commands_def Let_def sc f_def)
qed

lemma in_refs_insert_at [simp]: "in_refs (insert_at k c q) = add_mset (ic_packet c) (in_refs q)"
proof -
  have "in_refs q = in_refs (take (length q - k) q) + in_refs (drop (length q - k) q)"
    by (metis append_take_drop_id refs_simps(6))
  then show ?thesis by (simp add: insert_at_def Let_def)
qed

lemma mset_insert_at [simp]: "mset (insert_at k c q) = add_mset c (mset q)"
proof -
  have "mset q = mset (take (length q - k) q) + mset (drop (length q - k) q)"
    by (metis append_take_drop_id mset_append)
  then show ?thesis by (simp add: insert_at_def Let_def)
qed

lemma set_insert_at [simp]: "set (insert_at k c q) = insert c (set q)"
  by (metis mset_insert_at set_mset_add_mset_insert set_mset_mset)

lemma memory_safe_fresh:
  "memory_safe h \<Longrightarrow> memory_safe (upd_mem (\<lambda>m. m\<lparr>fresh := Suc (fresh m)\<rparr>) h)"
  by (auto simp: memory_safe_def held_def limits_ok_def refs_ok_def)

lemma memory_safe_create:
  assumes s: "memory_safe h" and src: "source_ok data n flags"
    and r: "enet_packet_create data n flags (h_mem h) = (res, m)"
  shows "memory_safe (h\<lparr>h_mem := m\<rparr>) \<and>
    (\<forall>p. res = Some p \<longrightarrow> alive (h\<lparr>h_mem := m\<rparr>) (Some p) \<and> count (held h) (Some p) = 0)"
  using s refs_ok_create [OF _ src r, of "held h"]
  by (simp add: memory_safe_def held_def limits_ok_def alive_def)

lemma memory_safe_destroy:
  assumes s: "memory_safe h" and a: "alive h (Some p)" and z: "count (held h) (Some p) = 0"
  shows "memory_safe (upd_mem (enet_packet_destroy (Some p)) h)"
proof -
  obtain k where "packets (h_mem h) p = Some k" using a by (auto simp: alive_def)
  then have "refs_ok (enet_packet_destroy (Some p) (h_mem h)) (held h)"
    using s z refs_ok_destroy by (simp add: memory_safe_def)
  then show ?thesis using s by (simp add: memory_safe_def held_def limits_ok_def)
qed

lemma held_malloc [simp]: "held (snd (host_malloc h)) = held h"
  by (simp add: held_def)

lemma enqueue_incoming_safe:
  assumes s: "memory_safe h" and i: "i < length (h_peers h)" and a: "alive h (Some packet)"
    and c: "chan < p_channelCount (peer_at h i)" "\<not> idle (p_state (peer_at h i))"
    and p: "ic_packet cmd = Some packet" "command_ok cmd"
  shows "memory_safe (enqueue_incoming i chan rel place cmd (upd_peer i (\<lambda>p. p\<lparr>p_totalWaitingData := w p\<rparr>)
      (upd_mem (\<lambda>m. packet_retain 1 (Some packet) (m\<lparr>fresh := Suc (fresh m)\<rparr>)) h)))"
proof -
  let ?h = "upd_mem (\<lambda>m. m\<lparr>fresh := Suc (fresh m)\<rparr>) h"
  let ?f = "upd_channel chan (\<lambda>ch.
      if rel then ch\<lparr>ch_incomingReliableCommands := insert_at place cmd (ch_incomingReliableCommands ch)\<rparr>
      else ch\<lparr>ch_incomingUnreliableCommands := insert_at place cmd (ch_incomingUnreliableCommands ch)\<rparr>)"
  let ?p = "peer_at h i"
  have ok: "peer_ok ?p" using memory_safe_at [OF s i] by simp
  then have len: "chan < length (p_channels ?p)" using c by (simp add: peer_ok_def)
  have "memory_safe (upd_peer i (\<lambda>p. ?f (p\<lparr>p_totalWaitingData := w p\<rparr>)) (upd_mem (packet_retain 1 (Some packet)) ?h))"
  proof (rule memory_safe_enqueue)
    show "memory_safe ?h" by (rule memory_safe_fresh [OF s])
    show "alive ?h (Some packet)" using a by (simp add: alive_def)
    show "peer_ok (peer_at ?h i) \<Longrightarrow> peer_ok (?f ((peer_at ?h i)\<lparr>p_totalWaitingData := w (peer_at ?h i)\<rparr>))"
    proof -
      have "\<forall>d \<in># channel_cmds (if rel
           then channel_at ?p chan\<lparr>ch_incomingReliableCommands := insert_at place cmd (ch_incomingReliableCommands (channel_at ?p chan))\<rparr>
           else channel_at ?p chan\<lparr>ch_incomingUnreliableCommands := insert_at place cmd (ch_incomingUnreliableCommands (channel_at ?p chan))\<rparr>).
          command_ok d"
        using p(2) peer_ok_channel [OF ok len] by (auto simp: channel_cmds_def)
      moreover have "channel_at (?p\<lparr>p_totalWaitingData := w ?p\<rparr>) chan = channel_at ?p chan"
        by (simp add: channel_at_def)
      ultimately show ?thesis using ok c by (intro peer_ok_grow) (simp_all split: if_splits)
    qed
    have "channel_at (?p\<lparr>p_totalWaitingData := w ?p\<rparr>) chan = channel_at ?p chan" by (simp add: channel_at_def)
    then show "peer_refs (?f ((peer_at ?h i)\<lparr>p_totalWaitingData := w (peer_at ?h i)\<rparr>))
        = replicate_mset 1 (Some packet) + peer_refs (peer_at ?h i)"
      using len p by (simp add: peer_refs_channel [of chan] channel_refs_def)
  qed (use i in simp)
  then show ?thesis by (simp add: enqueue_incoming_def upd_mem_def upd_peer_def)
qed

lemma enqueue_incoming_frame [simp]:
  "length (h_peers (enqueue_incoming i chan rel place cmd h)) = length (h_peers h)"
  "i < length (h_peers h) \<Longrightarrow>
    length (p_channels (peer_at (enqueue_incoming i chan rel place cmd h) i)) = length (p_channels (peer_at h i))"
  by (simp_all add: enqueue_incoming_def)

lemma host_malloc_fresh: "fresh (h_mem (snd (host_malloc h))) = fresh (h_mem h)"
  using enet_malloc_frame(2) [of "h_mem h"] by (cases "enet_malloc (h_mem h)") (simp add: host_malloc_def)

lemma host_mallocs_frame:
  assumes "host_malloc h = (ok, h')"
  shows "h_peers h' = h_peers h" "peer_at h' i = peer_at h i" "memory_safe h' = memory_safe h"
    "alive h' = alive h" "held h' = held h" "frame_view h' = frame_view h"
    "fresh (h_mem h') = fresh (h_mem h)" "packets (h_mem h') = packets (h_mem h)"
  using memory_safe_malloc [of h] host_malloc_frame [of h] alive_malloc [of h] held_malloc [of h]
    frame_view_malloc [of h] assms
    host_malloc_fresh [of h]
  by simp_all

lemma create_id:
  "enet_packet_create data n flags m = (res, m') \<Longrightarrow> res = Some p \<Longrightarrow> fresh m' = Suc p"
  by (auto simp: enet_packet_create_def copy_bytes_def Let_def split: prod.splits if_splits option.splits)

lemma queue_incoming_safe:
  assumes s: "memory_safe h" and i: "i < length (h_peers h)"
    and c: "unat (hd_channelID (pr_header command)) < p_channelCount (peer_at h i)"
    and st: "\<not> idle (p_state (peer_at h i))" and src: "source_ok data n flags"
  shows "memory_safe (snd (enet_peer_queue_incoming_command i command data n flags fragmentCount h))"
proof -
  let ?chan = "unat (hd_channelID (pr_header command))"
  obtain u place where pl: "incoming_place command (channel_at (peer_at h i) ?chan) = (u, place)" by fastforce
  obtain res m where cr: "enet_packet_create data n flags (h_mem h) = (res, m)" by fastforce
  let ?h1 = "h\<lparr>h_mem := m\<rparr>"
  obtain ok h2 where m2: "host_malloc ?h1 = (ok, h2)" by fastforce
  obtain ok' h3 where m3: "(if fragmentCount > 0 then if unat fragmentCount \<le> ENET_PROTOCOL_MAXIMUM_FRAGMENT_COUNT
      then host_malloc h2 else (False, h2) else (True, h2)) = (ok', h3)" by fastforce
  note create = memory_safe_create [OF s src cr]
  note f2 = host_mallocs_frame [OF m2]
  have f3: "h_peers h3 = h_peers h2" "peer_at h3 j = peer_at h2 j" "memory_safe h3 = memory_safe h2"
    "alive h3 = alive h2" "held h3 = held h2" "fresh (h_mem h3) = fresh (h_mem h2)" for j
    using m3 host_mallocs_frame [of h2] by (auto split: if_splits)
  have held1: "held ?h1 = held h" by (simp add: held_def)
  show ?thesis
  proof (cases "\<exists>packet. res = Some packet")
    case False
    then have "res = None" by (cases res) auto
    then show ?thesis using s create pl cr
      by (auto simp: enet_peer_queue_incoming_command_def Let_def split: option.splits)
  next
    case True
    then obtain packet where p: "res = Some packet" by blast
    have safe2: "memory_safe h2" "alive h2 (Some packet)" "count (held h2) (Some packet) = 0"
      using create f2 p held1 by simp_all
    have safe3: "memory_safe h3" "alive h3 (Some packet)" "count (held h3) (Some packet) = 0"
      using safe2 f3 by simp_all
    define cmd where "cmd = \<lparr>ic_id = fresh (h_mem h3),
        ic_reliableSequenceNumber = hd_reliableSequenceNumber (pr_header command),
        ic_unreliableSequenceNumber = u, ic_command = command, ic_fragmentCount = fragmentCount,
        ic_fragmentsRemaining = fragmentCount,
        ic_fragments = (if fragmentCount > 0 then Some (replicate ((unat fragmentCount + 31) div 32) 0) else None),
        ic_packet = Some packet\<rparr>"
    define mem3 where "mem3 = upd_mem (\<lambda>m. packet_retain 1 (Some packet) (m\<lparr>fresh := Suc (fresh m)\<rparr>)) h3"
    define h4 where "h4 = (\<lambda>pos. enqueue_incoming i ?chan (is_reliable_kind command) pos cmd
        (upd_peer i (\<lambda>p. p\<lparr>p_totalWaitingData :=
           sz_add (p_totalWaitingData p) (packet_length (h_mem mem3) packet)\<rparr>) mem3))"
    have cmd: "command_ok cmd" "ic_packet cmd = Some packet"
      using create_id [OF cr p] f2(7) f3(6) by (auto simp: cmd_def command_ok_def fragments_ok_def word_gt_0 missing_all)
    have pos: "memory_safe (h4 pos)" "i < length (h_peers (h4 pos))"
      "?chan < length (p_channels (peer_at (h4 pos) i))" for pos
    proof -
      have "i < length (h_peers h3)" "?chan < p_channelCount (peer_at h3 i)" "\<not> idle (p_state (peer_at h3 i))"
        "?chan < length (p_channels (peer_at h3 i))"
        using i c st f2 f3 memory_safe_at [OF s i] by (auto simp: peer_ok_def)
      then show "memory_safe (h4 pos)" "i < length (h_peers (h4 pos))"
          "?chan < length (p_channels (peer_at (h4 pos) i))"
        unfolding h4_def mem3_def using safe3
        by (intro enqueue_incoming_safe, simp_all add: cmd)
    qed
    show ?thesis
      using s pl cr p m2 m3 memory_safe_destroy [OF safe2] memory_safe_destroy [OF safe3]
        dispatch_reliable_safe [OF pos] dispatch_unreliable_safe [OF pos]
      unfolding h4_def mem3_def cmd_def
      by (auto simp: enet_peer_queue_incoming_command_def Let_def split: option.splits)
  qed
qed

lemma receive_safe:
  assumes s: "memory_safe h" and i: "i < length (h_peers h)"
  shows "memory_safe (snd (enet_peer_receive i h))"
proof (cases "p_dispatchedCommands (peer_at h i)")
  case Nil
  then show ?thesis using s by (simp add: enet_peer_receive_def)
next
  case (Cons c cs)
  let ?p = "peer_at h i"
  note m = memory_safe_at [OF s i]
  have "command_ok c" using m Cons by (auto simp: peer_ok_defs)
  then have "None \<noteq> ic_packet c" by (auto simp: command_ok_def)
  then obtain packet where k: "ic_packet c = Some packet" by (cases "ic_packet c") auto
  define m' where "m' = packet_unref packet (h_mem h)"
  define w where "w = (\<lambda>p :: peer. sz_sub (p_totalWaitingData p) (packet_length m' packet))"
  let ?f = "\<lambda>p :: peer. p\<lparr>p_dispatchedCommands := cs, p_totalWaitingData := w p\<rparr>"
  have eq: "snd (enet_peer_receive i h) = upd_peer i ?f (h\<lparr>h_mem := m'\<rparr>)"
    by (simp add: enet_peer_receive_def Cons k Let_def m'_def w_def upd_mem_def upd_peer_def)
  have p: "peer_refs ?p = add_mset (Some packet) (peer_refs (?f ?p))"
    using Cons k by (simp add: peer_refs_def)
  show ?thesis unfolding eq
  proof (rule memory_safe_upd [OF s i, of _ ?f])
    have "refs_ok (h_mem h) (add_mset (Some packet) (peer_refs (?f ?p) + others i h))"
      using m p by (simp add: safe_at_def)
    then show "refs_ok (h_mem (upd_peer i ?f (h\<lparr>h_mem := m'\<rparr>)))
        (peer_refs (peer_at (upd_peer i ?f (h\<lparr>h_mem := m'\<rparr>)) i) + others i h)"
      using i by (simp add: m'_def refs_ok_unref)
    show "peer_ok (peer_at (upd_peer i ?f (h\<lparr>h_mem := m'\<rparr>)) i)"
      using m i Cons by (simp add: peer_ok_defs)
  qed simp_all
qed

section \<open>Order of the reliable queue\<close>

text \<open>How far a sequence number lies ahead of the channel's, modulo \<open>2^16\<close>.\<close>

definition ahead :: "u16 \<Rightarrow> u16 \<Rightarrow> nat" where
  "ahead current n = unat (n - current)"

lemma number_bounds: "unat (n :: u16) < 65536"
  by (rule order_less_le_trans [OF unsigned_less]) simp

lemma ahead_cases: "ahead current n =
    (if current \<le> n then unat n - unat current else 2 ^ 16 + unat n - unat current)"
proof (cases "current \<le> n")
  case True
  then show ?thesis by (simp add: ahead_def unat_sub)
next
  case False
  then have "unat n < unat current" by (simp add: word_le_nat_alt)
  moreover have "unat current < 2 ^ 16" using number_bounds [of current] by simp
  ultimately show ?thesis using False by (simp add: ahead_def unat_sub_if')
qed

text \<open>
  C24: A received sequence number is accepted exactly when it lies ahead of the channel's
  number, within seven windows counted from the start of the channel's own window: whatever
  the wrap-around, an old number is never taken for a new one.
\<close>

theorem in_window_iff:
  "in_window n current \<longleftrightarrow> ahead current n + unat current mod 4096 < 7 * 4096"
proof -
  have n: "unat n < 65536" "unat current < 65536" by (rule number_bounds)+
  have d: "unat n = 4096 * (unat n div 4096) + unat n mod 4096"
    "unat current = 4096 * (unat current div 4096) + unat current mod 4096"
    "unat n mod 4096 < 4096" "unat current mod 4096 < 4096" by simp_all
  define a b c e where "a = unat n div 4096" "b = unat n mod 4096" "c = unat current div 4096" "e = unat current mod 4096"
  note x = d [folded a_b_c_e_def] n
  show ?thesis
  proof (cases "current \<le> n")
    case True
    then have "unat current \<le> unat n" by (simp add: word_le_nat_alt)
    then have "in_window n current \<longleftrightarrow> c \<le> a \<and> a < c + 7" "ahead current n = unat n - unat current"
      using True by (auto simp: in_window_def reliable_window_def window_of_def windows a_b_c_e_def ahead_cases not_less [symmetric])
    then show ?thesis using x True unfolding word_le_nat_alt a_b_c_e_def(4) [symmetric] by linarith
  next
    case False
    then have "n < current" by simp
    then have "in_window n current \<longleftrightarrow> c \<le> a + 16 \<and> a + 16 < c + 7" "ahead current n = 65536 + unat n - unat current"
      by (auto simp: in_window_def reliable_window_def window_of_def windows a_b_c_e_def ahead_cases not_less [symmetric])
    then show ?thesis using x unfolding a_b_c_e_def(4) [symmetric] by linarith
  qed
qed

lemma ahead_less: "ahead cur a < ahead cur b \<longleftrightarrow>
    (if b \<ge> cur then a \<ge> cur \<and> a < b else if a \<ge> cur then True else a < b)"
  using number_bounds [of a] number_bounds [of b] number_bounds [of cur]
  by (auto simp: ahead_cases word_le_nat_alt word_less_nat_alt)

lemma ahead_eq: "ahead cur a = ahead cur b \<longleftrightarrow> a = b"
  by (simp add: ahead_def word_unat_eq_iff [symmetric])

lemma reliable_position_Cons:
  "reliable_position n cur (c # cs) =
    (if ahead cur (ic_reliableSequenceNumber c) < ahead cur n then Some 0
     else if ic_reliableSequenceNumber c = n then None
     else map_option Suc (reliable_position n cur cs))"
  by (auto simp: Let_def ahead_less word_le_nat_alt word_less_nat_alt word_unat_eq_iff)

definition ordered :: "u16 \<Rightarrow> incoming_command list \<Rightarrow> bool" where
  "ordered cur q \<longleftrightarrow> sorted_wrt (\<lambda>c d. ahead cur (ic_reliableSequenceNumber c)
     < ahead cur (ic_reliableSequenceNumber d)) q"

lemma reliable_position_None:
  "ordered cur (rev q) \<Longrightarrow> reliable_position n cur q = None \<longleftrightarrow> n \<in> ic_reliableSequenceNumber ` set q"
proof (induction q)
  case (Cons c q)
  then have "ordered cur (rev q)"
    "\<forall>d \<in> set q. ahead cur (ic_reliableSequenceNumber d) < ahead cur (ic_reliableSequenceNumber c)"
    by (auto simp: ordered_def sorted_wrt_append)
  then show ?case using Cons.IH
    by (auto simp del: reliable_position.simps simp add: reliable_position_Cons)
qed simp

lemma reliable_position_Some:
  "ordered cur (rev q) \<Longrightarrow> reliable_position n cur q = Some k \<Longrightarrow>
    k \<le> length q \<and> (\<forall>d \<in> set (take k q). ahead cur n < ahead cur (ic_reliableSequenceNumber d))
    \<and> (\<forall>d \<in> set (drop k q). ahead cur (ic_reliableSequenceNumber d) < ahead cur n)"
proof (induction q arbitrary: k)
  case (Cons c q)
  then have o: "ordered cur (rev q)"
    "\<forall>d \<in> set q. ahead cur (ic_reliableSequenceNumber d) < ahead cur (ic_reliableSequenceNumber c)"
    by (auto simp: ordered_def sorted_wrt_append)
  show ?case
  proof (cases "ahead cur (ic_reliableSequenceNumber c) < ahead cur n")
    case True
    then show ?thesis using Cons.prems o
      by (auto simp del: reliable_position.simps simp add: reliable_position_Cons)
  next
    case False
    then obtain k' where "k = Suc k'" "reliable_position n cur q = Some k'"
      and ne: "ic_reliableSequenceNumber c \<noteq> n"
      using Cons.prems by (auto simp del: reliable_position.simps simp add: reliable_position_Cons split: if_splits)
    moreover have "ahead cur n < ahead cur (ic_reliableSequenceNumber c)"
      using False ne ahead_eq [of cur "ic_reliableSequenceNumber c" n] by simp
    ultimately show ?thesis using Cons.IH [OF o(1)] by auto
  qed
qed simp

lemma ordered_insert_at:
  assumes o: "ordered cur q" and k: "reliable_position n cur (rev q) = Some k"
    and c: "ic_reliableSequenceNumber c = n"
  shows "ordered cur (insert_at k c q)"
proof -
  have p: "k \<le> length q" "\<forall>d \<in> set (take k (rev q)). ahead cur n < ahead cur (ic_reliableSequenceNumber d)"
    "\<forall>d \<in> set (drop k (rev q)). ahead cur (ic_reliableSequenceNumber d) < ahead cur n"
    using reliable_position_Some [of cur "rev q" n k] o k by auto
  have "set (drop (length q - k) q) = set (take k (rev q))" "set (take (length q - k) q) = set (drop k (rev q))"
    using p(1) by (simp_all add: take_rev drop_rev)
  moreover have "ordered cur (take (length q - k) q @ drop (length q - k) q)" using o by simp
  ultimately show ?thesis using p c
    unfolding insert_at_def Let_def ordered_def sorted_wrt_append by auto
qed

text \<open>
  C25: The search from the tail finds the place of a sequence number: a number that is queued
  already is recognised as a duplicate, and a new command goes where the queue stays strictly
  ordered by the distance ahead of the channel's number, across the wrap-around.
\<close>

theorem reliable_queue_stays_ordered:
  assumes "ordered current q"
  shows "case reliable_position n current (rev q) of
      None \<Rightarrow> n \<in> ic_reliableSequenceNumber ` set q
    | Some k \<Rightarrow> n \<notin> ic_reliableSequenceNumber ` set q \<and> k \<le> length q \<and>
        (\<forall>c. ic_reliableSequenceNumber c = n \<longrightarrow> ordered current (insert_at k c q))"
proof (cases "reliable_position n current (rev q)")
  case None
  then show ?thesis using reliable_position_None [of current "rev q" n] assms by simp
next
  case (Some k)
  then show ?thesis
    using reliable_position_None [of current "rev q" n] reliable_position_Some [of current "rev q" n k]
      ordered_insert_at [OF assms Some] assms by simp
qed

definition numbered :: "u16 \<Rightarrow> incoming_command" where
  "numbered n = \<lparr>ic_id = 0, ic_reliableSequenceNumber = n, ic_unreliableSequenceNumber = 0,
     ic_command = command_on 0x80 0 (Send_Reliable 0), ic_fragmentCount = 0, ic_fragmentsRemaining = 0,
     ic_fragments = None, ic_packet = Some 0\<rparr>"

theorem reliable_queue_stays_ordered_witness:
  "ordered 0xFFFE (map numbered [0xFFFF, 1, 2]) \<and>
   ordered 0xFFFE (insert_at 2 (numbered 0) (map numbered [0xFFFF, 1, 2]))"
proof -
  have o: "ordered 0xFFFE (map numbered [0xFFFF, 1, 2])"
    by (simp add: ordered_def numbered_def ahead_def)
  have k: "reliable_position 0 0xFFFE (rev (map numbered [0xFFFF, 1, 2])) = Some 2"
    by (simp add: numbered_def word_le_nat_alt)
  have "\<forall>c. ic_reliableSequenceNumber c = 0 \<longrightarrow>
      ordered 0xFFFE (insert_at 2 c (map numbered [0xFFFF, 1, 2]))"
    using reliable_queue_stays_ordered [OF o, of 0] unfolding k option.case by blast
  moreover have "ic_reliableSequenceNumber (numbered 0) = 0" by (simp add: numbered_def)
  ultimately show ?thesis using o by blast
qed

section \<open>What is delivered\<close>

fun consecutive :: "u16 \<Rightarrow> incoming_command list \<Rightarrow> bool" where
  "consecutive current [] = True"
| "consecutive current (c # cs) = (deliverable current c \<and> consecutive (last_number c) cs)"

definition end_number :: "u16 \<Rightarrow> incoming_command list \<Rightarrow> u16" where
  "end_number current cs = (if cs = [] then current else last_number (last cs))"

lemma reliable_scan_consecutive:
  "reliable_scan current q = (current', ready, rest) \<Longrightarrow>
    consecutive current ready \<and> current' = end_number current ready
    \<and> (rest = [] \<or> \<not> deliverable current' (hd rest))"
  by (induction current q arbitrary: ready rule: reliable_scan.induct)
    (auto simp: end_number_def split: if_splits prod.splits)

lemma unreliable_scan_moved:
  "unreliable_scan cur u passed pending d moved cs = (u', passed', pending', d', moved', rest) \<Longrightarrow>
    \<exists>xs. subseq xs cs \<and> moved' @ pending' = moved @ pending @ xs \<and>
      (\<forall>c \<in> set xs. kind_of (ic_command c) = ENET_PROTOCOL_COMMAND_SEND_UNSEQUENCED
         \<or> ic_reliableSequenceNumber c = cur \<and> ic_fragmentsRemaining c = 0)"
proof (induction cur u passed pending d moved cs rule: unreliable_scan.induct)
  case (1 cur u passed pending d moved)
  then show ?case by auto
next
  case (2 cur u passed pending d moved c cs)
  let ?take = "kind_of (ic_command c) = ENET_PROTOCOL_COMMAND_SEND_UNSEQUENCED
    \<or> ic_reliableSequenceNumber c = cur \<and> ic_fragmentsRemaining c \<le> 0"
  let ?stop = "\<not> ?take \<and> ic_reliableSequenceNumber c \<noteq> cur \<and> in_window (ic_reliableSequenceNumber c) cur"
  consider (take) "?take" | (stop) "?stop" | (skip) "\<not> ?take" "\<not> ?stop" by blast
  then show ?case
  proof cases
    case take
    then obtain xs where "subseq xs cs" "moved' @ pending' = moved @ (pending @ [c]) @ xs"
      "\<forall>c \<in> set xs. kind_of (ic_command c) = ENET_PROTOCOL_COMMAND_SEND_UNSEQUENCED
         \<or> ic_reliableSequenceNumber c = cur \<and> ic_fragmentsRemaining c = 0"
      using "2.IH"(1,2) "2.prems" by (auto split: if_splits)
    then show ?thesis using take by (intro exI [of _ "c # xs"]) auto
  next
    case stop
    then show ?thesis using "2.prems" by (intro exI [of _ "[]"]) (auto split: if_splits)
  next
    case skip
    then obtain xs where "subseq xs cs" "moved' @ pending' = (moved @ pending) @ [] @ xs"
      "\<forall>c \<in> set xs. kind_of (ic_command c) = ENET_PROTOCOL_COMMAND_SEND_UNSEQUENCED
         \<or> ic_reliableSequenceNumber c = cur \<and> ic_fragmentsRemaining c = 0"
      using "2.IH"(3,4) "2.prems" by (auto split: if_splits)
    then show ?thesis by (intro exI [of _ xs]) auto
  qed
qed

lemma mark_dispatch_peer:
  "peer_at (mark_dispatch i h) j = peer_at h j \<or> (\<exists>w. peer_at (mark_dispatch i h) j = (peer_at h j)\<lparr>p_flags := w\<rparr>)"
  by (cases "i < length (h_peers h)"; cases "i = j") (auto simp: mark_dispatch_def peer_at_def)

lemma mark_dispatch_queues [simp]:
  "p_dispatchedCommands (peer_at (mark_dispatch i h) j) = p_dispatchedCommands (peer_at h j)"
  "channel_at (peer_at (mark_dispatch i h) j) c = channel_at (peer_at h j) c"
  using mark_dispatch_peer [of i h j] by (auto simp: channel_at_def)

text \<open>What the unreliable dispatch delivers and leaves alone.\<close>

lemma dispatch_unreliable_delivers:
  fixes ex :: "nat option" and h :: host and i c :: nat
  assumes i: "i < length (h_peers h)" and c: "c < length (p_channels (peer_at h i))"
  defines "ch \<equiv> channel_at (peer_at h i) c" and "q \<equiv> peer_at (enet_peer_dispatch_incoming_unreliable_commands i c ex h) i"
  shows "ch_incomingReliableCommands (channel_at q c) = ch_incomingReliableCommands ch"
    and "ch_incomingReliableSequenceNumber (channel_at q c) = ch_incomingReliableSequenceNumber ch"
    and "\<exists>xs. subseq xs (ch_incomingUnreliableCommands ch)
      \<and> p_dispatchedCommands q = p_dispatchedCommands (peer_at h i) @ xs
      \<and> (\<forall>d \<in> set xs. kind_of (ic_command d) = ENET_PROTOCOL_COMMAND_SEND_UNSEQUENCED
           \<or> ic_reliableSequenceNumber d = ch_incomingReliableSequenceNumber ch \<and> ic_fragmentsRemaining d = 0)"
proof -
  obtain u passed pending d moved rest left m d' q' and f :: "channel \<Rightarrow> channel" where
    sc: "unreliable_scan (ch_incomingReliableSequenceNumber ch)
      (ch_incomingUnreliableSequenceNumber ch) [] [] 0 [] (ch_incomingUnreliableCommands ch)
      = (u, passed, pending, d, moved, rest)"
    and f_def: "f = (\<lambda>ch. ch\<lparr>ch_incomingUnreliableSequenceNumber := u,
         ch_incomingUnreliableCommands := left @ drop d' q'\<rparr>)"
    and eq: "enet_peer_dispatch_incoming_unreliable_commands i c ex h =
      (let h = upd_peer i (\<lambda>p. upd_channel c f
             (p\<lparr>p_dispatchedCommands := p_dispatchedCommands p @ (moved @ pending)\<rparr>)) (h\<lparr>h_mem := m\<rparr>)
       in if moved @ pending \<noteq> [] then mark_dispatch i h else h)"
    unfolding ch_def by (rule dispatch_unreliable_unfold [of h i c ex]) blast
  have q: "channel_at q c = f ch" "p_dispatchedCommands q = p_dispatchedCommands (peer_at h i) @ (moved @ pending)"
    unfolding q_def eq Let_def using i c by (auto simp: ch_def channel_at_def)
  show "ch_incomingReliableCommands (channel_at q c) = ch_incomingReliableCommands ch"
    "ch_incomingReliableSequenceNumber (channel_at q c) = ch_incomingReliableSequenceNumber ch"
    by (simp_all add: q f_def)
  show "\<exists>xs. subseq xs (ch_incomingUnreliableCommands ch)
      \<and> p_dispatchedCommands q = p_dispatchedCommands (peer_at h i) @ xs
      \<and> (\<forall>d \<in> set xs. kind_of (ic_command d) = ENET_PROTOCOL_COMMAND_SEND_UNSEQUENCED
           \<or> ic_reliableSequenceNumber d = ch_incomingReliableSequenceNumber ch \<and> ic_fragmentsRemaining d = 0)"
    using unreliable_scan_moved [OF sc] q(2) by auto
qed


definition receiving :: "incoming_command list \<Rightarrow> incoming_command list \<Rightarrow> host" where
  "receiving rel unrel = zero_host\<lparr>h_peers := [zero_peer\<lparr>p_state := Connected, p_channelCount := 1,
     p_totalWaitingData := 9, p_channels := [zero_channel\<lparr>ch_incomingReliableCommands := rel,
       ch_incomingUnreliableCommands := unrel\<rparr>]\<rparr>]\<rparr>"

lemma receiving_simps [simp]:
  "length (h_peers (receiving r u)) = 1" "length (p_channels (peer_at (receiving r u) 0)) = 1"
  "channel_at (peer_at (receiving r u) 0) 0 = zero_channel\<lparr>ch_incomingReliableCommands := r,
       ch_incomingUnreliableCommands := u\<rparr>"
  "ch_incomingReliableSequenceNumber zero_channel = 0"
  "p_dispatchedCommands (peer_at (receiving r u) 0) = []"
  "p_totalWaitingData (peer_at (receiving r u) 0) = 9"
  by (simp_all add: receiving_def peer_at_def channel_at_def zero_host_def zero_peer_def zero_channel_def)


text \<open>
  C26: A reliable command or fragment that the channel has had before (its number is the
  channel's, or behind it and so outside the window, or waiting in the queue) changes nothing:
  it is discarded, or reported as an error if it is a fragment.
\<close>

theorem replayed_command_discarded:
  assumes k: "is_reliable_kind command"
    and ch: "ch = channel_at (peer_at h i) (unat (hd_channelID (pr_header command)))"
    and n: "n = hd_reliableSequenceNumber (pr_header command)"
    and o: "ordered (ch_incomingReliableSequenceNumber ch) (ch_incomingReliableCommands ch)"
    and old: "n = ch_incomingReliableSequenceNumber ch \<or> \<not> in_window n (ch_incomingReliableSequenceNumber ch)
      \<or> n \<in> ic_reliableSequenceNumber ` set (ch_incomingReliableCommands ch)"
  shows "enet_peer_queue_incoming_command i command data dataLength flags fragmentCount h
    = ((if fragmentCount > 0 then Queue_Error else Discarded), h)"
proof -
  have "reliable_position n (ch_incomingReliableSequenceNumber ch) (rev (ch_incomingReliableCommands ch)) = None
      \<longleftrightarrow> n \<in> ic_reliableSequenceNumber ` set (ch_incomingReliableCommands ch)"
    using reliable_position_None [of _ "rev (ch_incomingReliableCommands ch)" n] o by simp
  then have "in_window n (ch_incomingReliableSequenceNumber ch) \<Longrightarrow> snd (incoming_place command ch) = None"
    using old k by (auto simp: incoming_place_def is_reliable_kind_def Let_def n)
  moreover have "kind_of command \<noteq> ENET_PROTOCOL_COMMAND_SEND_UNSEQUENCED"
    using k by (auto simp: is_reliable_kind_def)
  ultimately show ?thesis
    unfolding enet_peer_queue_incoming_command_def Let_def ch [symmetric] n [symmetric]
    by (cases "incoming_place command ch"; cases "in_window n (ch_incomingReliableSequenceNumber ch)") auto
qed

theorem replayed_command_discarded_witness:
  "enet_peer_queue_incoming_command 0
     \<lparr>pr_header = \<lparr>hd_command = 0x86, hd_channelID = 0, hd_reliableSequenceNumber = 2\<rparr>, pr_body = Send_Reliable 3\<rparr>
     (Some [7, 8, 9]) 3 1 0 (receiving (map numbered [2, 4]) []) = (Discarded, receiving (map numbered [2, 4]) [])"
proof -
  let ?c = "\<lparr>pr_header = \<lparr>hd_command = 0x86, hd_channelID = 0, hd_reliableSequenceNumber = 2\<rparr>, pr_body = Send_Reliable 3\<rparr>"
  have "is_reliable_kind ?c" by (simp add: is_reliable_kind_def kind_of_def command_of_def command_flags)
  then show ?thesis
    using replayed_command_discarded [of ?c _ "receiving (map numbered [2, 4]) []" 0 _ "Some [7, 8, 9]" 3 1 0, OF _ refl refl]
    by (simp add: ordered_def ahead_def numbered_def)
qed

section \<open>Waiting data\<close>

text \<open>
  The unreliable dispatch drops commands and frees their packets, but leaves
  \<open>totalWaitingData\<close>, which counted them when they were queued, as it is: only
  \<open>enet_peer_receive\<close> lowers it.
\<close>

lemma mark_dispatch_waiting [simp]:
  "p_totalWaitingData (peer_at (mark_dispatch i h) j) = p_totalWaitingData (peer_at h j)"
  using mark_dispatch_peer [of i h j] by auto

lemma dropped_data_stays_counted:
  assumes "i < length (h_peers h)"
  shows "p_totalWaitingData (peer_at (enet_peer_dispatch_incoming_unreliable_commands i c ex h) i)
    = p_totalWaitingData (peer_at h i)"
  using assms
  by (auto simp: enet_peer_dispatch_incoming_unreliable_commands_def Let_def split: prod.splits)

text \<open>An unreliable command that came too late is dropped, its 9 bytes stay counted, and with a
  limit of 9 the peer can receive nothing any more.\<close>

lemma dropped_data_blocks_peer:
  "let h = enet_peer_dispatch_incoming_unreliable_commands 0 0 None
         (receiving [] [(numbered 0xFFFF)\<lparr>ic_command := command_on 0 0 (Send_Unreliable 1 9), ic_packet := None\<rparr>])
   in ch_incomingUnreliableCommands (channel_at (peer_at h 0) 0) = [] \<and> p_dispatchedCommands (peer_at h 0) = []
      \<and> p_totalWaitingData (peer_at h 0) = 9"
  by (simp add: enet_peer_dispatch_incoming_unreliable_commands_def numbered_def kind_of_def command_of_def
      command_on_def command_flags in_window_iff ahead_def packet_release_def)

end
