(* ===== verification/Enet_Peer_Life.thy ===== *)
theory Enet_Peer_Life
  imports Enet_Peer_Receive
begin

text \<open>
  The life of a peer in \<open>enet/peer.c\<close>: connecting and disconnecting, and what a reset throws
  away.

  \<open>enet_peer_disconnect\<close> and \<open>enet_peer_disconnect_now\<close> call \<open>enet_host_flush\<close>, which sends
  datagrams and may itself disconnect a peer.  The functions take the flush as an argument;
  theory \<open>Enet_Service\<close> closes the knot.
\<close>

section \<open>The code\<close>

definition reset_channels :: "peer \<Rightarrow> memory \<Rightarrow> memory" where
  "reset_channels p m =
    (if p_channels p \<noteq> [] \<and> p_channelCount p > 0
     then fold (\<lambda>ch m. enet_peer_reset_incoming_commands (ch_incomingUnreliableCommands ch)
                  (enet_peer_reset_incoming_commands (ch_incomingReliableCommands ch) m))
            (take (p_channelCount p) (p_channels p)) m
     else m)"

definition enet_peer_reset_queues :: "nat \<Rightarrow> host \<Rightarrow> host" where
  "enet_peer_reset_queues i h =
    (let h = (if needs_dispatch (peer_at h i)
              then upd_peer i (\<lambda>p. p\<lparr>p_flags := p_flags p AND NOT ENET_PEER_FLAG_NEEDS_DISPATCH\<rparr>)
                     (h\<lparr>h_dispatchQueue := remove1 i (h_dispatchQueue h)\<rparr>)
              else h);
         p = peer_at h i;
         m = h_mem h;
         m = enet_peer_reset_outgoing_commands (p_sentReliableCommands p) m;
         m = enet_peer_reset_outgoing_commands (p_sentUnreliableCommands p) m;
         m = enet_peer_reset_outgoing_commands (p_outgoingCommands p) m;
         m = enet_peer_reset_incoming_commands (p_dispatchedCommands p) m;
         m = reset_channels p m
     in upd_peer i (\<lambda>p. p\<lparr>p_acknowledgements := [], p_sentReliableCommands := [],
          p_sentUnreliableCommands := [], p_outgoingCommands := [], p_dispatchedCommands := [],
          p_channels := [], p_channelCount := 0\<rparr>) (h\<lparr>h_mem := m\<rparr>))"

definition enet_peer_on_connect :: "nat \<Rightarrow> host \<Rightarrow> host" where
  "enet_peer_on_connect i h =
    (let p = peer_at h i
     in if p_state p \<noteq> Connected \<and> p_state p \<noteq> Disconnect_Later
        then h\<lparr>h_bandwidthLimitedPeers := (if p_incomingBandwidth p \<noteq> 0
                 then h_bandwidthLimitedPeers h + 1 else h_bandwidthLimitedPeers h),
               h_connectedPeers := h_connectedPeers h + 1\<rparr>
        else h)"

definition enet_peer_on_disconnect :: "nat \<Rightarrow> host \<Rightarrow> host" where
  "enet_peer_on_disconnect i h =
    (let p = peer_at h i
     in if p_state p = Connected \<or> p_state p = Disconnect_Later
        then h\<lparr>h_bandwidthLimitedPeers := (if p_incomingBandwidth p \<noteq> 0
                 then sz_dec (h_bandwidthLimitedPeers h) else h_bandwidthLimitedPeers h),
               h_connectedPeers := sz_dec (h_connectedPeers h)\<rparr>
        else h)"

definition reset_fields :: "host \<Rightarrow> peer \<Rightarrow> peer" where
  "reset_fields h p = p\<lparr>
     p_outgoingPeerID := of_nat ENET_PROTOCOL_MAXIMUM_PEER_ID,
     p_connectID := 0,
     p_state := Disconnected,
     p_incomingBandwidth := 0,
     p_outgoingBandwidth := 0,
     p_incomingBandwidthThrottleEpoch := 0,
     p_outgoingBandwidthThrottleEpoch := 0,
     p_incomingDataTotal := 0,
     p_outgoingDataTotal := 0,
     p_lastSendTime := 0,
     p_lastReceiveTime := 0,
     p_nextTimeout := 0,
     p_earliestTimeout := 0,
     p_packetLossEpoch := 0,
     p_packetsSent := 0,
     p_packetsLost := 0,
     p_packetLoss := 0,
     p_packetLossVariance := 0,
     p_packetThrottle := ENET_PEER_DEFAULT_PACKET_THROTTLE,
     p_packetThrottleLimit := ENET_PEER_PACKET_THROTTLE_SCALE,
     p_packetThrottleCounter := 0,
     p_packetThrottleEpoch := 0,
     p_packetThrottleAcceleration := ENET_PEER_PACKET_THROTTLE_ACCELERATION,
     p_packetThrottleDeceleration := ENET_PEER_PACKET_THROTTLE_DECELERATION,
     p_packetThrottleInterval := ENET_PEER_PACKET_THROTTLE_INTERVAL,
     p_pingInterval := ENET_PEER_PING_INTERVAL,
     p_timeoutLimit := ENET_PEER_TIMEOUT_LIMIT,
     p_timeoutMinimum := ENET_PEER_TIMEOUT_MINIMUM,
     p_timeoutMaximum := ENET_PEER_TIMEOUT_MAXIMUM,
     p_lastRoundTripTime := ENET_PEER_DEFAULT_ROUND_TRIP_TIME,
     p_lowestRoundTripTime := ENET_PEER_DEFAULT_ROUND_TRIP_TIME,
     p_lastRoundTripTimeVariance := 0,
     p_highestRoundTripTimeVariance := 0,
     p_roundTripTime := ENET_PEER_DEFAULT_ROUND_TRIP_TIME,
     p_roundTripTimeVariance := 0,
     p_mtu := h_mtu h,
     p_reliableDataInTransit := 0,
     p_outgoingReliableSequenceNumber := 0,
     p_windowSize := ENET_PROTOCOL_MAXIMUM_WINDOW_SIZE,
     p_incomingUnsequencedGroup := 0,
     p_outgoingUnsequencedGroup := 0,
     p_eventData := 0,
     p_totalWaitingData := 0,
     p_flags := 0,
     p_unsequencedWindow := replicate (ENET_PEER_UNSEQUENCED_WINDOW_SIZE div 32) 0\<rparr>"

definition enet_peer_reset :: "nat \<Rightarrow> host \<Rightarrow> host" where
  "enet_peer_reset i h =
    (let h = enet_peer_on_disconnect i h;
         h = upd_peer i (reset_fields h) h
     in enet_peer_reset_queues i h)"

definition enet_peer_disconnect_now :: "(host \<Rightarrow> host) \<Rightarrow> nat \<Rightarrow> u32 \<Rightarrow> host \<Rightarrow> host" where
  "enet_peer_disconnect_now flush i data h =
    (if p_state (peer_at h i) = Disconnected then h
     else
       let h = (if p_state (peer_at h i) \<noteq> Zombie \<and> p_state (peer_at h i) \<noteq> Disconnecting
                then
                  let h = enet_peer_reset_queues i h;
                      h = snd (enet_peer_queue_outgoing_command i
                            (command_on ENET_PROTOCOL_COMMAND_FLAG_UNSEQUENCED 0xFF (Disconnect data))
                            None 0 0 h)
                  in flush h
                else h)
       in enet_peer_reset i h)"

definition enet_peer_disconnect :: "(host \<Rightarrow> host) \<Rightarrow> nat \<Rightarrow> u32 \<Rightarrow> host \<Rightarrow> host" where
  "enet_peer_disconnect flush i data h =
    (let s = p_state (peer_at h i)
     in if s = Disconnecting \<or> s = Disconnected \<or> s = Acknowledging_Disconnect \<or> s = Zombie then h
        else
          let h = enet_peer_reset_queues i h;
              flag = (if s = Connected \<or> s = Disconnect_Later
                      then ENET_PROTOCOL_COMMAND_FLAG_ACKNOWLEDGE
                      else ENET_PROTOCOL_COMMAND_FLAG_UNSEQUENCED);
              h = snd (enet_peer_queue_outgoing_command i (command_on flag 0xFF (Disconnect data)) None 0 0 h)
          in if s = Connected \<or> s = Disconnect_Later
             then upd_peer i (\<lambda>p. p\<lparr>p_state := Disconnecting\<rparr>) (enet_peer_on_disconnect i h)
             else enet_peer_reset i (flush h))"

definition enet_peer_disconnect_later :: "(host \<Rightarrow> host) \<Rightarrow> nat \<Rightarrow> u32 \<Rightarrow> host \<Rightarrow> host" where
  "enet_peer_disconnect_later flush i data h =
    (let p = peer_at h i
     in if (p_state p = Connected \<or> p_state p = Disconnect_Later)
           \<and> \<not> (p_outgoingCommands p = [] \<and> p_sentReliableCommands p = [])
        then upd_peer i (\<lambda>p. p\<lparr>p_state := Disconnect_Later, p_eventData := data\<rparr>) h
        else enet_peer_disconnect flush i data h)"

section \<open>Accounting\<close>

text \<open>The counters of the host agree with the states of its peers.\<close>

definition acct_view :: "host \<Rightarrow> nat \<times> nat \<times> (peer_state \<times> u32) list" where
  "acct_view h = (h_connectedPeers h, h_bandwidthLimitedPeers h,
     map (\<lambda>p. (p_state p, p_incomingBandwidth p)) (h_peers h))"

definition conn :: "peer_state \<times> u32 \<Rightarrow> nat" where
  "conn v = of_bool (is_connected (fst v))"

definition limited :: "peer_state \<times> u32 \<Rightarrow> nat" where
  "limited v = of_bool (is_connected (fst v) \<and> snd v \<noteq> 0)"

definition accounted :: "host \<Rightarrow> bool" where
  "accounted h \<longleftrightarrow> (case acct_view h of (c, b, vs) \<Rightarrow>
     c = sum_list (map conn vs) \<and> b = sum_list (map limited vs))"

lemma acct_of_frame: "frame_view h' = frame_view h \<Longrightarrow> acct_view h' = acct_view h"
proof -
  assume "frame_view h' = frame_view h"
  then have f: "h_connectedPeers h' = h_connectedPeers h" "h_bandwidthLimitedPeers h' = h_bandwidthLimitedPeers h"
    "map peer_view (h_peers h') = map peer_view (h_peers h)" by (simp_all add: frame_view_def)
  have "map (\<lambda>v. (fst v, fst (snd v))) (map peer_view (h_peers h'))
      = map (\<lambda>v. (fst v, fst (snd v))) (map peer_view (h_peers h))" by (simp only: f(3))
  then show ?thesis by (simp add: acct_view_def f(1,2) peer_view_def comp_def)
qed

lemma accounted_cong: "acct_view h' = acct_view h \<Longrightarrow> accounted h' = accounted h"
  by (simp add: accounted_def)

text \<open>The one place where counters and a peer change together.\<close>

lemma accounted_upd:
  assumes a: "accounted h" and i: "i < length (h_peers h)"
    and p: "h_peers h' = upd_nth i f (h_peers h)"
    and c: "h_connectedPeers h' + of_bool (is_connected (p_state (peer_at h i)))
       = h_connectedPeers h + of_bool (is_connected (p_state (f (peer_at h i))))"
    and b: "h_bandwidthLimitedPeers h'
         + of_bool (is_connected (p_state (peer_at h i)) \<and> p_incomingBandwidth (peer_at h i) \<noteq> 0)
       = h_bandwidthLimitedPeers h
         + of_bool (is_connected (p_state (f (peer_at h i))) \<and> p_incomingBandwidth (f (peer_at h i)) \<noteq> 0)"
  shows "accounted h'"
proof -
  have s: "sum_list (map g (upd_nth i f (h_peers h))) + g (peer_at h i)
      = sum_list (map g (h_peers h)) + g (f (peer_at h i))" for g :: "peer \<Rightarrow> nat"
    using sum_list_upd_nth [OF i, of g f] by (simp add: peer_at_def)
  show ?thesis
    using a c b s [of "\<lambda>p. conn (p_state p, p_incomingBandwidth p)"]
      s [of "\<lambda>p. limited (p_state p, p_incomingBandwidth p)"]
    by (simp add: accounted_def acct_view_def p comp_def conn_def limited_def)
qed

lemma accounted_pos:
  assumes a: "accounted h" and i: "i < length (h_peers h)" and c: "is_connected (p_state (peer_at h i))"
  shows "0 < h_connectedPeers h" "p_incomingBandwidth (peer_at h i) \<noteq> 0 \<Longrightarrow> 0 < h_bandwidthLimitedPeers h"
proof -
  have "g (peer_at h i) \<le> sum_list (map g (h_peers h))" for g :: "peer \<Rightarrow> nat"
    using sum_list_nth_le [OF i] by (simp add: peer_at_def)
  from this [of "\<lambda>p. conn (p_state p, p_incomingBandwidth p)"]
    this [of "\<lambda>p. limited (p_state p, p_incomingBandwidth p)"]
  show "0 < h_connectedPeers h" "p_incomingBandwidth (peer_at h i) \<noteq> 0 \<Longrightarrow> 0 < h_bandwidthLimitedPeers h"
    using a c by (auto simp: accounted_def acct_view_def comp_def conn_def limited_def)
qed

text \<open>\<open>enet_peer_on_disconnect\<close> and a change of the peer that leaves it unconnected.\<close>

lemma on_disconnect_frame [simp]:
  "h_peers (enet_peer_on_disconnect i h) = h_peers h" "h_mem (enet_peer_on_disconnect i h) = h_mem h"
  "peer_at (enet_peer_on_disconnect i h) j = peer_at h j" "limits (enet_peer_on_disconnect i h) = limits h"
  "h_mtu (enet_peer_on_disconnect i h) = h_mtu h"
  "h_dispatchQueue (enet_peer_on_disconnect i h) = h_dispatchQueue h"
  "h_linkFault (enet_peer_on_disconnect i h) = h_linkFault h"
  by (simp_all add: enet_peer_on_disconnect_def Let_def limits_def peer_at_def)

lemma on_connect_frame [simp]:
  "h_peers (enet_peer_on_connect i h) = h_peers h" "h_mem (enet_peer_on_connect i h) = h_mem h"
  "peer_at (enet_peer_on_connect i h) j = peer_at h j" "limits (enet_peer_on_connect i h) = limits h"
  "h_dispatchQueue (enet_peer_on_connect i h) = h_dispatchQueue h"
  "h_linkFault (enet_peer_on_connect i h) = h_linkFault h"
  by (simp_all add: enet_peer_on_connect_def Let_def limits_def peer_at_def)

lemma accounted_disconnect:
  assumes a: "accounted h" and i: "i < length (h_peers h)"
    and d: "\<not> is_connected (p_state (f (peer_at h i)))"
  shows "accounted (upd_peer i f (enet_peer_on_disconnect i h))"
proof (rule accounted_upd [OF a i])
  show "h_peers (upd_peer i f (enet_peer_on_disconnect i h)) = upd_nth i f (h_peers h)" by simp
qed (use d accounted_pos [OF a i] in \<open>auto simp: enet_peer_on_disconnect_def Let_def is_connected_def sz_dec_def\<close>)

lemma accounted_connect:
  assumes a: "accounted h" and i: "i < length (h_peers h)"
    and d: "is_connected (p_state (f (peer_at h i)))" "p_incomingBandwidth (f (peer_at h i)) = p_incomingBandwidth (peer_at h i)"
  shows "accounted (upd_peer i f (enet_peer_on_connect i h))"
proof (rule accounted_upd [OF a i])
  show "h_peers (upd_peer i f (enet_peer_on_connect i h)) = upd_nth i f (h_peers h)" by simp
qed (use d in \<open>auto simp: enet_peer_on_connect_def Let_def is_connected_def\<close>)

section \<open>What a reset frees\<close>

lemma fold_channels_refs:
  "refs_ok m (channels_refs chs + M) \<Longrightarrow>
    refs_ok (fold (\<lambda>ch m. enet_peer_reset_incoming_commands (ch_incomingUnreliableCommands ch)
      (enet_peer_reset_incoming_commands (ch_incomingReliableCommands ch) m)) chs m) M"
proof (induction chs arbitrary: m)
  case (Cons ch chs)
  let ?m = "enet_peer_reset_incoming_commands (ch_incomingUnreliableCommands ch)
      (enet_peer_reset_incoming_commands (ch_incomingReliableCommands ch) m)"
  have "refs_ok m (in_refs (ch_incomingReliableCommands ch)
      + (in_refs (ch_incomingUnreliableCommands ch) + (channels_refs chs + M)))"
    using Cons.prems by (simp add: channels_refs_def channel_refs_def ac_simps)
  then have "refs_ok ?m (channels_refs chs + M)" by (intro reset_incoming_refs)
  then show ?case using Cons.IH by simp
qed simp

lemma reset_channels_refs:
  assumes ok: "channels_refs (drop (p_channelCount p) (p_channels p)) = {#}"
    and r: "refs_ok m (channels_refs (p_channels p) + M)"
  shows "refs_ok (reset_channels p m) M"
proof -
  have "channels_refs (p_channels p) = channels_refs (take (p_channelCount p) (p_channels p))
      + channels_refs (drop (p_channelCount p) (p_channels p))"
    unfolding channels_refs_def by (metis append_take_drop_id map_append sum_list_append)
  then have e: "channels_refs (p_channels p) = channels_refs (take (p_channelCount p) (p_channels p))"
    using ok by simp
  show ?thesis
  proof (cases "p_channels p \<noteq> [] \<and> p_channelCount p > 0")
    case True
    then show ?thesis using fold_channels_refs r e by (simp add: reset_channels_def)
  next
    case False
    then have "channels_refs (p_channels p) = {#}" using e by auto
    then show ?thesis using False r by (auto simp: reset_channels_def)
  qed
qed

lemma reset_all_refs:
  assumes ok: "channels_refs (drop (p_channelCount p) (p_channels p)) = {#}"
    and r: "refs_ok m (peer_refs p + M)"
  shows "refs_ok (reset_channels p (enet_peer_reset_incoming_commands (p_dispatchedCommands p)
    (enet_peer_reset_outgoing_commands (p_outgoingCommands p)
      (enet_peer_reset_outgoing_commands (p_sentUnreliableCommands p)
        (enet_peer_reset_outgoing_commands (p_sentReliableCommands p) m))))) M"
proof -
  have "refs_ok m (out_refs (p_sentReliableCommands p) + (out_refs (p_sentUnreliableCommands p)
    + (out_refs (p_outgoingCommands p) + (in_refs (p_dispatchedCommands p) + (channels_refs (p_channels p) + M)))))"
    using r by (simp add: peer_refs_def ac_simps)
  then show ?thesis
    by (intro reset_channels_refs [OF ok] reset_incoming_refs reset_outgoing_refs)
qed

lemma reset_queues_eq:
  obtains m q g where
    "enet_peer_reset_queues i h = upd_peer i (\<lambda>p. p\<lparr>p_flags := g (p_flags p), p_acknowledgements := [],
       p_sentReliableCommands := [], p_sentUnreliableCommands := [], p_outgoingCommands := [],
       p_dispatchedCommands := [], p_channels := [], p_channelCount := 0\<rparr>)
       (h\<lparr>h_dispatchQueue := q, h_mem := m\<rparr>)"
    "q = (if needs_dispatch (peer_at h i) then remove1 i (h_dispatchQueue h) else h_dispatchQueue h)"
    "g = (if needs_dispatch (peer_at h i) then (\<lambda>w. w AND NOT ENET_PEER_FLAG_NEEDS_DISPATCH) else (\<lambda>w. w))"
    "i < length (h_peers h) \<Longrightarrow>
     m = (let p = peer_at h i in
     reset_channels p (enet_peer_reset_incoming_commands (p_dispatchedCommands p)
    (enet_peer_reset_outgoing_commands (p_outgoingCommands p)
      (enet_peer_reset_outgoing_commands (p_sentUnreliableCommands p)
        (enet_peer_reset_outgoing_commands (p_sentReliableCommands p) (h_mem h))))))"
proof -
  let ?n = "needs_dispatch (peer_at h i)"
  let ?q = "if ?n then remove1 i (h_dispatchQueue h) else h_dispatchQueue h"
  define g :: "u16 \<Rightarrow> u16" where "g = (if ?n then (\<lambda>w. w AND NOT ENET_PEER_FLAG_NEEDS_DISPATCH) else (\<lambda>w. w))"
  let ?h = "if ?n then upd_peer i (\<lambda>p. p\<lparr>p_flags := p_flags p AND NOT ENET_PEER_FLAG_NEEDS_DISPATCH\<rparr>)
                     (h\<lparr>h_dispatchQueue := remove1 i (h_dispatchQueue h)\<rparr>) else h"
  let ?p = "peer_at ?h i"
  let ?m = "reset_channels ?p (enet_peer_reset_incoming_commands (p_dispatchedCommands ?p)
    (enet_peer_reset_outgoing_commands (p_outgoingCommands ?p)
      (enet_peer_reset_outgoing_commands (p_sentUnreliableCommands ?p)
        (enet_peer_reset_outgoing_commands (p_sentReliableCommands ?p) (h_mem ?h)))))"
  have "?h = upd_peer i (\<lambda>p. p\<lparr>p_flags := g (p_flags p)\<rparr>) (h\<lparr>h_dispatchQueue := ?q\<rparr>)"
    by (cases ?n) (simp_all add: g_def upd_peer_def upd_nth_def)
  then have "enet_peer_reset_queues i h = upd_peer i (\<lambda>p. p\<lparr>p_flags := g (p_flags p), p_acknowledgements := [],
       p_sentReliableCommands := [], p_sentUnreliableCommands := [], p_outgoingCommands := [],
       p_dispatchedCommands := [], p_channels := [], p_channelCount := 0\<rparr>)
       (h\<lparr>h_dispatchQueue := ?q, h_mem := ?m\<rparr>)"
    unfolding enet_peer_reset_queues_def Let_def by (simp add: upd_peer_def)
  moreover have "i < length (h_peers h) \<Longrightarrow> ?m = (let p = peer_at h i in
     reset_channels p (enet_peer_reset_incoming_commands (p_dispatchedCommands p)
    (enet_peer_reset_outgoing_commands (p_outgoingCommands p)
      (enet_peer_reset_outgoing_commands (p_sentUnreliableCommands p)
        (enet_peer_reset_outgoing_commands (p_sentReliableCommands p) (h_mem h))))))"
    by (cases ?n) (simp_all add: Let_def reset_channels_def peer_at_def upd_peer_def)
  ultimately show ?thesis using that [of g ?m ?q] g_def by blast
qed

lemma reset_queues_safe:
  assumes s: "memory_safe h" and i: "i < length (h_peers h)"
  shows "memory_safe (enet_peer_reset_queues i h)"
proof (rule reset_queues_eq [of i h])
  fix m q g
  let ?f = "\<lambda>p :: peer. p\<lparr>p_flags := g (p_flags p), p_acknowledgements := [],
       p_sentReliableCommands := [], p_sentUnreliableCommands := [], p_outgoingCommands := [],
       p_dispatchedCommands := [], p_channels := [], p_channelCount := 0\<rparr>"
  assume eq: "enet_peer_reset_queues i h = upd_peer i ?f (h\<lparr>h_dispatchQueue := q, h_mem := m\<rparr>)"
    and m: "i < length (h_peers h) \<Longrightarrow> m = (let p = peer_at h i in
     reset_channels p (enet_peer_reset_incoming_commands (p_dispatchedCommands p)
    (enet_peer_reset_outgoing_commands (p_outgoingCommands p)
      (enet_peer_reset_outgoing_commands (p_sentUnreliableCommands p)
        (enet_peer_reset_outgoing_commands (p_sentReliableCommands p) (h_mem h))))))"
  note a = memory_safe_at [OF s i]
  have at: "peer_at (upd_peer i ?f (h\<lparr>h_dispatchQueue := q, h_mem := m\<rparr>)) i = ?f (peer_at h i)"
    using i by (simp add: peer_at_def)
  have r: "refs_ok m (others i h)"
    unfolding m [OF i] Let_def using a by (intro reset_all_refs) (simp_all add: safe_at_def peer_ok_def)
  show ?thesis unfolding eq
  proof (rule memory_safe_upd [OF s i, of _ ?f])
    show "peer_ok (peer_at (upd_peer i ?f (h\<lparr>h_dispatchQueue := q, h_mem := m\<rparr>)) i)"
      unfolding at using a by (auto simp: peer_ok_defs idle_def intro: traffic_ok_cleared)
    show "refs_ok (h_mem (upd_peer i ?f (h\<lparr>h_dispatchQueue := q, h_mem := m\<rparr>)))
       (peer_refs (peer_at (upd_peer i ?f (h\<lparr>h_dispatchQueue := q, h_mem := m\<rparr>)) i) + others i h)"
      unfolding at using r by (simp add: peer_refs_def)
  qed (simp_all add: limits_def)
qed

lemma reset_queues_acct [acct_simps]: "acct_view (enet_peer_reset_queues i h) = acct_view h"
  by (rule reset_queues_eq [of i h]) (simp add: acct_view_def map_upd_nth_same)

lemma reset_queues_peer:
  "i < length (h_peers h) \<Longrightarrow> \<exists>w. peer_at (enet_peer_reset_queues i h) i
     = (peer_at h i)\<lparr>p_flags := w, p_acknowledgements := [], p_sentReliableCommands := [],
         p_sentUnreliableCommands := [], p_outgoingCommands := [], p_dispatchedCommands := [],
         p_channels := [], p_channelCount := 0\<rparr>"
proof (rule reset_queues_eq [of i h])
  fix m q g
  assume i: "i < length (h_peers h)" and "enet_peer_reset_queues i h = upd_peer i (\<lambda>p. p\<lparr>p_flags := g (p_flags p),
       p_acknowledgements := [],
       p_sentReliableCommands := [], p_sentUnreliableCommands := [], p_outgoingCommands := [],
       p_dispatchedCommands := [], p_channels := [], p_channelCount := 0\<rparr>)
       (h\<lparr>h_dispatchQueue := q, h_mem := m\<rparr>)"
  then show ?thesis by (intro exI [of _ "g (p_flags (peer_at h i))"]) (simp add: peer_at_def)
qed

lemma reset_queues_length [simp]: "length (h_peers (enet_peer_reset_queues i h)) = length (h_peers h)"
  by (rule reset_queues_eq [of i h]) simp

lemma reset_safe:
  assumes s: "memory_safe h" and i: "i < length (h_peers h)"
  shows "memory_safe (enet_peer_reset i h)"
proof -
  let ?d = "enet_peer_on_disconnect i h"
  let ?r = "reset_fields ?d"
  let ?h = "upd_peer i ?r ?d"
  have eq: "enet_peer_reset i h = enet_peer_reset_queues i ?h" by (simp add: enet_peer_reset_def Let_def)
  note a = memory_safe_at [OF s i]
  show ?thesis
  proof (rule reset_queues_eq [of i ?h])
    fix m q g
    let ?f = "\<lambda>p :: peer. p\<lparr>p_flags := g (p_flags p), p_acknowledgements := [],
       p_sentReliableCommands := [], p_sentUnreliableCommands := [], p_outgoingCommands := [],
       p_dispatchedCommands := [], p_channels := [], p_channelCount := 0\<rparr>"
    assume e: "enet_peer_reset_queues i ?h = upd_peer i ?f (?h\<lparr>h_dispatchQueue := q, h_mem := m\<rparr>)"
      and m: "i < length (h_peers ?h) \<Longrightarrow> m = (let p = peer_at ?h i in
     reset_channels p (enet_peer_reset_incoming_commands (p_dispatchedCommands p)
    (enet_peer_reset_outgoing_commands (p_outgoingCommands p)
      (enet_peer_reset_outgoing_commands (p_sentUnreliableCommands p)
        (enet_peer_reset_outgoing_commands (p_sentReliableCommands p) (h_mem ?h))))))"
    let ?h' = "upd_peer i ?f (?h\<lparr>h_dispatchQueue := q, h_mem := m\<rparr>)"
    have pr: "peer_refs (?r (peer_at h i)) = peer_refs (peer_at h i)"
      by (simp add: reset_fields_def peer_refs_def)
    have "i < length (h_peers ?h)" using i by simp
    then have r: "refs_ok m (others i h)"
      using m a i pr by (simp add: Let_def) (intro reset_all_refs;
        simp add: safe_at_def peer_ok_def reset_fields_def)
    have p: "peer_at ?h' i = ?f (?r (peer_at h i))" using i by (simp add: peer_at_def)
    have "mtu_ok (h_mtu h)" using s by (simp add: memory_safe_def limits_ok_def limits_def)
    then have "peer_ok (peer_at ?h' i)" unfolding p by (simp add: peer_ok_defs reset_fields_def traffic_ok_empty ENET_PEER_DEFAULT_ROUND_TRIP_TIME_def)
    moreover have "refs_ok (h_mem ?h') (peer_refs (peer_at ?h' i) + others i h)"
      unfolding p using r by (simp add: peer_refs_def)
    moreover have "h_peers ?h' = upd_nth i (\<lambda>p. ?f (?r p)) (h_peers h)" "limits ?h' = limits h"
      by (simp_all add: limits_def enet_peer_on_disconnect_def Let_def)
    ultimately show ?thesis unfolding eq e using memory_safe_upd [OF s i] by blast
  qed
qed

lemma reset_length [simp]: "length (h_peers (enet_peer_reset i h)) = length (h_peers h)"
  by (simp add: enet_peer_reset_def Let_def)

lemma reset_accounted:
  assumes "accounted h" "i < length (h_peers h)"
  shows "accounted (enet_peer_reset i h)"
proof -
  have "accounted (upd_peer i (reset_fields (enet_peer_on_disconnect i h)) (enet_peer_on_disconnect i h))"
    by (rule accounted_disconnect) (use assms in \<open>simp_all add: reset_fields_def is_connected_def\<close>)
  then show ?thesis by (simp add: enet_peer_reset_def Let_def accounted_cong [OF reset_queues_acct])
qed

section \<open>The dispatch queue\<close>

text \<open>
  Receiving changes what the accounting and the dispatch queue depend on in one way only: it
  may link the peer.
\<close>

definition marks :: "nat \<Rightarrow> host \<Rightarrow> host \<Rightarrow> bool" where
  "marks i h h' \<longleftrightarrow> frame_view h' = frame_view h \<or> frame_view h' = frame_view (mark_dispatch i h)"

lemma marks_refl: "frame_view h' = frame_view h \<Longrightarrow> marks i h h'"
  by (simp add: marks_def)

lemma frame_view_mark_cong:
  assumes f: "frame_view h' = frame_view h" and i: "i < length (h_peers h)"
  shows "frame_view (mark_dispatch i h') = frame_view (mark_dispatch i h)"
proof -
  have l: "length (h_peers h') = length (h_peers h)" by (rule frame_view_length [OF f])
  have v: "map peer_view (h_peers h') = map peer_view (h_peers h)" "h_dispatchQueue h' = h_dispatchQueue h"
    "h_linkFault h' = h_linkFault h" "h_connectedPeers h' = h_connectedPeers h"
    "h_bandwidthLimitedPeers h' = h_bandwidthLimitedPeers h" using f by (simp_all add: frame_view_def)
  have "peer_view (peer_at h' i) = peer_view (peer_at h i)"
    using v(1) i l by (metis nth_map peer_at_def)
  then have fl: "p_flags (peer_at h' i) = p_flags (peer_at h i)" "needs_dispatch (peer_at h' i) = needs_dispatch (peer_at h i)"
    by (simp_all add: peer_view_def needs_dispatch_def)
  have "map peer_view (upd_nth i (\<lambda>p. p\<lparr>p_flags := p_flags p OR w\<rparr>) ps)
      = upd_nth i (\<lambda>(s, b, fl). (s, b, fl OR w)) (map peer_view ps)" if "i < length ps" for ps :: "peer list" and w
    using that by (simp add: upd_nth_def map_update peer_view_def)
  then show ?thesis using v fl i l by (simp add: mark_dispatch_def frame_view_def)
qed

lemma mark_dispatch_twice:
  "i < length (h_peers h) \<Longrightarrow> mark_dispatch i (mark_dispatch i h) = mark_dispatch i h"
proof -
  assume i: "i < length (h_peers h)"
  have "needs_dispatch (peer_at (mark_dispatch i h) i)"
  proof (cases "needs_dispatch (peer_at h i)")
    case False
    have "(w OR ENET_PEER_FLAG_NEEDS_DISPATCH) AND ENET_PEER_FLAG_NEEDS_DISPATCH = 1" for w :: u16
      unfolding ENET_PEER_FLAG_NEEDS_DISPATCH_def
      by (rule bit_eqI) (auto simp: bit_and_iff bit_or_iff bit_1_iff)
    then show ?thesis using False i by (simp add: mark_dispatch_def needs_dispatch_def peer_at_def)
  qed (simp add: mark_dispatch_def)
  then show ?thesis by (simp add: mark_dispatch_def [of i "mark_dispatch i h"])
qed

lemma marks_trans:
  assumes "marks i h h1" "marks i h1 h2" "i < length (h_peers h)"
  shows "marks i h h2"
proof -
  have l: "i < length (h_peers h1)"
    using assms frame_view_length [of h1 h] frame_view_length [of h1 "mark_dispatch i h"] by (auto simp: marks_def)
  consider "frame_view h1 = frame_view h" | "frame_view h1 = frame_view (mark_dispatch i h)"
    using assms(1) by (auto simp: marks_def)
  then show ?thesis
  proof cases
    case 1
    then show ?thesis using assms frame_view_mark_cong [OF 1 assms(3)] by (auto simp: marks_def)
  next
    case 2
    have "frame_view (mark_dispatch i h1) = frame_view (mark_dispatch i h)"
      using frame_view_mark_cong [OF 2] assms(3) mark_dispatch_twice by simp
    then show ?thesis using 2 assms(2) by (auto simp: marks_def)
  qed
qed

lemma marks_mark: "marks i h (mark_dispatch i h)"
  by (simp add: marks_def)

lemma mark_acct [acct_simps]: "acct_view (mark_dispatch i h) = acct_view h"
  by (simp add: mark_dispatch_def acct_view_def map_upd_nth_same)

lemma marks_acct: "marks i h h' \<Longrightarrow> acct_view h' = acct_view h"
  using acct_of_frame mark_acct by (metis marks_def)

lemma peer_view_channel [simp]: "peer_view (upd_channel c f p) = peer_view p"
  "peer_view (p\<lparr>p_dispatchedCommands := d\<rparr>) = peer_view p" "peer_view (p\<lparr>p_totalWaitingData := w\<rparr>) = peer_view p"
  by (simp_all add: peer_view_def)

lemma dispatch_unreliable_marks:
  assumes "i < length (h_peers h)"
  shows "marks i h (enet_peer_dispatch_incoming_unreliable_commands i c ex h)"
proof (rule dispatch_unreliable_unfold [of h i c ex])
  fix moved pending m and f :: "channel \<Rightarrow> channel"
  let ?h = "upd_peer i (\<lambda>p. upd_channel c f
             (p\<lparr>p_dispatchedCommands := p_dispatchedCommands p @ (moved @ pending)\<rparr>)) (h\<lparr>h_mem := m\<rparr>)"
  assume eq: "enet_peer_dispatch_incoming_unreliable_commands i c ex h =
      (let h = ?h in if moved @ pending \<noteq> [] then mark_dispatch i h else h)"
  have v: "frame_view ?h = frame_view h" by (simp add: frame_view_upd_peer)
  then show ?thesis
    using frame_view_mark_cong [OF v assms] unfolding eq Let_def marks_def by presburger
qed

lemma dispatch_reliable_marks:
  assumes i: "i < length (h_peers h)"
  shows "marks i h (enet_peer_dispatch_incoming_reliable_commands i c ex h)"
proof -
  obtain f where f: "\<And>p. peer_view (f p) = peer_view p"
    "enet_peer_dispatch_incoming_reliable_commands i c ex h \<in>
      {h, mark_dispatch i (upd_peer i f h),
       enet_peer_dispatch_incoming_unreliable_commands i c ex (mark_dispatch i (upd_peer i f h))}"
  proof -
    obtain cur ready rest where sc: "reliable_scan (ch_incomingReliableSequenceNumber (channel_at (peer_at h i) c))
      (ch_incomingReliableCommands (channel_at (peer_at h i) c)) = (cur, ready, rest)" by (metis prod_cases3)
    show ?thesis
      by (rule that [of "\<lambda>p. upd_channel c (\<lambda>ch. ch\<lparr>ch_incomingReliableSequenceNumber := cur,
            ch_incomingUnreliableSequenceNumber := 0, ch_incomingReliableCommands := rest\<rparr>)
            (p\<lparr>p_dispatchedCommands := p_dispatchedCommands p @ ready\<rparr>)"])
        (simp_all add: enet_peer_dispatch_incoming_reliable_commands_def Let_def sc)
  qed
  let ?h = "upd_peer i f h"
  have 1: "marks i h ?h" by (rule marks_refl, rule frame_view_upd_peer, rule f(1))
  have 2: "marks i h (mark_dispatch i ?h)" by (rule marks_trans [OF 1 marks_mark i])
  have "marks i h (enet_peer_dispatch_incoming_unreliable_commands i c ex (mark_dispatch i ?h))"
    by (rule marks_trans [OF 2 dispatch_unreliable_marks i]) (use i in simp)
  then show ?thesis using f(2) 1 2 marks_refl [of h h i] by auto
qed

lemma queue_incoming_marks:
  assumes i: "i < length (h_peers h)"
  shows "marks i h (snd (enet_peer_queue_incoming_command i command data n flags fragmentCount h))"
proof -
  let ?chan = "unat (hd_channelID (pr_header command))"
  obtain u place where pl: "incoming_place command (channel_at (peer_at h i) ?chan) = (u, place)" by fastforce
  obtain res m where cr: "enet_packet_create data n flags (h_mem h) = (res, m)" by fastforce
  obtain ok h2 where m2: "host_malloc (h\<lparr>h_mem := m\<rparr>) = (ok, h2)" by fastforce
  obtain ok' h3 where m3: "(if fragmentCount > 0 then if unat fragmentCount \<le> ENET_PROTOCOL_MAXIMUM_FRAGMENT_COUNT
      then host_malloc h2 else (False, h2) else (True, h2)) = (ok', h3)" by fastforce
  have v2: "frame_view h2 = frame_view h" using host_mallocs_frame(6) [OF m2] by simp
  have v3: "frame_view h3 = frame_view h" using m3 v2 host_mallocs_frame(6) [of h2] by (auto split: if_splits)
  have enq: "frame_view (enqueue_incoming i c rel pos cmd (upd_peer i (\<lambda>p. p\<lparr>p_totalWaitingData := w p\<rparr>) (upd_mem g h3)))
      = frame_view h" for c rel pos cmd w g
    unfolding enqueue_incoming_def using v3 by (simp add: frame_view_upd_peer)
  have d: "marks i h (enet_peer_dispatch_incoming_reliable_commands i c ex
        (enqueue_incoming i c' rel pos cmd (upd_peer i (\<lambda>p. p\<lparr>p_totalWaitingData := w p\<rparr>) (upd_mem g h3))))"
    "marks i h (enet_peer_dispatch_incoming_unreliable_commands i c ex
        (enqueue_incoming i c' rel pos cmd (upd_peer i (\<lambda>p. p\<lparr>p_totalWaitingData := w p\<rparr>) (upd_mem g h3))))"
    for c c' ex rel pos cmd w g
    by (rule marks_trans [OF marks_refl [OF enq] _ i], rule dispatch_reliable_marks,
        use i frame_view_length [OF enq] in simp,
        rule marks_trans [OF marks_refl [OF enq] _ i], rule dispatch_unreliable_marks,
        use i frame_view_length [OF enq] in simp)
  show ?thesis
    using v2 v3 d m3
    by (auto simp: enet_peer_queue_incoming_command_def Let_def pl cr m2 marks_refl split: option.splits)
qed

lemma receive_frame [simp, frame_simps]: "frame_view (snd (enet_peer_receive i h)) = frame_view h"
  by (auto simp: enet_peer_receive_def Let_def frame_view_upd_peer split: list.split option.split)

section \<open>The contract of flushing\<close>

text \<open>
  \<open>host_ok\<close> is what every operation on a host keeps.  The functions here call
  \<open>enet_host_flush\<close>; all they need of it is that it keeps \<open>host_ok\<close> and the array of peers.
\<close>

definition linked_ok :: "host \<Rightarrow> bool" where
  "linked_ok h \<longleftrightarrow> (\<forall>i \<in> set (h_dispatchQueue h). i < length (h_peers h))"

definition host_ok :: "host \<Rightarrow> bool" where
  "host_ok h \<longleftrightarrow> memory_safe h \<and> accounted h \<and> linked_ok h"

lemma host_okI: "memory_safe h \<Longrightarrow> accounted h \<Longrightarrow> linked_ok h \<Longrightarrow> host_ok h"
  by (simp add: host_ok_def)

lemma host_ok_memory: "host_ok h \<Longrightarrow> memory_safe h"
  by (simp add: host_ok_def)

lemma host_ok_accounted: "host_ok h \<Longrightarrow> accounted h"
  by (simp add: host_ok_def)

lemma host_ok_linked: "host_ok h \<Longrightarrow> linked_ok h"
  by (simp add: host_ok_def)

lemma linked_ok_subset: "linked_ok h \<Longrightarrow> set (h_dispatchQueue h') \<subseteq> set (h_dispatchQueue h) \<Longrightarrow>
    length (h_peers h') = length (h_peers h) \<Longrightarrow> linked_ok h'"
  by (auto simp: linked_ok_def)

lemma acct_view_length: "acct_view h' = acct_view h \<Longrightarrow> length (h_peers h') = length (h_peers h)"
  by (auto simp: acct_view_def dest: map_eq_imp_length_eq)

lemma host_ok_view: "host_ok h \<Longrightarrow> memory_safe h' \<Longrightarrow> acct_view h' = acct_view h \<Longrightarrow>
    set (h_dispatchQueue h') \<subseteq> set (h_dispatchQueue h) \<Longrightarrow> host_ok h'"
  using accounted_cong linked_ok_subset acct_view_length unfolding host_ok_def by blast

lemma host_ok_frame: "host_ok h \<Longrightarrow> memory_safe h' \<Longrightarrow> frame_view h' = frame_view h \<Longrightarrow> host_ok h'"
  using host_ok_view [of h h'] acct_of_frame [of h' h] by (auto simp: frame_view_def)

lemma linked_ok_mark: "linked_ok h \<Longrightarrow> i < length (h_peers h) \<Longrightarrow> linked_ok (mark_dispatch i h)"
  by (auto simp: linked_ok_def mark_dispatch_def)

lemma host_ok_mark: "host_ok h \<Longrightarrow> i < length (h_peers h) \<Longrightarrow> host_ok (mark_dispatch i h)"
  using accounted_cong [OF mark_acct] linked_ok_mark unfolding host_ok_def by simp

text \<open>What links the peer at most keeps \<open>host_ok\<close> if it keeps the memory safe.\<close>

lemma host_ok_marks:
  assumes "host_ok h" "memory_safe h'" "marks i h h'" "i < length (h_peers h)"
  shows "host_ok h'"
proof -
  consider "frame_view h' = frame_view h" | "frame_view h' = frame_view (mark_dispatch i h)"
    using assms(3) by (auto simp: marks_def)
  then show ?thesis
    using host_ok_frame assms(1,2) host_ok_mark [OF assms(1,4)] by cases blast+
qed

lemma reset_queues_queue: "set (h_dispatchQueue (enet_peer_reset_queues i h)) \<subseteq> set (h_dispatchQueue h)"
  by (rule reset_queues_eq [of i h]) (use set_remove1_subset in \<open>fastforce split: if_splits\<close>)

lemma reset_linked: "linked_ok h \<Longrightarrow> linked_ok (enet_peer_reset i h)"
  using reset_queues_queue [of i "upd_peer i (reset_fields (enet_peer_on_disconnect i h)) (enet_peer_on_disconnect i h)"]
  by (auto simp: linked_ok_def enet_peer_reset_def Let_def)

lemma host_ok_reset: "host_ok h \<Longrightarrow> i < length (h_peers h) \<Longrightarrow> host_ok (enet_peer_reset i h)"
  using reset_safe reset_accounted reset_linked unfolding host_ok_def by blast

lemma host_ok_reset_queues: "host_ok h \<Longrightarrow> i < length (h_peers h) \<Longrightarrow> host_ok (enet_peer_reset_queues i h)"
  using host_ok_view reset_queues_safe reset_queues_acct reset_queues_queue host_ok_memory by blast

lemma queue_outgoing_length [simp]:
  "length (h_peers (snd (enet_peer_queue_outgoing_command i c packet off n h))) = length (h_peers h)"
  by (rule frame_view_length) simp

lemma host_ok_queue_outgoing:
  "host_ok h \<Longrightarrow> i < length (h_peers h) \<Longrightarrow> control_command c \<Longrightarrow>
    host_ok (snd (enet_peer_queue_outgoing_command i c None off 0 h))"
  using host_ok_frame queue_outgoing_safe [OF host_ok_memory] queue_outgoing_frame by blast

text \<open>
  Several operations move a peer from one state to another, or change fields that no invariant
  is about.
\<close>

lemma memory_safe_on_disconnect [simp]: "memory_safe (enet_peer_on_disconnect i h) = memory_safe h"
  by (rule memory_safe_cong) simp_all

lemma memory_safe_on_connect [simp]: "memory_safe (enet_peer_on_connect i h) = memory_safe h"
  by (rule memory_safe_cong) simp_all

lemma host_ok_disconnect_state:
  assumes h: "host_ok h" and i: "i < length (h_peers h)"
    and f: "peer_refs (f (peer_at h i)) = peer_refs (peer_at h i)"
      "peer_ok (peer_at h i) \<Longrightarrow> peer_ok (f (peer_at h i))" "\<not> is_connected (p_state (f (peer_at h i)))"
  shows "host_ok (upd_peer i f (enet_peer_on_disconnect i h))"
  using h f accounted_disconnect [OF host_ok_accounted [OF h] i, of f]
    memory_safe_peer [of "enet_peer_on_disconnect i h" f i]
  by (simp add: host_ok_def linked_ok_def)

lemma host_ok_connect_state:
  assumes h: "host_ok h" and i: "i < length (h_peers h)"
    and f: "peer_refs (f (peer_at h i)) = peer_refs (peer_at h i)"
      "peer_ok (peer_at h i) \<Longrightarrow> peer_ok (f (peer_at h i))" "is_connected (p_state (f (peer_at h i)))"
      "p_incomingBandwidth (f (peer_at h i)) = p_incomingBandwidth (peer_at h i)"
  shows "host_ok (upd_peer i f (enet_peer_on_connect i h))"
  using h f accounted_connect [OF host_ok_accounted [OF h] i, of f]
    memory_safe_peer [of "enet_peer_on_connect i h" f i]
  by (simp add: host_ok_def linked_ok_def)

lemma host_ok_peer:
  assumes h: "host_ok h" and i: "i < length (h_peers h)"
    and f: "peer_refs (f (peer_at h i)) = peer_refs (peer_at h i)"
      "peer_ok (peer_at h i) \<Longrightarrow> peer_ok (f (peer_at h i))"
      "is_connected (p_state (f (peer_at h i))) = is_connected (p_state (peer_at h i))"
      "is_connected (p_state (peer_at h i)) \<Longrightarrow>
         (p_incomingBandwidth (f (peer_at h i)) = 0) = (p_incomingBandwidth (peer_at h i) = 0)"
  shows "host_ok (upd_peer i f h)"
proof (rule host_okI)
  show "memory_safe (upd_peer i f h)" using h f by (intro memory_safe_peer) (simp_all add: host_ok_def)
  show "accounted (upd_peer i f h)"
    by (rule accounted_upd [OF host_ok_accounted [OF h] i, of _ f]) (use f in auto)
  show "linked_ok (upd_peer i f h)" using h by (simp add: host_ok_def linked_ok_def)
qed

locale host_flush =
  fixes flush :: "host \<Rightarrow> host"
  assumes flush_ok: "host_ok h \<Longrightarrow> host_ok (flush h)"
    and flush_length: "host_ok h \<Longrightarrow> length (h_peers (flush h)) = length (h_peers h)"
begin

lemma disconnect_now_ok:
  "host_ok h \<Longrightarrow> i < length (h_peers h) \<Longrightarrow> host_ok (enet_peer_disconnect_now flush i data h)"
  by (simp add: enet_peer_disconnect_now_def Let_def host_ok_reset host_ok_reset_queues
      host_ok_queue_outgoing flush_ok flush_length)

lemma disconnect_ok:
  assumes h: "host_ok h" and i: "i < length (h_peers h)"
  shows "host_ok (enet_peer_disconnect flush i data h)"
proof -
  let ?h = "\<lambda>fl. snd (enet_peer_queue_outgoing_command i (command_on fl 0xFF (Disconnect data)) None 0 0
      (enet_peer_reset_queues i h))"
  define ok_flag where "ok_flag fl \<longleftrightarrow> fl = ENET_PROTOCOL_COMMAND_FLAG_ACKNOWLEDGE \<or> fl = ENET_PROTOCOL_COMMAND_FLAG_UNSEQUENCED" for fl
  have ok: "ok_flag fl \<Longrightarrow> host_ok (?h fl)" "i < length (h_peers (?h fl))" for fl
    using h i by (auto simp: ok_flag_def host_ok_queue_outgoing host_ok_reset_queues)
  have "host_ok (upd_peer i (\<lambda>p. p\<lparr>p_state := Disconnecting\<rparr>) (enet_peer_on_disconnect i (?h fl)))" if "ok_flag fl" for fl
    by (rule host_ok_disconnect_state [OF ok(1) [OF that] ok(2)])
      (auto simp: is_connected_def peer_refs_def peer_ok_defs idle_def intro: traffic_ok_connected)
  then show ?thesis
    using h ok by (simp add: enet_peer_disconnect_def Let_def host_ok_reset flush_ok flush_length ok_flag_def)
qed

lemma disconnect_later_ok:
  assumes h: "host_ok h" and i: "i < length (h_peers h)"
  shows "host_ok (enet_peer_disconnect_later flush i data h)"
proof -
  have "is_connected (p_state (peer_at h i)) \<Longrightarrow>
      host_ok (upd_peer i (\<lambda>p. p\<lparr>p_state := Disconnect_Later, p_eventData := data\<rparr>) h)"
    by (rule host_ok_peer [OF h i])
      (auto simp: is_connected_def peer_refs_def peer_ok_defs idle_def intro: traffic_ok_connected)
  then show ?thesis
    using disconnect_ok [OF h i] by (auto simp: enet_peer_disconnect_later_def Let_def is_connected_def)
qed

lemma disconnect_length:
  assumes h: "host_ok h" and i: "i < length (h_peers h)"
  shows "length (h_peers (enet_peer_disconnect flush i data h)) = length (h_peers h)"
    "length (h_peers (enet_peer_disconnect_later flush i data h)) = length (h_peers h)"
    "length (h_peers (enet_peer_disconnect_now flush i data h)) = length (h_peers h)"
proof -
  have "host_ok (snd (enet_peer_queue_outgoing_command i (command_on fl 0xFF (Disconnect data)) None 0 0
      (enet_peer_reset_queues i h)))"
    if "fl = ENET_PROTOCOL_COMMAND_FLAG_ACKNOWLEDGE \<or> fl = ENET_PROTOCOL_COMMAND_FLAG_UNSEQUENCED" for fl
    using h i that by (auto simp: host_ok_queue_outgoing host_ok_reset_queues)
  from this [of ENET_PROTOCOL_COMMAND_FLAG_ACKNOWLEDGE] this [of ENET_PROTOCOL_COMMAND_FLAG_UNSEQUENCED]
  show "length (h_peers (enet_peer_disconnect flush i data h)) = length (h_peers h)"
    "length (h_peers (enet_peer_disconnect_now flush i data h)) = length (h_peers h)"
    by (simp_all add: enet_peer_disconnect_def enet_peer_disconnect_now_def Let_def flush_length)
  then show "length (h_peers (enet_peer_disconnect_later flush i data h)) = length (h_peers h)"
    by (simp add: enet_peer_disconnect_later_def Let_def)
qed

end

text \<open>When a peer disconnects at the end of its queue, nothing is flushed.\<close>

lemma disconnect_without_flush:
  "p_state (peer_at h i) = Disconnect_Later \<Longrightarrow>
    enet_peer_disconnect flush i data h = enet_peer_disconnect flush' i data h"
  by (simp add: enet_peer_disconnect_def Let_def)

interpretation no_flush: host_flush "\<lambda>h. h"
  by unfold_locales simp_all

lemma disconnect_no_flush_length [simp]:
  "length (h_peers (enet_peer_disconnect (\<lambda>h. h) i data h)) = length (h_peers h)"
  by (simp add: enet_peer_disconnect_def Let_def)

section \<open>Properties\<close>


definition one_connected :: host where
  "one_connected = (connected_pair 10)\<lparr>h_connectedPeers := 1\<rparr>"

lemma one_connected_ok: "memory_safe one_connected" "accounted one_connected" "0 < length (h_peers one_connected)"
  by (simp_all add: one_connected_def connected_pair_simps memory_safe_def held_def peer_refs_def
      channels_refs_def channel_refs_def zero_channel_def refs_ok_def peer_ok_defs traffic_ok_empty idle_def
      mtu_ok_def limits_ok_def limits_def buffer_holds_def channel_cmds_def accounted_def acct_view_def conn_def limited_def is_connected_def)


text \<open>
  The dispatch queue is sound when it links exactly the peers whose flag says so, each once.
\<close>

definition links_ok :: "host \<Rightarrow> bool" where
  "links_ok h \<longleftrightarrow> \<not> h_linkFault h \<and> distinct (h_dispatchQueue h) \<and>
     (\<forall>i < length (h_peers h). needs_dispatch (peer_at h i) = (i \<in> set (h_dispatchQueue h)))"

lemma links_ok_frame: "frame_view h' = frame_view h \<Longrightarrow> links_ok h' = links_ok h"
proof -
  assume f: "frame_view h' = frame_view h"
  then have v: "map peer_view (h_peers h') = map peer_view (h_peers h)" "h_dispatchQueue h' = h_dispatchQueue h"
    "h_linkFault h' = h_linkFault h" by (simp_all add: frame_view_def)
  have "i < length (h_peers h) \<Longrightarrow> needs_dispatch (peer_at h' i) = needs_dispatch (peer_at h i)" for i
  proof -
    assume "i < length (h_peers h)"
    then have "peer_view (peer_at h' i) = peer_view (peer_at h i)"
      using v(1) frame_view_length [OF f] by (metis nth_map peer_at_def)
    then show ?thesis by (simp add: needs_dispatch_def peer_view_def)
  qed
  then show ?thesis using v frame_view_length [OF f] by (simp add: links_ok_def)
qed

lemma flag_set: "(w OR ENET_PEER_FLAG_NEEDS_DISPATCH) AND ENET_PEER_FLAG_NEEDS_DISPATCH = 1"
  unfolding ENET_PEER_FLAG_NEEDS_DISPATCH_def
  by (rule bit_eqI) (auto simp: bit_and_iff bit_or_iff bit_1_iff)

lemma flag_cleared: "(w AND NOT ENET_PEER_FLAG_NEEDS_DISPATCH) AND ENET_PEER_FLAG_NEEDS_DISPATCH = 0"
  unfolding ENET_PEER_FLAG_NEEDS_DISPATCH_def
  by (rule bit_eqI) (auto simp: bit_and_iff bit_not_iff bit_1_iff)

lemma links_ok_mark:
  assumes l: "links_ok h" and i: "i < length (h_peers h)"
  shows "links_ok (mark_dispatch i h)"
proof (cases "needs_dispatch (peer_at h i)")
  case True
  then show ?thesis using l by (simp add: mark_dispatch_def)
next
  case False
  have "needs_dispatch (peer_at (mark_dispatch i h) j) = (j = i \<or> needs_dispatch (peer_at h j))" for j
    using False i by (cases "i = j") (simp_all add: mark_dispatch_def needs_dispatch_def flag_set peer_at_def
        bit.conj_disj_distrib2 ENET_PEER_FLAG_NEEDS_DISPATCH_def)
  then show ?thesis using l i False by (auto simp: links_ok_def mark_dispatch_def)
qed

lemma links_ok_marks: "marks i h h' \<Longrightarrow> links_ok h \<Longrightarrow> i < length (h_peers h) \<Longrightarrow> links_ok h'"
  using links_ok_frame links_ok_mark by (metis marks_def)

lemma reset_queues_unlinks:
  assumes i: "i < length (h_peers h)"
  shows "needs_dispatch (peer_at (enet_peer_reset_queues i h) j) = (j \<noteq> i \<and> needs_dispatch (peer_at h j))"
    "h_linkFault (enet_peer_reset_queues i h) = h_linkFault h"
    "h_dispatchQueue (enet_peer_reset_queues i h)
       = (if needs_dispatch (peer_at h i) then remove1 i (h_dispatchQueue h) else h_dispatchQueue h)"
  by (rule reset_queues_eq [of i h],
      use i in \<open>cases "i = j"; auto simp: needs_dispatch_def flag_cleared peer_at_def\<close>)+

lemma links_ok_reset_queues:
  "links_ok h \<Longrightarrow> i < length (h_peers h) \<Longrightarrow> links_ok (enet_peer_reset_queues i h)"
  by (auto simp: links_ok_def reset_queues_unlinks)



text \<open>
  \<open>enet_peer_reset\<close> is the exception: it clears the flag before \<open>enet_peer_reset_queues\<close> looks
  at it, so a linked peer stays in the dispatch queue, and the next event about it links the
  linked node once more.
\<close>

lemma reset_leaves_peer_linked:
  assumes i: "i < length (h_peers h)" and l: "i \<in> set (h_dispatchQueue h)"
  shows "let h' = enet_peer_reset i h in i \<in> set (h_dispatchQueue h') \<and> \<not> needs_dispatch (peer_at h' i)
    \<and> h_linkFault (mark_dispatch i h')"
proof -
  let ?d = "enet_peer_on_disconnect i h"
  let ?h = "upd_peer i (reset_fields ?d) ?d"
  have r: "enet_peer_reset i h = enet_peer_reset_queues i ?h" by (simp add: enet_peer_reset_def Let_def)
  have "\<not> needs_dispatch (peer_at ?h i)" using i by (simp add: needs_dispatch_def reset_fields_def)
  then show ?thesis
    using i l unfolding r by (simp add: Let_def reset_queues_unlinks mark_dispatch_def)
qed

end
