(* ===== verification/Enet_Engine.thy ===== *)
theory Enet_Engine
  imports Enet_Peer_Life
begin

text \<open>
  The state machine of a connection in \<open>enet/protocol.c\<close>: changes of state, the events they
  give rise to, the dispatch of events to the application, and the removal of commands that
  were sent or acknowledged.

  An \<open>ENetEvent *\<close> is an \<open>event option\<close>, \<open>None\<close> for \<open>NULL\<close>, which is handed in and returned.
  \<open>enet_peer_disconnect\<close> is called here for peers in state \<open>Disconnect_Later\<close> only, and then
  does not flush (lemma \<open>disconnect_without_flush\<close>); the calls pass the identity as flush.
\<close>

section \<open>Changes of state\<close>

definition enet_protocol_change_state :: "nat \<Rightarrow> peer_state \<Rightarrow> host \<Rightarrow> host" where
  "enet_protocol_change_state i state h =
    upd_peer i (\<lambda>p. p\<lparr>p_state := state\<rparr>)
      (if state = Connected \<or> state = Disconnect_Later then enet_peer_on_connect i h
       else enet_peer_on_disconnect i h)"

definition enet_protocol_dispatch_state :: "nat \<Rightarrow> peer_state \<Rightarrow> host \<Rightarrow> host" where
  "enet_protocol_dispatch_state i state h = mark_dispatch i (enet_protocol_change_state i state h)"

text \<open>Linking without a look at the flag.\<close>

definition link_dispatch :: "nat \<Rightarrow> host \<Rightarrow> host" where
  "link_dispatch i h =
    upd_peer i (\<lambda>p. p\<lparr>p_flags := p_flags p OR ENET_PEER_FLAG_NEEDS_DISPATCH\<rparr>)
      (h\<lparr>h_linkFault := (h_linkFault h \<or> i \<in> set (h_dispatchQueue h)),
         h_dispatchQueue := h_dispatchQueue h @ [i]\<rparr>)"

fun dispatch_loop :: "nat list \<Rightarrow> event \<Rightarrow> host \<Rightarrow> int \<times> event \<times> host" where
  "dispatch_loop [] event h = (0, event, h)"
| "dispatch_loop (i # queue) event h =
    (let h = upd_peer i (\<lambda>p. p\<lparr>p_flags := p_flags p AND NOT ENET_PEER_FLAG_NEEDS_DISPATCH\<rparr>)
               (h\<lparr>h_dispatchQueue := queue\<rparr>);
         p = peer_at h i
     in case p_state p of
          Connection_Pending \<Rightarrow>
            (1, event\<lparr>ev_type := Event_Connect, ev_peer := Some i, ev_data := p_eventData p\<rparr>,
             enet_protocol_change_state i Connected h)
        | Connection_Succeeded \<Rightarrow>
            (1, event\<lparr>ev_type := Event_Connect, ev_peer := Some i, ev_data := p_eventData p\<rparr>,
             enet_protocol_change_state i Connected h)
        | Zombie \<Rightarrow>
            (1, event\<lparr>ev_type := Event_Disconnect, ev_peer := Some i, ev_data := p_eventData p\<rparr>,
             enet_peer_reset i (h\<lparr>h_recalculateBandwidthLimits := True\<rparr>))
        | Connected \<Rightarrow>
            if p_dispatchedCommands p = [] then dispatch_loop queue event h
            else
              (case enet_peer_receive i h of
                (None, h) \<Rightarrow> dispatch_loop queue (event\<lparr>ev_packet := None\<rparr>) h
              | (Some (packet, channelID), h) \<Rightarrow>
                  (1, event\<lparr>ev_type := Event_Receive, ev_peer := Some i, ev_channelID := channelID,
                        ev_packet := Some packet\<rparr>,
                   if p_dispatchedCommands (peer_at h i) \<noteq> [] then link_dispatch i h else h))
        | _ \<Rightarrow> dispatch_loop queue event h)"

definition enet_protocol_dispatch_incoming_commands :: "event \<Rightarrow> host \<Rightarrow> int \<times> event \<times> host" where
  "enet_protocol_dispatch_incoming_commands event h = dispatch_loop (h_dispatchQueue h) event h"

section \<open>Telling the application\<close>

definition enet_protocol_notify_connect :: "nat \<Rightarrow> event option \<Rightarrow> host \<Rightarrow> event option \<times> host" where
  "enet_protocol_notify_connect i event h =
    (let h = h\<lparr>h_recalculateBandwidthLimits := True\<rparr>
     in case event of
          Some ev \<Rightarrow>
            let h = enet_protocol_change_state i Connected h
            in (Some (ev\<lparr>ev_type := Event_Connect, ev_peer := Some i,
                         ev_data := p_eventData (peer_at h i)\<rparr>), h)
        | None \<Rightarrow>
            (None, enet_protocol_dispatch_state i
               (if p_state (peer_at h i) = Connecting then Connection_Succeeded else Connection_Pending) h))"

definition enet_protocol_notify_disconnect :: "nat \<Rightarrow> event option \<Rightarrow> host \<Rightarrow> event option \<times> host" where
  "enet_protocol_notify_disconnect i event h =
    (let s = p_state (peer_at h i);
         h = (if s \<ge> Connection_Pending then h\<lparr>h_recalculateBandwidthLimits := True\<rparr> else h)
     in if s \<noteq> Connecting \<and> s < Connection_Succeeded then (event, enet_peer_reset i h)
        else case event of
          Some ev \<Rightarrow> (Some (ev\<lparr>ev_type := Event_Disconnect, ev_peer := Some i, ev_data := 0\<rparr>),
                       enet_peer_reset i h)
        | None \<Rightarrow> (None, enet_protocol_dispatch_state i Zombie (upd_peer i (\<lambda>p. p\<lparr>p_eventData := 0\<rparr>) h)))"

section \<open>Commands that were sent\<close>

definition disconnect_if_idle :: "nat \<Rightarrow> host \<Rightarrow> host" where
  "disconnect_if_idle i h =
    (let p = peer_at h i
     in if p_state p = Disconnect_Later \<and> p_outgoingCommands p = [] \<and> p_sentReliableCommands p = []
        then enet_peer_disconnect (\<lambda>h. h) i (p_eventData p) h else h)"

definition enet_protocol_remove_sent_unreliable_commands :: "nat \<Rightarrow> host \<Rightarrow> host" where
  "enet_protocol_remove_sent_unreliable_commands i h =
    (let queue = p_sentUnreliableCommands (peer_at h i)
     in if queue = [] then h
        else
          let h = upd_mem (fold (\<lambda>c. packet_release_sent (oc_packet c)) queue) h;
              h = upd_peer i (\<lambda>p. p\<lparr>p_sentUnreliableCommands := []\<rparr>) h
          in disconnect_if_idle i h)"

definition sent_as :: "u16 \<Rightarrow> u8 \<Rightarrow> outgoing_command \<Rightarrow> bool" where
  "sent_as n channelID c \<longleftrightarrow>
     oc_reliableSequenceNumber c = n \<and> hd_channelID (pr_header (oc_command c)) = channelID"

fun find_sent :: "u16 \<Rightarrow> u8 \<Rightarrow> outgoing_command list \<Rightarrow> nat option" where
  "find_sent n channelID [] = None"
| "find_sent n channelID (c # cs) =
    (if sent_as n channelID c then Some 0 else map_option Suc (find_sent n channelID cs))"

text \<open>Among the commands still to be sent, only those count that wait to be sent again.\<close>

fun find_resent :: "u16 \<Rightarrow> u8 \<Rightarrow> outgoing_command list \<Rightarrow> nat option" where
  "find_resent n channelID [] = None"
| "find_resent n channelID (c # cs) =
    (if \<not> command_acknowledged c then map_option Suc (find_resent n channelID cs)
     else if oc_sendAttempts c < 1 then None
     else if sent_as n channelID c then Some 0 else map_option Suc (find_resent n channelID cs))"

definition remove_nth :: "nat \<Rightarrow> 'a list \<Rightarrow> 'a list" where
  "remove_nth k xs = take k xs @ drop (Suc k) xs"

definition release_window :: "u16 \<Rightarrow> channel \<Rightarrow> channel" where
  "release_window n ch =
    (let w = window_of n
     in if ch_reliableWindows ch ! w > 0
        then
          let ch = ch\<lparr>ch_reliableWindows := upd_nth w (\<lambda>k. k - 1) (ch_reliableWindows ch)\<rparr>
          in if ch_reliableWindows ch ! w = 0
             then ch\<lparr>ch_usedReliableWindows := ch_usedReliableWindows ch AND NOT (push_bit w 1)\<rparr>
             else ch
        else ch)"

definition set_next_timeout :: "nat \<Rightarrow> host \<Rightarrow> host" where
  "set_next_timeout i h =
    (case p_sentReliableCommands (peer_at h i) of
      [] \<Rightarrow> h
    | c # _ \<Rightarrow> upd_peer i (\<lambda>p. p\<lparr>p_nextTimeout := oc_sentTime c + oc_roundTripTimeout c\<rparr>) h)"

definition enet_protocol_remove_sent_reliable_command :: "nat \<Rightarrow> u16 \<Rightarrow> u8 \<Rightarrow> host \<Rightarrow> u8 \<times> host" where
  "enet_protocol_remove_sent_reliable_command i n channelID h =
    (let p = peer_at h i;
         sent = find_sent n channelID (p_sentReliableCommands p);
         wasSent = (sent \<noteq> None)
     in case (if wasSent then sent else find_resent n channelID (p_outgoingCommands p)) of
          None \<Rightarrow> (0, h)
        | Some k \<Rightarrow>
            let c = (if wasSent then p_sentReliableCommands p else p_outgoingCommands p) ! k;
                h = (if unat channelID < p_channelCount p
                     then upd_peer i (upd_channel (unat channelID) (release_window n)) h else h);
                h = upd_peer i (\<lambda>p.
                      if wasSent then p\<lparr>p_sentReliableCommands := remove_nth k (p_sentReliableCommands p)\<rparr>
                      else p\<lparr>p_outgoingCommands := remove_nth k (p_outgoingCommands p)\<rparr>) h;
                h = (if oc_packet c \<noteq> None
                     then
                       let h = (if wasSent
                                then upd_peer i (\<lambda>p. p\<lparr>p_reliableDataInTransit :=
                                       p_reliableDataInTransit p - ucast (oc_fragmentLength c)\<rparr>) h
                                else h)
                       in upd_mem (packet_release_sent (oc_packet c)) h
                     else h)
            in (kind_of (oc_command c),
                set_next_timeout i h))"

section \<open>What these operations keep\<close>

lemma change_state_ok:
  assumes h: "host_ok h" and i: "i < length (h_peers h)" and s: "\<not> idle s"
  shows "host_ok (enet_protocol_change_state i s h)"
proof -
  have f: "peer_refs ((peer_at h i)\<lparr>p_state := s\<rparr>) = peer_refs (peer_at h i)"
    "peer_ok (peer_at h i) \<Longrightarrow> peer_ok ((peer_at h i)\<lparr>p_state := s\<rparr>)"
    using s by (auto simp: peer_refs_def peer_ok_defs idle_def intro: traffic_ok_connected)
  show ?thesis
    using host_ok_connect_state [OF h i, of "\<lambda>p. p\<lparr>p_state := s\<rparr>"]
      host_ok_disconnect_state [OF h i, of "\<lambda>p. p\<lparr>p_state := s\<rparr>"] f
    by (simp add: enet_protocol_change_state_def is_connected_def)
qed

lemma change_state_length [simp]:
  "length (h_peers (enet_protocol_change_state i s h)) = length (h_peers h)"
  by (simp add: enet_protocol_change_state_def)

lemma dispatch_state_ok:
  "host_ok h \<Longrightarrow> i < length (h_peers h) \<Longrightarrow> \<not> idle s \<Longrightarrow> host_ok (enet_protocol_dispatch_state i s h)"
  by (simp add: enet_protocol_dispatch_state_def host_ok_mark change_state_ok)

lemma dispatch_state_length [simp]:
  "length (h_peers (enet_protocol_dispatch_state i s h)) = length (h_peers h)"
  by (simp add: enet_protocol_dispatch_state_def)

text \<open>Fields of the host and of a peer that no invariant is about.\<close>

lemma host_ok_host:
  assumes "host_ok h" "h_peers h' = h_peers h" "h_mem h' = h_mem h" "limits h' = limits h"
    "h_connectedPeers h' = h_connectedPeers h" "h_bandwidthLimitedPeers h' = h_bandwidthLimitedPeers h"
    "set (h_dispatchQueue h') \<subseteq> set (h_dispatchQueue h)"
  shows "host_ok h'"
proof (rule host_ok_view [OF assms(1) _ _ assms(7)])
  show "memory_safe h'" using assms memory_safe_cong [of h' h] by (simp add: host_ok_def)
  show "acct_view h' = acct_view h" using assms by (simp add: acct_view_def)
qed

lemma host_ok_fields:
  assumes h: "host_ok h" and f: "peer_refs (f (peer_at h i)) = peer_refs (peer_at h i)"
      "peer_ok (peer_at h i) \<Longrightarrow> peer_ok (f (peer_at h i))"
      "p_state (f (peer_at h i)) = p_state (peer_at h i)"
      "p_incomingBandwidth (f (peer_at h i)) = p_incomingBandwidth (peer_at h i)"
  shows "host_ok (upd_peer i f h)"
proof (cases "i < length (h_peers h)")
  case True
  show ?thesis by (rule host_ok_peer [OF h True]) (use f in simp_all)
next
  case False
  then have "upd_peer i f h = h" by (simp add: upd_peer_def)
  then show ?thesis using h by simp
qed

lemma same_commands:
  assumes "\<And>ch. channel_cmds (f ch) = channel_cmds ch"
  shows "peer_refs (upd_channel c f p) = peer_refs p" "peer_ok (upd_channel c f p) = peer_ok p"
proof -
  have r: "map channel_refs (upd_nth c f chs) = map channel_refs chs"
    "map channel_cmds (upd_nth c f chs) = map channel_cmds chs" for chs
    using assms by (simp_all add: map_upd_nth_same channel_refs_cmds)
  then have "map channel_refs (drop n (upd_nth c f chs)) = map channel_refs (drop n chs)" for n chs
    by (simp add: drop_map [symmetric])
  then show "peer_refs (upd_channel c f p) = peer_refs p" "peer_ok (upd_channel c f p) = peer_ok p"
    using r by (simp_all add: peer_refs_def peer_ok_defs channels_refs_def)
qed

lemma host_ok_queue:
  "host_ok h \<Longrightarrow> \<forall>j \<in> set q. j < length (h_peers h) \<Longrightarrow> host_ok (h\<lparr>h_dispatchQueue := q\<rparr>)"
  using memory_safe_cong [of "h\<lparr>h_dispatchQueue := q\<rparr>" h] accounted_cong [of "h\<lparr>h_dispatchQueue := q\<rparr>" h]
  by (simp add: host_ok_def linked_ok_def limits_def acct_view_def)

lemma link_dispatch_ok:
  assumes h: "host_ok h" and i: "i < length (h_peers h)"
  shows "host_ok (link_dispatch i h)"
proof -
  let ?h = "h\<lparr>h_linkFault := h_linkFault h \<or> i \<in> set (h_dispatchQueue h)\<rparr>"
  have "host_ok ?h" by (rule host_ok_host [OF h]) (simp_all add: limits_def)
  then have "host_ok (?h\<lparr>h_dispatchQueue := h_dispatchQueue h @ [i]\<rparr>)"
    by (rule host_ok_queue) (use h i in \<open>auto simp: host_ok_def linked_ok_def\<close>)
  then show ?thesis unfolding link_dispatch_def by (rule host_ok_fields) simp_all
qed

lemma link_dispatch_length [simp]: "length (h_peers (link_dispatch i h)) = length (h_peers h)"
  by (simp add: link_dispatch_def)

lemma host_ok_receive: "host_ok h \<Longrightarrow> i < length (h_peers h) \<Longrightarrow> host_ok (snd (enet_peer_receive i h))"
  using host_ok_frame receive_safe receive_frame host_ok_memory by blast

lemma receive_length [simp]: "length (h_peers (snd (enet_peer_receive i h))) = length (h_peers h)"
  by (rule frame_view_length) simp

lemma dispatch_loop_ok:
  "host_ok h \<Longrightarrow> \<forall>j \<in> set queue. j < length (h_peers h) \<Longrightarrow>
    host_ok (snd (snd (dispatch_loop queue event h))) \<and>
    length (h_peers (snd (snd (dispatch_loop queue event h)))) = length (h_peers h)"
proof (induction queue arbitrary: event h)
  case Nil
  then show ?case by simp
next
  case (Cons i queue)
  let ?h = "upd_peer i (\<lambda>p. p\<lparr>p_flags := p_flags p AND NOT ENET_PEER_FLAG_NEEDS_DISPATCH\<rparr>)
               (h\<lparr>h_dispatchQueue := queue\<rparr>)"
  have i: "i < length (h_peers ?h)" and q: "\<forall>j \<in> set queue. j < length (h_peers ?h)" using Cons.prems by simp_all
  have h: "host_ok ?h"
    by (rule host_ok_fields [OF host_ok_queue]) (use Cons.prems in simp_all)
  have r: "host_ok (?h\<lparr>h_recalculateBandwidthLimits := True\<rparr>)"
    by (rule host_ok_host [OF h]) (simp_all add: limits_def)
  obtain res h2 where rc: "enet_peer_receive i ?h = (res, h2)" by fastforce
  have h2: "host_ok h2" "length (h_peers h2) = length (h_peers ?h)"
    using host_ok_receive [OF h i] receive_length [of i ?h] rc by simp_all
  have rest: "host_ok (snd (snd (dispatch_loop queue event ?h))) \<and>
      length (h_peers (snd (snd (dispatch_loop queue event ?h)))) = length (h_peers h)" for event
    using Cons.IH [OF h q] by simp
  have rest2: "host_ok (snd (snd (dispatch_loop queue event h2))) \<and>
      length (h_peers (snd (snd (dispatch_loop queue event h2)))) = length (h_peers h)" for event
    using Cons.IH [OF h2(1)] q h2(2) by simp
  show ?case
    using rest rest2 change_state_ok [OF h i, of Connected] host_ok_reset [OF r] i h2 link_dispatch_ok [OF h2(1), of i]
    by (cases "p_state (peer_at ?h i)"; cases res)
      (simp_all add: Let_def rc idle_def split: prod.splits)
qed

lemma dispatch_incoming_ok:
  "host_ok h \<Longrightarrow> host_ok (snd (snd (enet_protocol_dispatch_incoming_commands event h))) \<and>
    length (h_peers (snd (snd (enet_protocol_dispatch_incoming_commands event h)))) = length (h_peers h)"
  unfolding enet_protocol_dispatch_incoming_commands_def
  by (rule dispatch_loop_ok) (simp_all add: host_ok_def linked_ok_def)

lemma host_ok_recalculate: "host_ok h \<Longrightarrow> host_ok (h\<lparr>h_recalculateBandwidthLimits := b\<rparr>)"
  by (erule host_ok_host) (simp_all add: limits_def)

lemma notify_connect_ok:
  assumes "host_ok h" "i < length (h_peers h)"
  shows "host_ok (snd (enet_protocol_notify_connect i event h))"
    "length (h_peers (snd (enet_protocol_notify_connect i event h))) = length (h_peers h)"
proof -
  have "host_ok (h\<lparr>h_recalculateBandwidthLimits := True\<rparr>)"
    "i < length (h_peers (h\<lparr>h_recalculateBandwidthLimits := True\<rparr>))"
    using assms host_ok_recalculate by simp_all
  then show "host_ok (snd (enet_protocol_notify_connect i event h))"
    using change_state_ok dispatch_state_ok
    by (cases event) (simp_all add: enet_protocol_notify_connect_def Let_def idle_def)
  show "length (h_peers (snd (enet_protocol_notify_connect i event h))) = length (h_peers h)"
    by (cases event) (simp_all add: enet_protocol_notify_connect_def Let_def)
qed

lemma notify_disconnect_ok:
  assumes "host_ok h" "i < length (h_peers h)"
  shows "host_ok (snd (enet_protocol_notify_disconnect i event h))"
    "length (h_peers (snd (enet_protocol_notify_disconnect i event h))) = length (h_peers h)"
proof -
  let ?h = "if p_state (peer_at h i) \<ge> Connection_Pending then h\<lparr>h_recalculateBandwidthLimits := True\<rparr> else h"
  have h: "host_ok ?h" "i < length (h_peers ?h)" using assms host_ok_recalculate by simp_all
  have "host_ok (upd_peer i (\<lambda>p. p\<lparr>p_eventData := 0\<rparr>) ?h)"
    by (rule host_ok_fields [OF h(1)]) (simp_all add: peer_refs_def peer_ok_defs)
  then show "host_ok (snd (enet_protocol_notify_disconnect i event h))"
    using h host_ok_reset dispatch_state_ok
    by (cases event) (simp_all add: enet_protocol_notify_disconnect_def Let_def idle_def)
  show "length (h_peers (snd (enet_protocol_notify_disconnect i event h))) = length (h_peers h)"
    by (cases event) (simp_all add: enet_protocol_notify_disconnect_def Let_def)
qed

lemma disconnect_if_idle_ok:
  "host_ok h \<Longrightarrow> i < length (h_peers h) \<Longrightarrow> host_ok (disconnect_if_idle i h)"
  "length (h_peers (disconnect_if_idle i h)) = length (h_peers h)"
  by (simp_all add: disconnect_if_idle_def Let_def no_flush.disconnect_ok)

text \<open>Giving up commands that were sent: the queue and the references shrink together.\<close>

lemma release_sent_refs:
  "refs_ok m (out_refs q + M) \<Longrightarrow> refs_ok (fold (\<lambda>c. packet_release_sent (oc_packet c)) q m) M"
  using sent.release_all [of m "map oc_packet q" M]
  by (simp add: out_refs_def fold_map comp_def)

lemma host_ok_release:
  assumes h: "host_ok h" and i: "i < length (h_peers h)"
    and r: "peer_refs (peer_at h i) = N + peer_refs (f (peer_at h i))"
      "\<And>M. refs_ok (h_mem h) (N + M) \<Longrightarrow> refs_ok (g (h_mem h)) M"
    and f: "peer_ok (peer_at h i) \<Longrightarrow> peer_ok (f (peer_at h i))"
      "p_state (f (peer_at h i)) = p_state (peer_at h i)"
      "p_incomingBandwidth (f (peer_at h i)) = p_incomingBandwidth (peer_at h i)"
  shows "host_ok (upd_peer i f (upd_mem g h))"
proof (rule host_okI)
  note m = memory_safe_at [OF host_ok_memory [OF h] i]
  show "memory_safe (upd_peer i f (upd_mem g h))"
    by (rule memory_safe_upd [OF host_ok_memory [OF h] i, of _ f])
      (use m r f(1) i in \<open>simp_all add: safe_at_def add.assoc\<close>)
  show "accounted (upd_peer i f (upd_mem g h))"
    by (rule accounted_upd [OF host_ok_accounted [OF h] i, of _ f]) (use f in simp_all)
  show "linked_ok (upd_peer i f (upd_mem g h))" using h by (simp add: host_ok_def linked_ok_def)
qed

lemma upd_mem_peer: "upd_mem g (upd_peer i f h) = upd_peer i f (upd_mem g h)"
  by (simp add: upd_mem_def upd_peer_def)

lemma remove_sent_unreliable_ok:
  assumes h: "host_ok h" and i: "i < length (h_peers h)"
  shows "host_ok (enet_protocol_remove_sent_unreliable_commands i h)"
    "length (h_peers (enet_protocol_remove_sent_unreliable_commands i h)) = length (h_peers h)"
proof -
  let ?q = "p_sentUnreliableCommands (peer_at h i)"
  have "host_ok (upd_peer i (\<lambda>p. p\<lparr>p_sentUnreliableCommands := []\<rparr>)
      (upd_mem (fold (\<lambda>c. packet_release_sent (oc_packet c)) ?q) h))"
    by (rule host_ok_release [OF h i, of "out_refs ?q"])
      (auto simp: peer_refs_def peer_ok_defs ac_simps intro: release_sent_refs)
  then show "host_ok (enet_protocol_remove_sent_unreliable_commands i h)"
    using h i by (simp add: enet_protocol_remove_sent_unreliable_commands_def Let_def disconnect_if_idle_ok)
  show "length (h_peers (enet_protocol_remove_sent_unreliable_commands i h)) = length (h_peers h)"
    by (simp add: enet_protocol_remove_sent_unreliable_commands_def Let_def disconnect_if_idle_ok)
qed

lemma release_window_commands [simp]: "channel_cmds (release_window n ch) = channel_cmds ch"
  by (simp add: release_window_def Let_def channel_cmds_def)

lemma find_sent_Some: "find_sent n c q = Some k \<Longrightarrow> k < length q \<and> sent_as n c (q ! k)"
  by (induction q arbitrary: k) (auto split: if_splits)

lemma find_resent_Some: "find_resent n c q = Some k \<Longrightarrow> k < length q \<and> sent_as n c (q ! k) \<and> command_acknowledged (q ! k)"
  by (induction q arbitrary: k) (auto split: if_splits)

lemma remove_nth_refs: "k < length q \<Longrightarrow> out_refs q = add_mset (oc_packet (q ! k)) (out_refs (remove_nth k q))"
proof -
  assume k: "k < length q"
  have "out_refs q = out_refs (take k q @ q ! k # drop (Suc k) q)" using k by (simp add: id_take_nth_drop [symmetric])
  then show ?thesis by (simp add: remove_nth_def)
qed

lemma set_remove_nth: "set (remove_nth k q) \<subseteq> set q"
  by (auto simp: remove_nth_def dest: in_set_takeD in_set_dropD)

lemma host_ok_window:
  "host_ok h \<Longrightarrow> host_ok (upd_peer i (upd_channel c (release_window n)) h)"
  by (erule host_ok_fields) (simp_all add: same_commands)

lemma upd_mem_none [simp]: "upd_mem (packet_release_sent None) h = h"
  by (simp add: upd_mem_def packet_release_sent_def)

lemma take_out_ok:
  assumes h: "host_ok h" and i: "i < length (h_peers h)"
    and f: "f = (\<lambda>p. p\<lparr>p_sentReliableCommands := remove_nth k (p_sentReliableCommands p),
                  p_reliableDataInTransit := g p\<rparr>) \<and> k < length (p_sentReliableCommands (peer_at h i))
         \<and> c = p_sentReliableCommands (peer_at h i) ! k
       \<or> f = (\<lambda>p. p\<lparr>p_outgoingCommands := remove_nth k (p_outgoingCommands p)\<rparr>)
         \<and> k < length (p_outgoingCommands (peer_at h i)) \<and> c = p_outgoingCommands (peer_at h i) ! k"
  shows "host_ok (upd_peer i f (upd_mem (packet_release_sent (oc_packet c)) h))"
proof (rule host_ok_release [OF h i, of "{#oc_packet c#}"])
  show "refs_ok (h_mem h) ({#oc_packet c#} + M) \<Longrightarrow> refs_ok (packet_release_sent (oc_packet c) (h_mem h)) M" for M
    by (rule refs_ok_release_sent) simp
  show "peer_ok (f (peer_at h i))" if p: "peer_ok (peer_at h i)"
  proof -
    have "traffic_ok (traffic_view (f (peer_at h i)))"
      using f p unfolding peer_ok_def traffic_view_def
      by (elim disjE) (auto elim!: traffic_ok_subset dest: set_remove_nth [THEN subsetD])
    then show ?thesis using f p set_remove_nth by (fastforce simp: peer_ok_def incoming_cmds_def)
  qed
qed (use f in \<open>auto simp: peer_refs_def remove_nth_refs\<close>)

lemma set_next_timeout_ok:
  "host_ok h \<Longrightarrow> host_ok (set_next_timeout i h)" "length (h_peers (set_next_timeout i h)) = length (h_peers h)"
  by (auto simp: set_next_timeout_def peer_refs_def peer_ok_defs split: list.split intro: host_ok_fields)

lemma remove_sent_reliable_ok:
  assumes h: "host_ok h" and i: "i < length (h_peers h)"
  shows "host_ok (snd (enet_protocol_remove_sent_reliable_command i n chan h))"
    "length (h_peers (snd (enet_protocol_remove_sent_reliable_command i n chan h))) = length (h_peers h)"
proof -
  let ?p = "peer_at h i"
  let ?s = "find_sent n chan (p_sentReliableCommands ?p)"
  let ?o = "find_resent n chan (p_outgoingCommands ?p)"
  let ?h1 = "if unat chan < p_channelCount ?p then upd_peer i (upd_channel (unat chan) (release_window n)) h else h"
  have h1: "host_ok ?h1" "i < length (h_peers ?h1)" using h i host_ok_window by simp_all
  have p1: "p_sentReliableCommands (peer_at ?h1 i) = p_sentReliableCommands ?p"
    "p_outgoingCommands (peer_at ?h1 i) = p_outgoingCommands ?p" using i by simp_all
  show "host_ok (snd (enet_protocol_remove_sent_reliable_command i n chan h))"
    "length (h_peers (snd (enet_protocol_remove_sent_reliable_command i n chan h))) = length (h_peers h)"
  proof -
    consider (sent) k where "?s = Some k" | (resent) k where "?s = None" "?o = Some k" | (none) "?s = None" "?o = None"
      by (cases ?s; cases ?o) auto
    then have "host_ok (snd (enet_protocol_remove_sent_reliable_command i n chan h))
        \<and> length (h_peers (snd (enet_protocol_remove_sent_reliable_command i n chan h))) = length (h_peers h)"
    proof cases
      case (sent k)
      let ?c = "p_sentReliableCommands ?p ! k"
      let ?g = "\<lambda>p. if oc_packet ?c \<noteq> None then p_reliableDataInTransit p - ucast (oc_fragmentLength ?c)
          else p_reliableDataInTransit p"
      let ?f = "\<lambda>p :: peer. p\<lparr>p_sentReliableCommands := remove_nth k (p_sentReliableCommands p),
          p_reliableDataInTransit := ?g p\<rparr>"
      let ?h2 = "upd_peer i ?f (upd_mem (packet_release_sent (oc_packet ?c)) ?h1)"
      have "k < length (p_sentReliableCommands ?p)" using find_sent_Some [OF sent] by simp
      then have ok: "host_ok ?h2" by (intro take_out_ok [OF h1, where k = k and g = ?g]) (simp add: p1)
      have "snd (enet_protocol_remove_sent_reliable_command i n chan h) = set_next_timeout i ?h2"
        using sent by (cases "oc_packet ?c")
          (simp_all add: enet_protocol_remove_sent_reliable_command_def Let_def upd_mem_peer)
      then show ?thesis using set_next_timeout_ok(1) [OF ok] by (simp add: set_next_timeout_ok(2))
    next
      case (resent k)
      let ?c = "p_outgoingCommands ?p ! k"
      let ?f = "\<lambda>p :: peer. p\<lparr>p_outgoingCommands := remove_nth k (p_outgoingCommands p)\<rparr>"
      let ?h2 = "upd_peer i ?f (upd_mem (packet_release_sent (oc_packet ?c)) ?h1)"
      have "k < length (p_outgoingCommands ?p)" using find_resent_Some [OF resent(2)] by simp
      then have ok: "host_ok ?h2" by (intro take_out_ok [OF h1, where k = k and g = "\<lambda>_. 0"]) (simp add: p1)
      have "snd (enet_protocol_remove_sent_reliable_command i n chan h) = set_next_timeout i ?h2"
        using resent by (cases "oc_packet ?c")
          (simp_all add: enet_protocol_remove_sent_reliable_command_def Let_def upd_mem_peer)
      then show ?thesis using set_next_timeout_ok(1) [OF ok] by (simp add: set_next_timeout_ok(2))
    next
      case none
      then show ?thesis using h by (simp add: enet_protocol_remove_sent_reliable_command_def)
    qed
    then show "host_ok (snd (enet_protocol_remove_sent_reliable_command i n chan h))"
      "length (h_peers (snd (enet_protocol_remove_sent_reliable_command i n chan h))) = length (h_peers h)" by simp_all
  qed
qed

end
