(* ===== verification/Enet_Handlers.thy ===== *)
theory Enet_Handlers
  imports Enet_Engine
begin

text \<open>
  The handlers of \<open>enet/protocol.c\<close>, one for each command a datagram can hold.

  A handler gets the peer, the command as \<open>view_protocol\<close> reads it, and the place in the
  datagram right after the command, an index into \<open>h_receivedData\<close> that stands for the
  pointer \<open>currentData\<close>.  Handlers of commands with data advance it and return it.  The result
  is the \<open>int\<close> the code returns.  The code also checks that \<open>currentData\<close> did not wrap around
  the address space; an index cannot.
\<close>

section \<open>Connecting\<close>

text \<open>
  The search through the peers: the first free one and the number of peers from the same
  address, or nothing if the same connection is there already.
\<close>

fun connect_scan ::
  "address \<Rightarrow> u32 \<Rightarrow> nat \<Rightarrow> peer list \<Rightarrow> nat option \<Rightarrow> nat \<Rightarrow> (nat option \<times> nat) option" where
  "connect_scan from connectID k [] peer duplicatePeers = Some (peer, duplicatePeers)"
| "connect_scan from connectID k (p # ps) peer duplicatePeers =
    (if p_state p = Disconnected
     then connect_scan from connectID (Suc k) ps (if peer = None then Some k else peer) duplicatePeers
     else if p_state p \<noteq> Connecting \<and> ad_host (p_address p) = ad_host from
     then if ad_port (p_address p) = ad_port from \<and> p_connectID p = connectID then None
          else connect_scan from connectID (Suc k) ps peer (duplicatePeers + 1)
     else connect_scan from connectID (Suc k) ps peer duplicatePeers)"

definition session_mask :: u8 where
  "session_mask = ucast (drop_bit ENET_PROTOCOL_HEADER_SESSION_SHIFT ENET_PROTOCOL_HEADER_SESSION_MASK)"

definition next_session :: "u8 \<Rightarrow> u8 \<Rightarrow> u8" where
  "next_session requested own =
    (let s = (if requested = 0xFF then own else requested);
         s = (s + 1) AND session_mask
     in if s = own then (s + 1) AND session_mask else s)"

definition clamp_mtu :: "u32 \<Rightarrow> u32" where
  "clamp_mtu mtu =
    (if mtu < ENET_PROTOCOL_MINIMUM_MTU then ENET_PROTOCOL_MINIMUM_MTU
     else if mtu > ENET_PROTOCOL_MAXIMUM_MTU then ENET_PROTOCOL_MAXIMUM_MTU else mtu)"

definition clamp_window :: "u32 \<Rightarrow> u32" where
  "clamp_window w =
    (if w < ENET_PROTOCOL_MINIMUM_WINDOW_SIZE then ENET_PROTOCOL_MINIMUM_WINDOW_SIZE
     else if w > ENET_PROTOCOL_MAXIMUM_WINDOW_SIZE then ENET_PROTOCOL_MAXIMUM_WINDOW_SIZE else w)"

text \<open>The window for two bandwidths, where zero stands for no limit.\<close>

definition bandwidth_window :: "u32 \<Rightarrow> u32 \<Rightarrow> u32" where
  "bandwidth_window a b =
    clamp_window
      (if a = 0 \<and> b = 0 then ENET_PROTOCOL_MAXIMUM_WINDOW_SIZE
       else if a = 0 \<or> b = 0
       then (ENET_MAX a b div ENET_PEER_WINDOW_SIZE_SCALE) * ENET_PROTOCOL_MINIMUM_WINDOW_SIZE
       else (ENET_MIN a b div ENET_PEER_WINDOW_SIZE_SCALE) * ENET_PROTOCOL_MINIMUM_WINDOW_SIZE)"

definition accept_peer :: "host \<Rightarrow> connect_fields \<Rightarrow> u32 \<Rightarrow> nat \<Rightarrow> peer \<Rightarrow> peer" where
  "accept_peer h c data channelCount p = p\<lparr>
     p_outgoingPeerID := cn_outgoingPeerID c,
     p_connectID := cn_connectID c,
     p_outgoingSessionID := next_session (cn_incomingSessionID c) (p_outgoingSessionID p),
     p_incomingSessionID := next_session (cn_outgoingSessionID c) (p_incomingSessionID p),
     p_address := h_receivedAddress h,
     p_state := Acknowledging_Connect,
     p_channels := replicate channelCount zero_channel,
     p_channelCount := channelCount,
     p_incomingBandwidth := cn_incomingBandwidth c,
     p_outgoingBandwidth := cn_outgoingBandwidth c,
     p_packetThrottleAcceleration := cn_packetThrottleAcceleration c,
     p_packetThrottleDeceleration := cn_packetThrottleDeceleration c,
     p_packetThrottleInterval := cn_packetThrottleInterval c,
     p_mtu := clamp_mtu (cn_mtu c),
     p_windowSize := bandwidth_window (h_outgoingBandwidth h) (cn_incomingBandwidth c),
     p_eventData := data\<rparr>"

definition verify_window :: "host \<Rightarrow> u32 \<Rightarrow> u32" where
  "verify_window h requested =
    (let w = (if h_incomingBandwidth h = 0 then ENET_PROTOCOL_MAXIMUM_WINDOW_SIZE
              else (h_incomingBandwidth h div ENET_PEER_WINDOW_SIZE_SCALE)
                   * ENET_PROTOCOL_MINIMUM_WINDOW_SIZE)
     in clamp_window (if w > requested then requested else w))"

definition verify_command :: "host \<Rightarrow> u32 \<Rightarrow> nat \<Rightarrow> peer \<Rightarrow> protocol" where
  "verify_command h windowSize channelCount p =
    command_on ENET_PROTOCOL_COMMAND_FLAG_ACKNOWLEDGE 0xFF (Verify_Connect \<lparr>
      cn_outgoingPeerID = p_incomingPeerID p,
      cn_incomingSessionID = p_outgoingSessionID p,
      cn_outgoingSessionID = p_incomingSessionID p,
      cn_mtu = p_mtu p,
      cn_windowSize = windowSize,
      cn_channelCount = of_nat channelCount,
      cn_incomingBandwidth = h_incomingBandwidth h,
      cn_outgoingBandwidth = h_outgoingBandwidth h,
      cn_packetThrottleInterval = p_packetThrottleInterval p,
      cn_packetThrottleAcceleration = p_packetThrottleAcceleration p,
      cn_packetThrottleDeceleration = p_packetThrottleDeceleration p,
      cn_connectID = p_connectID p\<rparr>)"

definition enet_protocol_handle_connect :: "connect_fields \<Rightarrow> u32 \<Rightarrow> host \<Rightarrow> nat option \<times> host" where
  "enet_protocol_handle_connect c data h =
    (let channelCount = unat (cn_channelCount c)
     in if channelCount < ENET_PROTOCOL_MINIMUM_CHANNEL_COUNT
           \<or> channelCount > ENET_PROTOCOL_MAXIMUM_CHANNEL_COUNT then (None, h)
        else
          case connect_scan (h_receivedAddress h) (cn_connectID c) 0 (h_peers h) None 0 of
            None \<Rightarrow> (None, h)
          | Some (None, _) \<Rightarrow> (None, h)
          | Some (Some i, duplicatePeers) \<Rightarrow>
              if duplicatePeers \<ge> h_duplicatePeers h then (None, h)
              else
                let channelCount = (if channelCount > h_channelLimit h then h_channelLimit h else channelCount);
                    (ok, h) = host_malloc h
                in if \<not> ok then (None, upd_peer i (\<lambda>p. p\<lparr>p_channels := []\<rparr>) h)
                   else
                     let h = upd_peer i (accept_peer h c data channelCount) h;
                         verifyCommand = verify_command h (verify_window h (cn_windowSize c)) channelCount (peer_at h i);
                         h = snd (enet_peer_queue_outgoing_command i verifyCommand None 0 0 h)
                     in (Some i, h))"

section \<open>Data\<close>

definition fragment_of :: "protocol \<Rightarrow> fragment_fields" where
  "fragment_of command = (case pr_body command of
      Send_Fragment f \<Rightarrow> f | Send_Unreliable_Fragment f \<Rightarrow> f
    | _ \<Rightarrow> \<lparr>fr_startSequenceNumber = 0, fr_dataLength = 0, fr_fragmentCount = 0,
            fr_fragmentNumber = 0, fr_totalLength = 0, fr_fragmentOffset = 0\<rparr>)"

definition data_length_of :: "protocol \<Rightarrow> nat" where
  "data_length_of command = (case pr_body command of
      Send_Reliable n \<Rightarrow> unat n | Send_Unreliable _ n \<Rightarrow> unat n | Send_Unsequenced _ n \<Rightarrow> unat n
    | _ \<Rightarrow> unat (fr_dataLength (fragment_of command)))"

definition unsequenced_group_of :: "protocol \<Rightarrow> u16" where
  "unsequenced_group_of command = (case pr_body command of Send_Unsequenced g _ \<Rightarrow> g | _ \<Rightarrow> 0)"

text \<open>The tests that every handler of data begins with.\<close>

definition may_receive :: "protocol \<Rightarrow> peer \<Rightarrow> bool" where
  "may_receive command p \<longleftrightarrow>
     unat (hd_channelID (pr_header command)) < p_channelCount p \<and> is_connected (p_state p)"

definition data_fits :: "nat \<Rightarrow> nat \<Rightarrow> host \<Rightarrow> bool" where
  "data_fits dataLength currentData h \<longleftrightarrow>
     dataLength \<le> h_maximumPacketSize h \<and> currentData + dataLength \<le> length (h_receivedData h)"

definition enet_protocol_handle_send_reliable :: "nat \<Rightarrow> protocol \<Rightarrow> nat \<Rightarrow> host \<Rightarrow> int \<times> nat \<times> host" where
  "enet_protocol_handle_send_reliable i command currentData h =
    (let dataLength = data_length_of command
     in if \<not> may_receive command (peer_at h i) then (-1, currentData, h)
        else if \<not> data_fits dataLength currentData h then (-1, currentData + dataLength, h)
        else
          let (queued, h) = enet_peer_queue_incoming_command i command
                (Some (drop currentData (h_receivedData h))) dataLength ENET_PACKET_FLAG_RELIABLE 0 h
          in (if queued = Queue_Error then -1 else 0, currentData + dataLength, h))"

definition enet_protocol_handle_send_unreliable :: "nat \<Rightarrow> protocol \<Rightarrow> nat \<Rightarrow> host \<Rightarrow> int \<times> nat \<times> host" where
  "enet_protocol_handle_send_unreliable i command currentData h =
    (let dataLength = data_length_of command
     in if \<not> may_receive command (peer_at h i) then (-1, currentData, h)
        else if \<not> data_fits dataLength currentData h then (-1, currentData + dataLength, h)
        else
          let (queued, h) = enet_peer_queue_incoming_command i command
                (Some (drop currentData (h_receivedData h))) dataLength 0 0 h
          in (if queued = Queue_Error then -1 else 0, currentData + dataLength, h))"

definition group_bit :: "u32 \<Rightarrow> u32" where
  "group_bit index = push_bit (unat (index mod 32)) 1"

text \<open>
  What a group number means for the window of groups: too far ahead, seen before, or new, with
  the peer whose window has room for it.
\<close>

definition enter_group :: "u32 \<Rightarrow> peer \<Rightarrow> peer option" where
  "enter_group unsequencedGroup p =
    (let index = unsequencedGroup mod of_nat ENET_PEER_UNSEQUENCED_WINDOW_SIZE;
         unsequencedGroup = (if unsequencedGroup < ucast (p_incomingUnsequencedGroup p)
                             then unsequencedGroup + 0x10000 else unsequencedGroup)
     in if unsequencedGroup \<ge> ucast (p_incomingUnsequencedGroup p)
             + of_nat (ENET_PEER_FREE_UNSEQUENCED_WINDOWS * ENET_PEER_UNSEQUENCED_WINDOW_SIZE)
        then None
        else
          let unsequencedGroup = unsequencedGroup AND 0xFFFF
          in if unsequencedGroup - index \<noteq> ucast (p_incomingUnsequencedGroup p)
             then Some (p\<lparr>p_incomingUnsequencedGroup := ucast (unsequencedGroup - index),
                          p_unsequencedWindow := map (\<lambda>_. 0) (p_unsequencedWindow p)\<rparr>)
             else if p_unsequencedWindow p ! unat (index div 32) AND group_bit index \<noteq> 0
             then None
             else Some p)"

definition mark_group :: "u32 \<Rightarrow> peer \<Rightarrow> peer" where
  "mark_group unsequencedGroup p =
    (let index = unsequencedGroup mod of_nat ENET_PEER_UNSEQUENCED_WINDOW_SIZE
     in p\<lparr>p_unsequencedWindow := upd_nth (unat (index div 32)) (\<lambda>w. w OR group_bit index)
            (p_unsequencedWindow p)\<rparr>)"

definition enet_protocol_handle_send_unsequenced :: "nat \<Rightarrow> protocol \<Rightarrow> nat \<Rightarrow> host \<Rightarrow> int \<times> nat \<times> host" where
  "enet_protocol_handle_send_unsequenced i command currentData h =
    (let dataLength = data_length_of command;
         group = ucast (unsequenced_group_of command)
     in if \<not> may_receive command (peer_at h i) then (-1, currentData, h)
        else if \<not> data_fits dataLength currentData h then (-1, currentData + dataLength, h)
        else
          case enter_group group (peer_at h i) of
            None \<Rightarrow> (0, currentData + dataLength, h)
          | Some p \<Rightarrow>
              let h = upd_peer i (\<lambda>_. p) h;
                  (queued, h) = enet_peer_queue_incoming_command i command
                    (Some (drop currentData (h_receivedData h))) dataLength ENET_PACKET_FLAG_UNSEQUENCED 0 h
              in if queued = Queue_Error then (-1, currentData + dataLength, h)
                 else (0, currentData + dataLength, upd_peer i (mark_group group) h))"

section \<open>Fragments\<close>

text \<open>
  The search for the command that collects a packet, from the tail of the queue on: the first
  command with the numbers of the packet, or none.
\<close>

fun find_start :: "u16 \<Rightarrow> u16 \<Rightarrow> incoming_command list \<Rightarrow> nat option" where
  "find_start start current [] = None"
| "find_start start current (c # cs) =
    (let next = map_option Suc (find_start start current cs);
         here = (if ic_reliableSequenceNumber c \<le> start
                 then if ic_reliableSequenceNumber c < start then None else Some 0
                 else next)
     in if start \<ge> current
        then if ic_reliableSequenceNumber c < current then next else here
        else if ic_reliableSequenceNumber c \<ge> current then None else here)"

fun find_unreliable_start :: "u16 \<Rightarrow> u16 \<Rightarrow> u16 \<Rightarrow> incoming_command list \<Rightarrow> nat option" where
  "find_unreliable_start n start current [] = None"
| "find_unreliable_start n start current (c # cs) =
    (let next = map_option Suc (find_unreliable_start n start current cs);
         here = (if ic_reliableSequenceNumber c < n then None
                 else if ic_reliableSequenceNumber c > n then next
                 else if ic_unreliableSequenceNumber c \<le> start
                 then if ic_unreliableSequenceNumber c < start then None else Some 0
                 else next)
     in if n \<ge> current
        then if ic_reliableSequenceNumber c < current then next else here
        else if ic_reliableSequenceNumber c \<ge> current then None else here)"

definition channel_queue :: "bool \<Rightarrow> channel \<Rightarrow> incoming_command list" where
  "channel_queue reliable ch =
    (if reliable then ch_incomingReliableCommands ch else ch_incomingUnreliableCommands ch)"

definition upd_queue :: "bool \<Rightarrow> (incoming_command list \<Rightarrow> incoming_command list) \<Rightarrow> channel \<Rightarrow> channel" where
  "upd_queue reliable f ch =
    (if reliable then ch\<lparr>ch_incomingReliableCommands := f (ch_incomingReliableCommands ch)\<rparr>
     else ch\<lparr>ch_incomingUnreliableCommands := f (ch_incomingUnreliableCommands ch)\<rparr>)"

text \<open>\<open>memcpy\<close> into the buffer of a packet; writing past its end is a fault.\<close>

definition write_packet :: "nat option \<Rightarrow> nat \<Rightarrow> nat \<Rightarrow> u8 list \<Rightarrow> memory \<Rightarrow> memory" where
  "write_packet packet offset n src m =
    (case packet of
      None \<Rightarrow> m\<lparr>fault := True\<rparr>
    | Some p \<Rightarrow>
        if length src < n \<or> length (packet_bytes m p) < offset + n then m\<lparr>fault := True\<rparr>
        else upd_packet p (\<lambda>k. k\<lparr>pk_data := take offset (pk_data k) @ take n src
               @ drop (offset + n) (pk_data k)\<rparr>) m)"

definition packet_size :: "memory \<Rightarrow> nat option \<Rightarrow> nat" where
  "packet_size m packet = (case packet of None \<Rightarrow> 0 | Some p \<Rightarrow> packet_length m p)"

definition readable :: "nat option \<Rightarrow> host \<Rightarrow> bool" where
  "readable packet h \<longleftrightarrow> packet \<noteq> None \<and> alive h packet"

text \<open>
  What both handlers do with the fragment once they have the command at place \<open>pos\<close> of the
  queue: unless its bit is set already, set it, copy the data, and deliver the packet when it
  is complete.
\<close>

definition store_fragment ::
  "nat \<Rightarrow> nat \<Rightarrow> bool \<Rightarrow> nat \<Rightarrow> fragment_fields \<Rightarrow> u8 list \<Rightarrow> host \<Rightarrow> host" where
  "store_fragment i chan reliable pos f data h =
    (let c = channel_queue reliable (channel_at (peer_at h i) chan) ! pos;
         bits = (case ic_fragments c of None \<Rightarrow> [] | Some bits \<Rightarrow> bits);
         w = unat (fr_fragmentNumber f) div 32;
         b = push_bit (unat (fr_fragmentNumber f) mod 32) 1
     in if length bits \<le> w then upd_mem (faulty True) h
        else if bits ! w AND b \<noteq> 0 then h
        else
          let c = c\<lparr>ic_fragmentsRemaining := ic_fragmentsRemaining c - 1,
                    ic_fragments := Some (bits[w := bits ! w OR b])\<rparr>;
              h = upd_peer i (upd_channel chan (upd_queue reliable (\<lambda>q. q[pos := c]))) h;
              dataLength = packet_size (h_mem h) (ic_packet c);
              fragmentLength = ucast (fr_dataLength f) :: u32;
              fragmentLength =
                (if unat (fr_fragmentOffset f + fragmentLength) > dataLength
                 then of_nat dataLength - fr_fragmentOffset f else fragmentLength);
              h = upd_mem (write_packet (ic_packet c) (unat (fr_fragmentOffset f)) (unat fragmentLength) data) h
          in if ic_fragmentsRemaining c \<le> 0
             then if reliable then enet_peer_dispatch_incoming_reliable_commands i chan None h
                  else enet_peer_dispatch_incoming_unreliable_commands i chan None h
             else h)"

text \<open>The place of the command with an address in a queue.\<close>

fun place_of :: "nat \<Rightarrow> incoming_command list \<Rightarrow> nat option" where
  "place_of n [] = None"
| "place_of n (c # cs) = (if ic_id c = n then Some 0 else map_option Suc (place_of n cs))"

text \<open>The tests on the fields of a fragment.\<close>

definition fragment_valid :: "fragment_fields \<Rightarrow> host \<Rightarrow> bool" where
  "fragment_valid f h \<longleftrightarrow>
    \<not> (unat (fr_fragmentCount f) > ENET_PROTOCOL_MAXIMUM_FRAGMENT_COUNT
       \<or> fr_fragmentNumber f \<ge> fr_fragmentCount f
       \<or> unat (fr_totalLength f) > h_maximumPacketSize h
       \<or> fr_fragmentOffset f \<ge> fr_totalLength f
       \<or> ucast (fr_dataLength f) > fr_totalLength f - fr_fragmentOffset f)"

text \<open>Does a command collect the packet of this fragment?\<close>

definition collects :: "u8 \<Rightarrow> fragment_fields \<Rightarrow> memory \<Rightarrow> incoming_command \<Rightarrow> bool" where
  "collects kind f m c \<longleftrightarrow>
    \<not> (kind_of (ic_command c) \<noteq> kind \<or> unat (fr_totalLength f) \<noteq> packet_size m (ic_packet c)
       \<or> fr_fragmentCount f \<noteq> ic_fragmentCount c)"

text \<open>The part of the handlers from the search on.\<close>

definition collect_fragment ::
  "nat \<Rightarrow> protocol \<Rightarrow> u8 list \<Rightarrow> bool \<Rightarrow> u32 \<Rightarrow> nat option \<Rightarrow> host \<Rightarrow> int \<times> host" where
  "collect_fragment i command data reliable flags found h =
    (let f = fragment_of command;
         chan = unat (hd_channelID (pr_header command));
         queue = channel_queue reliable (channel_at (peer_at h i) chan)
     in case found of
          Some back \<Rightarrow>
            let pos = length queue - Suc back;
                c = queue ! pos;
                h = (if readable (ic_packet c) h then h else upd_mem (faulty True) h)
            in if \<not> collects (kind_of command) f (h_mem h) c then (-1, h)
               else (0, store_fragment i chan reliable pos f data h)
        | None \<Rightarrow>
            (case enet_peer_queue_incoming_command i command None (unat (fr_totalLength f)) flags
                    (fr_fragmentCount f) h of
              (Queued n, h) \<Rightarrow>
                (case place_of n (channel_queue reliable (channel_at (peer_at h i) chan)) of
                  None \<Rightarrow> (0, upd_mem (faulty True) h)
                | Some pos \<Rightarrow> (0, store_fragment i chan reliable pos f data h))
            | (_, h) \<Rightarrow> (-1, h)))"

definition enet_protocol_handle_send_fragment :: "nat \<Rightarrow> protocol \<Rightarrow> nat \<Rightarrow> host \<Rightarrow> int \<times> nat \<times> host" where
  "enet_protocol_handle_send_fragment i command currentData h =
    (let f = fragment_of command;
         chan = unat (hd_channelID (pr_header command));
         fragmentLength = unat (fr_dataLength f);
         ch = channel_at (peer_at h i) chan;
         start = fr_startSequenceNumber f;
         current = ch_incomingReliableSequenceNumber ch;
         next = currentData + fragmentLength
     in if \<not> may_receive command (peer_at h i) then (-1, currentData, h)
        else if \<not> data_fits fragmentLength currentData h then (-1, next, h)
        else if \<not> in_window start current then (0, next, h)
        else if \<not> fragment_valid f h then (-1, next, h)
        else
          let hostCommand = command\<lparr>pr_header := (pr_header command)\<lparr>hd_reliableSequenceNumber := start\<rparr>\<rparr>;
              (result, h) = collect_fragment i hostCommand (drop currentData (h_receivedData h)) True
                ENET_PACKET_FLAG_RELIABLE (find_start start current (rev (ch_incomingReliableCommands ch))) h
          in (result, next, h))"

definition enet_protocol_handle_send_unreliable_fragment ::
  "nat \<Rightarrow> protocol \<Rightarrow> nat \<Rightarrow> host \<Rightarrow> int \<times> nat \<times> host" where
  "enet_protocol_handle_send_unreliable_fragment i command currentData h =
    (let f = fragment_of command;
         chan = unat (hd_channelID (pr_header command));
         fragmentLength = unat (fr_dataLength f);
         ch = channel_at (peer_at h i) chan;
         n = hd_reliableSequenceNumber (pr_header command);
         start = fr_startSequenceNumber f;
         current = ch_incomingReliableSequenceNumber ch;
         next = currentData + fragmentLength
     in if \<not> may_receive command (peer_at h i) then (-1, currentData, h)
        else if \<not> data_fits fragmentLength currentData h then (-1, next, h)
        else if \<not> in_window n current then (0, next, h)
        else if n = current \<and> start \<le> ch_incomingUnreliableSequenceNumber ch then (0, next, h)
        else if \<not> fragment_valid f h then (-1, next, h)
        else
          let (result, h) = collect_fragment i command (drop currentData (h_receivedData h)) False
                ENET_PACKET_FLAG_UNRELIABLE_FRAGMENT
                (find_unreliable_start n start current (rev (ch_incomingUnreliableCommands ch))) h
          in (result, next, h))"

section \<open>Control\<close>

definition enet_protocol_handle_ping :: "nat \<Rightarrow> host \<Rightarrow> int" where
  "enet_protocol_handle_ping i h = (if \<not> is_connected (p_state (peer_at h i)) then -1 else 0)"

definition enet_protocol_handle_bandwidth_limit :: "nat \<Rightarrow> u32 \<Rightarrow> u32 \<Rightarrow> host \<Rightarrow> int \<times> host" where
  "enet_protocol_handle_bandwidth_limit i incomingBandwidth outgoingBandwidth h =
    (if \<not> is_connected (p_state (peer_at h i)) then (-1, h)
     else
       let h = (if p_incomingBandwidth (peer_at h i) \<noteq> 0
                then h\<lparr>h_bandwidthLimitedPeers := sz_dec (h_bandwidthLimitedPeers h)\<rparr> else h);
           h = (if incomingBandwidth \<noteq> 0
                then h\<lparr>h_bandwidthLimitedPeers := h_bandwidthLimitedPeers h + 1\<rparr> else h)
       in (0, upd_peer i (\<lambda>p. p\<lparr>p_incomingBandwidth := incomingBandwidth,
                p_outgoingBandwidth := outgoingBandwidth,
                p_windowSize := bandwidth_window incomingBandwidth (h_outgoingBandwidth h)\<rparr>) h))"

definition enet_protocol_handle_throttle_configure :: "nat \<Rightarrow> u32 \<Rightarrow> u32 \<Rightarrow> u32 \<Rightarrow> host \<Rightarrow> int \<times> host" where
  "enet_protocol_handle_throttle_configure i interval acceleration deceleration h =
    (if \<not> is_connected (p_state (peer_at h i)) then (-1, h)
     else (0, upd_peer i (\<lambda>p. p\<lparr>p_packetThrottleInterval := interval,
            p_packetThrottleAcceleration := acceleration,
            p_packetThrottleDeceleration := deceleration\<rparr>) h))"

definition enet_protocol_handle_disconnect :: "nat \<Rightarrow> protocol \<Rightarrow> u32 \<Rightarrow> host \<Rightarrow> int \<times> host" where
  "enet_protocol_handle_disconnect i command data h =
    (let s = p_state (peer_at h i)
     in if s = Disconnected \<or> s = Zombie \<or> s = Acknowledging_Disconnect then (0, h)
        else
          let h = enet_peer_reset_queues i h;
              h = (if s = Connection_Succeeded \<or> s = Disconnecting \<or> s = Connecting
                   then enet_protocol_dispatch_state i Zombie h
                   else if s \<noteq> Connected \<and> s \<noteq> Disconnect_Later
                   then enet_peer_reset i
                     (if s = Connection_Pending then h\<lparr>h_recalculateBandwidthLimits := True\<rparr> else h)
                   else if is_acknowledged command
                   then enet_protocol_change_state i Acknowledging_Disconnect h
                   else enet_protocol_dispatch_state i Zombie h)
          in (0, if p_state (peer_at h i) \<noteq> Disconnected
                 then upd_peer i (\<lambda>p. p\<lparr>p_eventData := data\<rparr>) h else h))"

section \<open>Acknowledgements\<close>

text \<open>The time a command was sent, from the 16 bits of it that the acknowledgement carries.\<close>

definition received_sent_time :: "u16 \<Rightarrow> u32 \<Rightarrow> u32" where
  "received_sent_time t now =
    (let r = ucast t OR (now AND 0xFFFF0000)
     in if (r AND 0x8000) > (now AND 0x8000) then r - 0x10000 else r)"

definition update_round_trip :: "u32 \<Rightarrow> peer \<Rightarrow> peer" where
  "update_round_trip rtt p =
    (if p_lastReceiveTime p > 0
     then
       let p = snd (enet_peer_throttle rtt p);
           p = p\<lparr>p_roundTripTimeVariance := p_roundTripTimeVariance p - p_roundTripTimeVariance p div 4\<rparr>
       in if rtt \<ge> p_roundTripTime p
          then let diff = rtt - p_roundTripTime p
               in p\<lparr>p_roundTripTimeVariance := p_roundTripTimeVariance p + diff div 4,
                    p_roundTripTime := p_roundTripTime p + diff div 8\<rparr>
          else let diff = p_roundTripTime p - rtt
               in p\<lparr>p_roundTripTimeVariance := p_roundTripTimeVariance p + diff div 4,
                    p_roundTripTime := p_roundTripTime p - diff div 8\<rparr>
     else p\<lparr>p_roundTripTime := rtt, p_roundTripTimeVariance := (rtt + 1) div 2\<rparr>)"

definition measure_round_trip :: "u32 \<Rightarrow> u32 \<Rightarrow> peer \<Rightarrow> peer" where
  "measure_round_trip now rtt p =
    (let p = update_round_trip rtt p;
         p = (if p_roundTripTime p < p_lowestRoundTripTime p
              then p\<lparr>p_lowestRoundTripTime := p_roundTripTime p\<rparr> else p);
         p = (if p_roundTripTimeVariance p > p_highestRoundTripTimeVariance p
              then p\<lparr>p_highestRoundTripTimeVariance := p_roundTripTimeVariance p\<rparr> else p);
         p = (if p_packetThrottleEpoch p = 0
                 \<or> ENET_TIME_DIFFERENCE now (p_packetThrottleEpoch p) \<ge> p_packetThrottleInterval p
              then p\<lparr>p_lastRoundTripTime := p_lowestRoundTripTime p,
                     p_lastRoundTripTimeVariance := ENET_MAX (p_highestRoundTripTimeVariance p) 1,
                     p_lowestRoundTripTime := p_roundTripTime p,
                     p_highestRoundTripTimeVariance := p_roundTripTimeVariance p,
                     p_packetThrottleEpoch := now\<rparr> else p)
     in p\<lparr>p_lastReceiveTime := ENET_MAX now 1, p_earliestTimeout := 0\<rparr>)"

definition enet_protocol_handle_acknowledge ::
  "event option \<Rightarrow> nat \<Rightarrow> protocol \<Rightarrow> u16 \<Rightarrow> u16 \<Rightarrow> host \<Rightarrow> int \<times> event option \<times> host" where
  "enet_protocol_handle_acknowledge event i command number sentTime h =
    (let s = p_state (peer_at h i);
         now = h_serviceTime h;
         receivedSentTime = received_sent_time sentTime now
     in if s = Disconnected \<or> s = Zombie then (0, event, h)
        else if ENET_TIME_LESS now receivedSentTime then (0, event, h)
        else
          let rtt = ENET_MAX (ENET_TIME_DIFFERENCE now receivedSentTime) 1;
              h = upd_peer i (measure_round_trip now rtt) h;
              (commandNumber, h) = enet_protocol_remove_sent_reliable_command i number
                 (hd_channelID (pr_header command)) h
          in if s = Acknowledging_Connect
             then if commandNumber \<noteq> ENET_PROTOCOL_COMMAND_VERIFY_CONNECT then (-1, event, h)
                  else let (event, h) = enet_protocol_notify_connect i event h in (0, event, h)
             else if s = Disconnecting
             then if commandNumber \<noteq> ENET_PROTOCOL_COMMAND_DISCONNECT then (-1, event, h)
                  else let (event, h) = enet_protocol_notify_disconnect i event h in (0, event, h)
             else if s = Disconnect_Later then (0, event, disconnect_if_idle i h)
             else (0, event, h))"

definition verify_peer :: "connect_fields \<Rightarrow> peer \<Rightarrow> peer" where
  "verify_peer c p =
    (let channelCount = unat (cn_channelCount c);
         p = (if channelCount < p_channelCount p then p\<lparr>p_channelCount := channelCount\<rparr> else p);
         p = p\<lparr>p_outgoingPeerID := cn_outgoingPeerID c,
               p_incomingSessionID := cn_incomingSessionID c,
               p_outgoingSessionID := cn_outgoingSessionID c\<rparr>;
         mtu = clamp_mtu (cn_mtu c);
         p = (if mtu < p_mtu p then p\<lparr>p_mtu := mtu\<rparr> else p);
         windowSize = clamp_window (cn_windowSize c);
         p = (if windowSize < p_windowSize p then p\<lparr>p_windowSize := windowSize\<rparr> else p)
     in p\<lparr>p_incomingBandwidth := cn_incomingBandwidth c,
          p_outgoingBandwidth := cn_outgoingBandwidth c\<rparr>)"

definition enet_protocol_handle_verify_connect ::
  "event option \<Rightarrow> nat \<Rightarrow> connect_fields \<Rightarrow> host \<Rightarrow> int \<times> event option \<times> host" where
  "enet_protocol_handle_verify_connect event i c h =
    (let p = peer_at h i;
         channelCount = unat (cn_channelCount c)
     in if p_state p \<noteq> Connecting then (0, event, h)
        else if channelCount < ENET_PROTOCOL_MINIMUM_CHANNEL_COUNT
             \<or> channelCount > ENET_PROTOCOL_MAXIMUM_CHANNEL_COUNT
             \<or> cn_packetThrottleInterval c \<noteq> p_packetThrottleInterval p
             \<or> cn_packetThrottleAcceleration c \<noteq> p_packetThrottleAcceleration p
             \<or> cn_packetThrottleDeceleration c \<noteq> p_packetThrottleDeceleration p
             \<or> cn_connectID c \<noteq> p_connectID p
        then (-1, event, enet_protocol_dispatch_state i Zombie (upd_peer i (\<lambda>p. p\<lparr>p_eventData := 0\<rparr>) h))
        else
          let h = snd (enet_protocol_remove_sent_reliable_command i 1 0xFF h);
              h = upd_peer i (verify_peer c) h;
              (event, h) = enet_protocol_notify_connect i event h
          in (0, event, h))"

end
