(* ===== verification/Enet_Handlers_Safe.thy ===== *)
theory Enet_Handlers_Safe
  imports Enet_Handlers
begin

text \<open>
  Every handler keeps \<open>host_ok\<close> and the array of peers, whatever the command says: no access
  through a dangling pointer, no write past a buffer, no reference lost or counted twice, and
  the counters of the host right.
\<close>

section \<open>Connecting\<close>

lemma connect_scan_Some:
  "connect_scan from cid k ps peer d = Some (Some j, d') \<Longrightarrow>
    peer = Some j \<or> (k \<le> j \<and> j < k + length ps \<and> p_state (ps ! (j - k)) = Disconnected)"
proof (induction ps arbitrary: k peer d)
  case (Cons p ps)
  have step: "peer = Some j \<or> (k \<le> j \<and> j < k + length (p # ps) \<and> p_state ((p # ps) ! (j - k)) = Disconnected)"
    if con: "connect_scan from cid (Suc k) ps peer' d'' = Some (Some j, d')"
      and p': "peer' = peer \<or> (peer' = Some k \<and> p_state p = Disconnected)" for peer' d''
  proof -
    consider "peer' = Some j" | "Suc k \<le> j" "j < Suc k + length ps" "p_state (ps ! (j - Suc k)) = Disconnected"
      using Cons.IH [OF con] by blast
    then show ?thesis
    proof cases
      case 2
      then have "(p # ps) ! (j - k) = ps ! (j - Suc k)" by (simp add: nth_Cons' Suc_diff_le)
      then show ?thesis using 2 by simp
    qed (use p' in auto)
  qed
  show ?case
  proof (cases "p_state p = Disconnected")
    case True
    then show ?thesis using Cons.prems by (intro step [of "if peer = None then Some k else peer" d]) simp_all
  next
    case False
    then obtain d'' where "connect_scan from cid (Suc k) ps peer d'' = Some (Some j, d')"
      using Cons.prems by (auto split: if_splits)
    then show ?thesis by (rule step) simp
  qed
qed simp

lemma clamp_mtu_ok [simp]: "mtu_ok (clamp_mtu m)"
  by (auto simp: clamp_mtu_def mtu_ok_def protocol_limits)

lemma zero_channel_empty [simp]: "channel_refs zero_channel = {#}" "channel_cmds zero_channel = {#}"
  by (simp_all add: zero_channel_def channel_refs_def channel_cmds_def)

lemma channels_refs_zero [simp]: "channels_refs (replicate n zero_channel) = {#}"
  by (induction n) (simp_all add: channels_refs_def)

lemma host_ok_malloc: "host_malloc h = (ok, h') \<Longrightarrow> host_ok h' = host_ok h"
proof -
  assume m: "host_malloc h = (ok, h')"
  note f = host_mallocs_frame [OF m]
  have "acct_view h' = acct_view h" by (rule acct_of_frame [OF f(6)])
  moreover have "h_dispatchQueue h' = h_dispatchQueue h" using f(6) by (simp add: frame_view_def)
  ultimately show ?thesis using f(1,3) accounted_cong [of h' h] by (simp add: host_ok_def linked_ok_def)
qed

lemma accept_peer_fields [simp]:
  "p_state (accept_peer h c data n p) = Acknowledging_Connect"
  "p_channels (accept_peer h c data n p) = replicate n zero_channel"
  "p_channelCount (accept_peer h c data n p) = n"
  "p_mtu (accept_peer h c data n p) = clamp_mtu (cn_mtu c)"
  "p_outgoingCommands (accept_peer h c data n p) = p_outgoingCommands p"
  "p_sentReliableCommands (accept_peer h c data n p) = p_sentReliableCommands p"
  "p_sentUnreliableCommands (accept_peer h c data n p) = p_sentUnreliableCommands p"
  "p_dispatchedCommands (accept_peer h c data n p) = p_dispatchedCommands p"
  "p_roundTripTime (accept_peer h c data n p) = p_roundTripTime p"
  "p_roundTripTimeVariance (accept_peer h c data n p) = p_roundTripTimeVariance p"
  by (simp_all add: accept_peer_def)

lemma accept_peer_refs:
  assumes "p_state p = Disconnected" "peer_ok p" "n \<le> ENET_PROTOCOL_MAXIMUM_CHANNEL_COUNT"
  shows "peer_refs (accept_peer h c data n p) = peer_refs p" "peer_ok (accept_peer h c data n p)"
proof -
  have e: "channels_refs (p_channels p) = {#}" "\<forall>c \<in> set (p_dispatchedCommands p). command_ok c"
    "\<forall>c \<in> set (p_outgoingCommands p) \<union> set (p_sentReliableCommands p). outgoing_ok c"
    "traffic_ok (p_mtu p, True, p_outgoingCommands p, p_sentReliableCommands p, p_roundTripTime p,
       p_roundTripTimeVariance p)"
    using assms by (simp_all add: peer_ok_defs idle_def)
  have z: "sum_list (map channel_cmds (replicate k zero_channel)) = {#}" for k
    by (induction k) simp_all
  show "peer_refs (accept_peer h c data n p) = peer_refs p"
    using e by (simp add: peer_refs_def)
  show "peer_ok (accept_peer h c data n p)"
    unfolding peer_ok_defs accept_peer_fields z using e(2,3) traffic_ok_mtu [OF e(4) clamp_mtu_ok] assms(3)
    by (simp add: idle_def)
qed

lemma handle_connect_ok:
  assumes h: "host_ok h"
  shows "host_ok (snd (enet_protocol_handle_connect c data h))"
    "length (h_peers (snd (enet_protocol_handle_connect c data h))) = length (h_peers h)"
    "fst (enet_protocol_handle_connect c data h) = Some i \<Longrightarrow> i < length (h_peers h)"
proof -
  let ?n = "unat (cn_channelCount c)"
  let ?s = "connect_scan (h_receivedAddress h) (cn_connectID c) 0 (h_peers h) None 0"
  obtain ok h1 where m: "host_malloc h = (ok, h1)" by fastforce
  note f1 = host_mallocs_frame [OF m]
  have r: "host_ok (snd (enet_protocol_handle_connect c data h))
      \<and> length (h_peers (snd (enet_protocol_handle_connect c data h))) = length (h_peers h)
      \<and> (fst (enet_protocol_handle_connect c data h) = Some i \<longrightarrow> i < length (h_peers h))"
  proof (cases "ENET_PROTOCOL_MINIMUM_CHANNEL_COUNT \<le> ?n \<and> ?n \<le> ENET_PROTOCOL_MAXIMUM_CHANNEL_COUNT
      \<and> (\<exists>j d. ?s = Some (Some j, d) \<and> d < h_duplicatePeers h)")
    case False
    then show ?thesis using h
      by (auto simp: enet_protocol_handle_connect_def Let_def split: option.splits)
  next
    case True
    then obtain j d where j: "?s = Some (Some j, d)" "d < h_duplicatePeers h" by blast
    have jl: "j < length (h_peers h)" "p_state (peer_at h j) = Disconnected"
      using connect_scan_Some [OF j(1)] by (simp_all add: peer_at_def)
    let ?m = "if ?n > h_channelLimit h then h_channelLimit h else ?n"
    have mn: "?m \<le> ENET_PROTOCOL_MAXIMUM_CHANNEL_COUNT" using True by auto
    have h1: "host_ok h1" "j < length (h_peers h1)" "peer_at h1 j = peer_at h j"
      using host_ok_malloc [OF m] h f1 jl by simp_all
    have ok: "peer_ok (peer_at h j)" using memory_safe_at [OF host_ok_memory [OF h] jl(1)] by simp
    have none: "host_ok (upd_peer j (\<lambda>p. p\<lparr>p_channels := []\<rparr>) h1)"
      by (rule host_ok_fields [OF h1(1)])
        (use ok jl h1 in \<open>simp_all add: peer_refs_def peer_ok_defs idle_def\<close>)
    let ?h2 = "upd_peer j (accept_peer h1 c data ?m) h1"
    have h2: "host_ok ?h2"
      by (rule host_ok_peer [OF h1(1,2)])
        (use accept_peer_refs [OF jl(2) ok mn] jl h1 in \<open>simp_all add: is_connected_def\<close>)
    have "host_ok (snd (enet_peer_queue_outgoing_command j (verify_command g w k p) None 0 0 ?h2))" for g w k p
      by (rule host_ok_queue_outgoing [OF h2]) (use h1 in \<open>simp_all add: verify_command_def\<close>)
    then show ?thesis
      using True none j jl f1
      by (cases ok) (simp_all add: enet_protocol_handle_connect_def Let_def m)
  qed
  then show "host_ok (snd (enet_protocol_handle_connect c data h))"
    "length (h_peers (snd (enet_protocol_handle_connect c data h))) = length (h_peers h)"
    "fst (enet_protocol_handle_connect c data h) = Some i \<Longrightarrow> i < length (h_peers h)" by simp_all
qed

section \<open>Data\<close>

lemma queue_incoming_ok:
  assumes "host_ok h" "i < length (h_peers h)" "may_receive command (peer_at h i)" "source_ok data n flags"
  shows "host_ok (snd (enet_peer_queue_incoming_command i command data n flags fragmentCount h))"
    "length (h_peers (snd (enet_peer_queue_incoming_command i command data n flags fragmentCount h))) = length (h_peers h)"
proof -
  let ?h = "snd (enet_peer_queue_incoming_command i command data n flags fragmentCount h)"
  note m = queue_incoming_marks [OF assms(2), of command data n flags fragmentCount]
  have "memory_safe ?h"
    by (rule queue_incoming_safe [OF host_ok_memory [OF assms(1)] assms(2)])
      (use assms(3,4) in \<open>auto simp: may_receive_def idle_def is_connected_def\<close>)
  then show "host_ok ?h" by (rule host_ok_marks [OF assms(1) _ m assms(2)])
  show "length (h_peers ?h) = length (h_peers h)" using acct_view_length [OF marks_acct [OF m]] .
qed

lemma source_ok_received: "data_fits n cd h \<Longrightarrow> source_ok (Some (drop cd (h_receivedData h))) n flags"
  by (auto simp: source_ok_def data_fits_def)

lemma handle_send_reliable_ok:
  assumes "host_ok h" "i < length (h_peers h)"
  shows "host_ok (snd (snd (enet_protocol_handle_send_reliable i command cd h)))"
    "length (h_peers (snd (snd (enet_protocol_handle_send_reliable i command cd h)))) = length (h_peers h)"
  using assms queue_incoming_ok [OF assms _ source_ok_received, of command]
  by (auto simp: enet_protocol_handle_send_reliable_def Let_def split: prod.splits) (metis snd_conv)+

lemma handle_send_unreliable_ok:
  assumes "host_ok h" "i < length (h_peers h)"
  shows "host_ok (snd (snd (enet_protocol_handle_send_unreliable i command cd h)))"
    "length (h_peers (snd (snd (enet_protocol_handle_send_unreliable i command cd h)))) = length (h_peers h)"
  using assms queue_incoming_ok [OF assms _ source_ok_received, of command]
  by (auto simp: enet_protocol_handle_send_unreliable_def Let_def split: prod.splits) (metis snd_conv)+

lemma enter_group_fields:
  "enter_group g p = Some q \<Longrightarrow> \<exists>n w. q = p\<lparr>p_incomingUnsequencedGroup := n, p_unsequencedWindow := w\<rparr>"
proof -
  assume "enter_group g p = Some q"
  then have "q = p \<or> (\<exists>n. q = p\<lparr>p_incomingUnsequencedGroup := n,
      p_unsequencedWindow := map (\<lambda>_. 0) (p_unsequencedWindow p)\<rparr>)"
    by (auto simp: enter_group_def Let_def split: if_splits)
  moreover have "p = p\<lparr>p_incomingUnsequencedGroup := p_incomingUnsequencedGroup p,
      p_unsequencedWindow := p_unsequencedWindow p\<rparr>" by simp
  ultimately show ?thesis by metis
qed

lemma handle_send_unsequenced_ok:
  assumes h: "host_ok h" and i: "i < length (h_peers h)"
  shows "host_ok (snd (snd (enet_protocol_handle_send_unsequenced i command cd h)))"
    "length (h_peers (snd (snd (enet_protocol_handle_send_unsequenced i command cd h)))) = length (h_peers h)"
proof -
  let ?g = "ucast (unsequenced_group_of command)"
  let ?d = "Some (drop cd (h_receivedData h))"
  have "host_ok (snd (snd (enet_protocol_handle_send_unsequenced i command cd h)))
    \<and> length (h_peers (snd (snd (enet_protocol_handle_send_unsequenced i command cd h)))) = length (h_peers h)"
  proof (cases "may_receive command (peer_at h i) \<and> data_fits (data_length_of command) cd h \<and> enter_group ?g (peer_at h i) \<noteq> None")
    case False
    then show ?thesis using h by (auto simp: enet_protocol_handle_send_unsequenced_def Let_def)
  next
    case True
    then obtain p where p: "enter_group ?g (peer_at h i) = Some p" by blast
    let ?h = "upd_peer i (\<lambda>_. p) h"
    obtain n w where pw: "p = (peer_at h i)\<lparr>p_incomingUnsequencedGroup := n, p_unsequencedWindow := w\<rparr>"
      using enter_group_fields [OF p] by blast
    have h1: "host_ok ?h" by (rule host_ok_fields [OF h]) (simp_all add: pw peer_refs_def peer_ok_defs)
    have a: "may_receive command (peer_at ?h i)" "i < length (h_peers ?h)"
      using True i by (simp_all add: pw may_receive_def)
    obtain q h2 where q: "enet_peer_queue_incoming_command i command ?d (data_length_of command)
        ENET_PACKET_FLAG_UNSEQUENCED 0 ?h = (q, h2)" by fastforce
    have h2: "host_ok h2" "length (h_peers h2) = length (h_peers h)"
      using queue_incoming_ok [OF h1 a(2,1) source_ok_received, of "data_length_of command" cd h
          ENET_PACKET_FLAG_UNSEQUENCED 0] True q by simp_all
    have "host_ok (upd_peer i (mark_group ?g) h2)"
      by (rule host_ok_fields [OF h2(1)]) (simp_all add: mark_group_def Let_def peer_refs_def peer_ok_defs)
    then show ?thesis using True p q h2
      by (simp add: enet_protocol_handle_send_unsequenced_def Let_def)
  qed
  then show "host_ok (snd (snd (enet_protocol_handle_send_unsequenced i command cd h)))"
    "length (h_peers (snd (snd (enet_protocol_handle_send_unsequenced i command cd h)))) = length (h_peers h)" by simp_all
qed

section \<open>Fragments\<close>

lemma unat_u16_u32: "unat (ucast (w :: u16) :: u32) = unat w"
proof -
  have "unat w < 2 ^ 32" using number_bounds [of w] by simp
  then show ?thesis by (simp add: unsigned_ucast_eq take_bit_nat_eq_self)
qed

lemma fragment_bounds:
  assumes "fragment_valid f h"
  shows "fr_fragmentNumber f < fr_fragmentCount f" "unat (fr_totalLength f) \<le> h_maximumPacketSize h"
    "unat (fr_fragmentOffset f) + unat (fr_dataLength f) \<le> unat (fr_totalLength f)"
    "unat (fr_fragmentOffset f + ucast (fr_dataLength f)) = unat (fr_fragmentOffset f) + unat (fr_dataLength f)"
proof -
  have v: "fr_fragmentNumber f < fr_fragmentCount f" "unat (fr_totalLength f) \<le> h_maximumPacketSize h"
    "fr_fragmentOffset f < fr_totalLength f" "ucast (fr_dataLength f) \<le> fr_totalLength f - fr_fragmentOffset f"
    using assms by (auto simp: fragment_valid_def not_le not_less)
  then show "fr_fragmentNumber f < fr_fragmentCount f" "unat (fr_totalLength f) \<le> h_maximumPacketSize h" by simp_all
  note u = unat_u16_u32 [of "fr_dataLength f"]
  have "unat (fr_totalLength f - fr_fragmentOffset f) = unat (fr_totalLength f) - unat (fr_fragmentOffset f)"
    using v(3) by (simp add: unat_sub less_imp_le)
  then show b: "unat (fr_fragmentOffset f) + unat (fr_dataLength f) \<le> unat (fr_totalLength f)"
    using v(3,4) u by (simp add: word_le_unat word_less_unat)
  have "unat (fr_totalLength f) < 2 ^ 32" using unsigned_less [of "fr_totalLength f"] by simp
  then have "unat (fr_fragmentOffset f) + unat (ucast (fr_dataLength f) :: u32) < 2 ^ LENGTH(32)"
    using b u by simp
  then show "unat (fr_fragmentOffset f + ucast (fr_dataLength f)) = unat (fr_fragmentOffset f) + unat (fr_dataLength f)"
    using u unat_plus_simple no_olen_add_nat by (metis (mono_tags, opaque_lifting))
qed

lemma channel_queue_cmds: "c \<in> set (channel_queue reliable ch) \<Longrightarrow> c \<in># channel_cmds ch"
  by (auto simp: channel_queue_def channel_cmds_def split: if_splits)

lemma in_refs_map: "in_refs q = mset (map ic_packet q)"
  by (simp add: in_refs_def)

text \<open>One command of a queue replaced by another with the same packet.\<close>

lemma map_upd_nth_at: "g (f (xs ! i)) = g (xs ! i) \<Longrightarrow> map g (upd_nth i f xs) = map g xs"
  by (cases "i < length xs") (simp_all add: upd_nth_def map_update list_update_same_conv list_update_beyond)

lemma replace_command:
  assumes c: "chan < length (p_channels p)" and pos: "pos < length q"
    and q: "q = channel_queue reliable (channel_at p chan)" and k: "ic_packet c' = ic_packet (q ! pos)"
    and f: "f = upd_queue reliable (\<lambda>q. q[pos := c'])" and ok: "command_ok c'"
  shows "peer_refs (upd_channel chan f p) = peer_refs p" "peer_ok p \<Longrightarrow> peer_ok (upd_channel chan f p)"
proof -
  have "map ic_packet (q[pos := c']) = map ic_packet q"
    using pos k by (simp add: map_update list_update_same_conv)
  then have "in_refs (q[pos := c']) = in_refs q" by (simp only: in_refs_map)
  then have r: "channel_refs (f (channel_at p chan)) = channel_refs (channel_at p chan)"
    by (simp add: f upd_queue_def channel_refs_def q channel_queue_def split: if_splits)
  then have m: "map channel_refs (upd_nth chan f (p_channels p)) = map channel_refs (p_channels p)"
    by (simp add: map_upd_nth_at channel_at_def)
  show "peer_refs (upd_channel chan f p) = peer_refs p"
    by (simp add: peer_refs_def channels_refs_def m)
  assume p: "peer_ok p"
  have "d \<in># channel_cmds (f (channel_at p chan)) \<Longrightarrow> d = c' \<or> d \<in># channel_cmds (channel_at p chan)" for d
    using set_update_subset_insert [of q pos c']
    by (auto simp: f upd_queue_def channel_cmds_def q channel_queue_def split: if_splits)
  then have "d \<in># channel_cmds (f (channel_at p chan)) \<Longrightarrow> command_ok d" for d
    using peer_ok_channel [OF p c] ok by blast
  then have "\<forall>d \<in># incoming_cmds (upd_channel chan f p). command_ok d"
    using p c by (auto simp: peer_ok_def incoming_cmds_channel [of chan] upd_nth_def)
  moreover have "map channel_refs (drop n (upd_nth chan f (p_channels p))) = map channel_refs (drop n (p_channels p))" for n
    using m by (simp add: drop_map [symmetric])
  ultimately show "peer_ok (upd_channel chan f p)"
    using p m by (simp add: peer_ok_def channels_refs_def)
qed

lemma write_packet_safe:
  assumes s: "memory_safe h" and a: "alive h (Some p)"
    and n: "n \<le> length src" "offset + n \<le> length (packet_bytes (h_mem h) p)"
  shows "memory_safe (upd_mem (write_packet (Some p) offset n src) h)"
proof -
  obtain k where k: "packets (h_mem h) p = Some k" using a by (auto simp: alive_def)
  let ?f = "\<lambda>k. k\<lparr>pk_data := take offset (pk_data k) @ take n src @ drop (offset + n) (pk_data k)\<rparr>"
  have "refs_ok (h_mem h) ({#} + held h)" using s by (simp add: memory_safe_def)
  then have "refs_ok (upd_packet p ?f (h_mem h)) ({#} + held h)"
    by (rule refs_ok_upd [OF _ k])
      (use s k n refs_ok_count in \<open>auto simp: memory_safe_def buffer_holds_def packet_bytes_def\<close>)
  then show ?thesis using s n by (simp add: write_packet_def memory_safe_def held_def limits_ok_def)
qed

lemma host_ok_upd_mem: "host_ok h \<Longrightarrow> memory_safe (upd_mem g h) \<Longrightarrow> host_ok (upd_mem g h)"
  by (erule host_ok_frame) simp_all

lemma packet_of_command:
  assumes s: "memory_safe h" and i: "i < length (h_peers h)" and c: "chan < length (p_channels (peer_at h i))"
    and d: "d \<in># channel_cmds (channel_at (peer_at h i) chan)"
  obtains p k where "ic_packet d = Some p" "ic_id d = Suc p" "packets (h_mem h) p = Some k" "alive h (Some p)"
proof -
  note m = memory_safe_at [OF s i]
  have "command_ok d" using m peer_ok_channel c d by blast
  then obtain p where p: "ic_packet d = Some p" "ic_id d = Suc p" by (auto simp: command_ok_def split: option.splits)
  have "Some p \<in># channel_refs (channel_at (peer_at h i) chan)"
    unfolding channel_refs_cmds p(1) [symmetric] using d by simp
  then have "Some p \<in># peer_refs (peer_at h i) + others i h"
    using c by (simp add: peer_refs_channel [of chan])
  then obtain k where k: "packets (h_mem h) p = Some k" using m refs_ok_alive unfolding safe_at_def by blast
  then show ?thesis using that p by (simp add: alive_def)
qed

lemma dispatches_ok:
  assumes h: "host_ok h" and i: "i < length (h_peers h)" and c: "c < length (p_channels (peer_at h i))"
  shows "host_ok (enet_peer_dispatch_incoming_reliable_commands i c ex h)"
    "host_ok (enet_peer_dispatch_incoming_unreliable_commands i c ex h)"
    "length (h_peers (enet_peer_dispatch_incoming_reliable_commands i c ex h)) = length (h_peers h)"
    "length (h_peers (enet_peer_dispatch_incoming_unreliable_commands i c ex h)) = length (h_peers h)"
  using host_ok_marks [OF h dispatch_reliable_safe [OF host_ok_memory [OF h] i c] dispatch_reliable_marks [OF i] i]
    host_ok_marks [OF h dispatch_unreliable_safe [OF host_ok_memory [OF h] i c] dispatch_unreliable_marks [OF i] i]
    acct_view_length [OF marks_acct [OF dispatch_reliable_marks [OF i]]]
    acct_view_length [OF marks_acct [OF dispatch_unreliable_marks [OF i]]]
  by simp_all

text \<open>
  Storing a fragment, given the command that collects its packet.
\<close>

definition collector :: "fragment_fields \<Rightarrow> memory \<Rightarrow> incoming_command \<Rightarrow> bool" where
  "collector f m c \<longleftrightarrow> fr_fragmentNumber f < ic_fragmentCount c \<and> packet_size m (ic_packet c) = unat (fr_totalLength f)"

lemma unat_u32_bounds: "unat (w :: u32) < 4294967296"
  using unsigned_less [of w] by simp

lemma store_fragment_ok:
  assumes h: "host_ok h" and i: "i < length (h_peers h)" and c: "chan < length (p_channels (peer_at h i))"
    and q: "q = channel_queue reliable (channel_at (peer_at h i) chan)" and pos: "pos < length q"
    and col: "collector f (h_mem h) (q ! pos)" and v: "fragment_valid f g"
    and data: "unat (fr_dataLength f) \<le> length data"
  shows "host_ok (store_fragment i chan reliable pos f data h)
    \<and> length (h_peers (store_fragment i chan reliable pos f data h)) = length (h_peers h)"
proof -
  note s = host_ok_memory [OF h] and b = fragment_bounds [OF v]
  let ?c = "q ! pos"
  have d: "?c \<in># channel_cmds (channel_at (peer_at h i) chan)"
    using pos q channel_queue_cmds by (metis nth_mem)
  obtain p k where p: "ic_packet ?c = Some p" "ic_id ?c = Suc p" "packets (h_mem h) p = Some k" "alive h (Some p)"
    using packet_of_command [OF s i c d] by blast
  have "command_ok ?c" using memory_safe_at [OF s i] peer_ok_channel c d by blast
  moreover have "ic_fragmentCount ?c \<noteq> 0" using col by (auto simp: collector_def)
  ultimately obtain bits where bits: "ic_fragments ?c = Some bits" "length bits = (unat (ic_fragmentCount ?c) + 31) div 32"
    by (auto simp: command_ok_def fragments_ok_def split: option.splits)
  let ?w = "unat (fr_fragmentNumber f) div 32"
  let ?b = "push_bit (unat (fr_fragmentNumber f) mod 32) 1 :: u32"
  have w: "?w < length bits" using col unfolding bits(2) collector_def word_less_unat by linarith
  let ?c' = "?c\<lparr>ic_fragmentsRemaining := ic_fragmentsRemaining ?c - 1, ic_fragments := Some (bits[?w := bits ! ?w OR ?b])\<rparr>"
  let ?u = "upd_queue reliable (\<lambda>q. q[pos := ?c'])"
  show ?thesis
  proof (cases "bits ! ?w AND ?b \<noteq> 0")
    case True
    then show ?thesis using h w by (simp add: store_fragment_def Let_def q [symmetric] bits(1))
  next
    case new: False
  have unset: "\<not> bit (bits ! ?w) (unat (fr_fragmentNumber f) mod 32)"
    using new and_push_bit_1 [of "unat (fr_fragmentNumber f) mod 32" "bits ! ?w"] by (metis mod_less_divisor zero_less_numeral)
  have "unat (fr_fragmentNumber f) < unat (ic_fragmentCount ?c)" using col by (simp add: collector_def word_less_nat_alt)
  note mark = missing_mark [OF this w unset]
  have "unat (ic_fragmentsRemaining ?c - 1) = unat (ic_fragmentsRemaining ?c) - 1"
    using mark \<open>command_ok ?c\<close> bits col
    by (auto simp: command_ok_def fragments_ok_def collector_def unat_sub_if' word_le_nat_alt)
  then have c': "command_ok ?c'" "ic_packet ?c' = ic_packet ?c"
    using \<open>command_ok ?c\<close> bits p(1,2) mark col
    by (simp_all only: command_ok_def fragments_ok_def collector_def incoming_command.simps option.case length_list_update, auto)
  note r = replace_command [OF c pos q c'(2) refl c'(1)]
  let ?h1 = "upd_peer i (upd_channel chan ?u) h"
  have h1: "host_ok ?h1" by (rule host_ok_fields [OF h]) (use r in simp_all)
  let ?n = "unat (fr_dataLength f)"
  have size: "packet_size (h_mem h) (ic_packet ?c) = unat (fr_totalLength f)" using col by (simp add: collector_def)
  then have "unat (fr_totalLength f) = pk_dataLength k" using p by (simp add: packet_size_def packet_length_def)
  moreover have "pk_dataLength k \<le> length (pk_data k)"
    using s p(3) refs_ok_buffer unfolding memory_safe_def by blast
  ultimately have len: "unat (fr_fragmentOffset f) + ?n \<le> length (packet_bytes (h_mem h) p)"
    using b(3) p(3) by (simp add: packet_bytes_def)
  let ?h2 = "upd_mem (write_packet (Some p) (unat (fr_fragmentOffset f)) ?n data) ?h1"
  have "memory_safe ?h2"
    by (rule write_packet_safe [OF host_ok_memory [OF h1]]) (use p data len in \<open>simp_all add: alive_def\<close>)
  then have h2: "host_ok ?h2" by (rule host_ok_upd_mem [OF h1])
  have i2: "i < length (h_peers ?h2)" "chan < length (p_channels (peer_at ?h2 i))" using i c by simp_all
  note dis = dispatches_ok [OF h2 i2, of None]
  have nofit: "\<not> unat (fr_fragmentOffset f + ucast (fr_dataLength f)) > unat (fr_totalLength f)" using b(3,4) by simp
  have eq: "store_fragment i chan reliable pos f data h = (if bits ! ?w AND ?b \<noteq> 0 then h
      else if ic_fragmentsRemaining ?c' \<le> 0
        then if reliable then enet_peer_dispatch_incoming_reliable_commands i chan None ?h2
             else enet_peer_dispatch_incoming_unreliable_commands i chan None ?h2
        else ?h2)"
    using w nofit p(1) size
    by (simp add: store_fragment_def Let_def q [symmetric] bits(1) unat_u16_u32)
  show ?thesis unfolding eq using h h2 dis
    by (simp only: upd_mem_frame peers_upd_peer length_upd_nth simp_thms split: if_split)
  qed
qed

text \<open>What stays of a command that waits for its fragments when its channel is dispatched.\<close>

definition sizes_kept :: "memory \<Rightarrow> memory \<Rightarrow> bool" where
  "sizes_kept m m' \<longleftrightarrow> (\<forall>p k'. packets m' p = Some k' \<longrightarrow>
     (\<exists>k. packets m p = Some k \<and> pk_dataLength k' = pk_dataLength k))"

lemma sizes_kept_refl [simp]: "sizes_kept m m"
  by (simp add: sizes_kept_def)

lemma sizes_kept_trans: "sizes_kept m m1 \<Longrightarrow> sizes_kept m1 m2 \<Longrightarrow> sizes_kept m m2"
  unfolding sizes_kept_def by metis

lemma release_sizes_kept: "sizes_kept m (packet_release x m)"
  by (auto simp: sizes_kept_def packet_release_def packet_unref_def upd_packet_def enet_packet_destroy_def Let_def
      split: option.splits if_splits)

lemma remove_incoming_sizes: "sizes_kept m (snd (enet_peer_remove_incoming_commands q ex m))"
proof (induction q arbitrary: m)
  case (Cons c q)
  show ?case
    using Cons.IH [of m] sizes_kept_trans [OF release_sizes_kept [of m "ic_packet c"] Cons.IH]
    by (cases "ex = Some (ic_id c)") (simp_all add: case_prod_beta)
qed simp

lemma remove_incoming_spares:
  "d \<in> set q \<Longrightarrow> d \<in> set (fst (enet_peer_remove_incoming_commands q (Some (ic_id d)) m))"
proof (induction q arbitrary: m)
  case (Cons c q)
  then show ?case by (auto simp: case_prod_beta)
qed simp

lemma dispatch_unreliable_keeps:
  assumes i: "i < length (h_peers h)" and c: "c < length (p_channels (peer_at h i))"
    and d: "d \<in> set (ch_incomingUnreliableCommands (channel_at (peer_at h i) c))"
      "kind_of (ic_command d) \<noteq> ENET_PROTOCOL_COMMAND_SEND_UNSEQUENCED" "ic_fragmentsRemaining d \<noteq> 0"
  defines "h' \<equiv> enet_peer_dispatch_incoming_unreliable_commands i c (Some (ic_id d)) h"
  shows "d \<in> set (ch_incomingUnreliableCommands (channel_at (peer_at h' i) c))
    \<and> set (ch_incomingUnreliableCommands (channel_at (peer_at h' i) c))
        \<subseteq> set (ch_incomingUnreliableCommands (channel_at (peer_at h i) c))"
proof -
  let ?ch = "channel_at (peer_at h i) c"
  obtain u passed pending e moved rest left m d' q and f :: "channel \<Rightarrow> channel" where
    sc: "unreliable_scan (ch_incomingReliableSequenceNumber ?ch)
       (ch_incomingUnreliableSequenceNumber ?ch) [] [] 0 [] (ch_incomingUnreliableCommands ?ch)
       = (u, passed, pending, e, moved, rest)" and q: "q = passed @ rest"
    and rm: "enet_peer_remove_incoming_commands (take d' q) (Some (ic_id d)) (h_mem h) = (left, m)"
    and f: "f = (\<lambda>ch. ch\<lparr>ch_incomingUnreliableSequenceNumber := u,
            ch_incomingUnreliableCommands := left @ drop d' q\<rparr>)"
    and h': "h' = (let h = upd_peer i (\<lambda>p. upd_channel c f
             (p\<lparr>p_dispatchedCommands := p_dispatchedCommands p @ (moved @ pending)\<rparr>)) (h\<lparr>h_mem := m\<rparr>)
       in if moved @ pending \<noteq> [] then mark_dispatch i h else h)"
    unfolding h'_def by (rule dispatch_unreliable_unfold [of h i c "Some (ic_id d)"])
  have at: "channel_at (p\<lparr>p_dispatchedCommands := x\<rparr>) c = channel_at p c" for p x by (simp add: channel_at_def)
  have "channel_at (peer_at h' i) c = f ?ch" using i c by (simp add: h' Let_def at)
  then have ch: "ch_incomingUnreliableCommands (channel_at (peer_at h' i) c) = left @ drop d' q" by (simp add: f)
  obtain xs where xs: "moved @ pending = xs"
    "\<forall>c \<in> set xs. kind_of (ic_command c) = ENET_PROTOCOL_COMMAND_SEND_UNSEQUENCED
       \<or> ic_reliableSequenceNumber c = ch_incomingReliableSequenceNumber ?ch \<and> ic_fragmentsRemaining c = 0"
    using unreliable_scan_moved [OF sc] by auto
  have ms: "mset (ch_incomingUnreliableCommands ?ch) = mset (q @ moved @ pending)"
    using unreliable_scan_mset [OF sc] by (simp add: q ac_simps)
  then have set: "set (ch_incomingUnreliableCommands ?ch) = set q \<union> set (moved @ pending)"
    using mset_eq_setD [OF ms] by simp
  have "d \<notin> set (moved @ pending)" using xs d(2,3) by auto
  then have "d \<in> set q" using d(1) set by blast
  then have "d \<in> set (take d' q) \<or> d \<in> set (drop d' q)" by (metis UnE append_take_drop_id set_append)
  then have "d \<in> set (left @ drop d' q)"
    using remove_incoming_spares [of d "take d' q" "h_mem h"] rm by auto
  moreover have "set left \<subseteq> set (take d' q)"
    using remove_incoming_subset [of "take d' q" "Some (ic_id d)" "h_mem h"] rm set_mset_mono by fastforce
  then have "set (left @ drop d' q) \<subseteq> set q" using set_take_subset set_drop_subset by fastforce
  ultimately show ?thesis using ch set by auto
qed

lemma dispatch_unreliable_frame:
  fixes ex :: "nat option" and h :: host and i c :: nat
  assumes i: "i < length (h_peers h)" and c: "c < length (p_channels (peer_at h i))"
  defines "h' \<equiv> enet_peer_dispatch_incoming_unreliable_commands i c ex h"
  shows "sizes_kept (h_mem h) (h_mem h')"
    "ch_incomingReliableCommands (channel_at (peer_at h' i) c) = ch_incomingReliableCommands (channel_at (peer_at h i) c)"
    "length (p_channels (peer_at h' i)) = length (p_channels (peer_at h i))"
proof -
  have at: "channel_at (p\<lparr>p_dispatchedCommands := x\<rparr>) c = channel_at p c" for p x by (simp add: channel_at_def)
  have "sizes_kept (h_mem h) (h_mem h') \<and>
    ch_incomingReliableCommands (channel_at (peer_at h' i) c) = ch_incomingReliableCommands (channel_at (peer_at h i) c) \<and>
    length (p_channels (peer_at h' i)) = length (p_channels (peer_at h i))"
  proof (rule dispatch_unreliable_unfold [of h i c ex])
    fix u moved pending left m d' q and f :: "channel \<Rightarrow> channel"
    assume rm: "enet_peer_remove_incoming_commands (take d' q) ex (h_mem h) = (left, m)"
      and f: "f = (\<lambda>ch. ch\<lparr>ch_incomingUnreliableSequenceNumber := u,
            ch_incomingUnreliableCommands := left @ drop d' q\<rparr>)"
      and eq: "enet_peer_dispatch_incoming_unreliable_commands i c ex h = (let h = upd_peer i (\<lambda>p. upd_channel c f
             (p\<lparr>p_dispatchedCommands := p_dispatchedCommands p @ (moved @ pending)\<rparr>)) (h\<lparr>h_mem := m\<rparr>)
       in if moved @ pending \<noteq> [] then mark_dispatch i h else h)"
    show ?thesis
      unfolding h'_def eq using remove_incoming_sizes [of "h_mem h" "take d' q" ex] rm i c
      by (simp add: Let_def at f)
  qed
  then show "sizes_kept (h_mem h) (h_mem h')"
    "ch_incomingReliableCommands (channel_at (peer_at h' i) c) = ch_incomingReliableCommands (channel_at (peer_at h i) c)"
    "length (p_channels (peer_at h' i)) = length (p_channels (peer_at h i))" by simp_all
qed

lemma dispatch_reliable_keeps:
  assumes i: "i < length (h_peers h)" and c: "c < length (p_channels (peer_at h i))"
    and d: "d \<in> set (ch_incomingReliableCommands (channel_at (peer_at h i) c))" "ic_fragmentsRemaining d \<noteq> 0"
  shows "\<exists>h'. enet_peer_dispatch_incoming_reliable_commands i c ex h = h'
    \<and> d \<in> set (ch_incomingReliableCommands (channel_at (peer_at h' i) c))
    \<and> set (ch_incomingReliableCommands (channel_at (peer_at h' i) c))
        \<subseteq> set (ch_incomingReliableCommands (channel_at (peer_at h i) c))
    \<and> sizes_kept (h_mem h) (h_mem h') \<and> length (p_channels (peer_at h' i)) = length (p_channels (peer_at h i))"
proof -
  let ?ch = "channel_at (peer_at h i) c"
  obtain cur ready rest where sc: "reliable_scan (ch_incomingReliableSequenceNumber ?ch)
      (ch_incomingReliableCommands ?ch) = (cur, ready, rest)" by (metis prod_cases3)
  have split: "ch_incomingReliableCommands ?ch = ready @ rest" by (rule reliable_scan_split [OF sc])
  have ready: "reliable_scan n q = (n', r, r') \<Longrightarrow> x \<in> set r \<Longrightarrow> ic_fragmentsRemaining x = 0" for n q n' r r' x
    by (induction n q arbitrary: r rule: reliable_scan.induct)
      (auto simp: deliverable_def word_gt_0 split: if_splits prod.splits)
  have rest: "d \<in> set rest" using ready [OF sc] d split by auto
  define f :: "channel \<Rightarrow> channel" where "f = (\<lambda>ch. ch\<lparr>ch_incomingReliableSequenceNumber := cur,
      ch_incomingUnreliableSequenceNumber := 0, ch_incomingReliableCommands := rest\<rparr>)"
  let ?h1 = "mark_dispatch i (upd_peer i (\<lambda>p. upd_channel c f
      (p\<lparr>p_dispatchedCommands := p_dispatchedCommands p @ ready\<rparr>)) h)"
  have at: "channel_at (p\<lparr>p_dispatchedCommands := x\<rparr>) c = channel_at p c" for p x by (simp add: channel_at_def)
  have h1: "i < length (h_peers ?h1)" "c < length (p_channels (peer_at ?h1 i))"
    "ch_incomingReliableCommands (channel_at (peer_at ?h1 i) c) = rest" "h_mem ?h1 = h_mem h"
    "length (p_channels (peer_at ?h1 i)) = length (p_channels (peer_at h i))"
    using i c by (simp_all add: at f_def)
  have eq: "enet_peer_dispatch_incoming_reliable_commands i c ex h = (if ready = [] then h
      else if ch_incomingUnreliableCommands ?ch \<noteq> []
        then enet_peer_dispatch_incoming_unreliable_commands i c ex ?h1 else ?h1)"
    by (simp add: enet_peer_dispatch_incoming_reliable_commands_def Let_def sc f_def)
  show ?thesis
    using d rest split h1 dispatch_unreliable_frame [OF h1(1,2), of ex] unfolding eq by auto
qed

text \<open>The command that collects a packet is in its queue, alone with its address, when
  \<open>enet_peer_queue_incoming_command\<close> returns it.\<close>

lemma place_of_unique:
  "d \<in> set q \<Longrightarrow> ic_id d = n \<Longrightarrow> \<forall>c \<in> set q. ic_id c = n \<longrightarrow> c = d \<Longrightarrow>
    \<exists>pos. place_of n q = Some pos \<and> pos < length q \<and> q ! pos = d"
proof (induction q)
  case (Cons c q)
  show ?case
  proof (cases "ic_id c = n")
    case True
    then have "c = d" using Cons.prems(3) by simp
    then show ?thesis using True by simp
  next
    case False
    then have "d \<in> set q" using Cons.prems(1,2) by auto
    moreover have "\<forall>c \<in> set q. ic_id c = n \<longrightarrow> c = d" using Cons.prems(3) by (meson list.set_intros(2))
    ultimately obtain pos where "place_of n q = Some pos" "pos < length q" "q ! pos = d"
      using Cons.IH Cons.prems(2) by blast
    then show ?thesis using False by (intro exI [of _ "Suc pos"]) simp
  qed
qed simp

definition queue_at :: "host \<Rightarrow> nat \<Rightarrow> nat \<Rightarrow> bool \<Rightarrow> incoming_command list" where
  "queue_at h i chan reliable = channel_queue reliable (channel_at (peer_at h i) chan)"

lemma enqueue_queue_at:
  assumes "i < length (h_peers h)" "chan < length (p_channels (peer_at h i))"
  shows "set (queue_at (enqueue_incoming i chan reliable place c h) i chan reliable)
      = insert c (set (queue_at h i chan reliable))"
    "h_mem (enqueue_incoming i chan reliable place c h) = h_mem h"
  using assms by (simp_all add: enqueue_incoming_def queue_at_def channel_queue_def)

lemma create_result:
  assumes "enet_packet_create data n flags m = (Some p, m')"
  shows "p = fresh m \<and> fresh m' = Suc p \<and> (\<exists>k. packets m' p = Some k \<and> pk_dataLength k = n)"
  using assms
  by (auto simp: enet_packet_create_def copy_bytes_def enet_malloc_def Let_def
      split: prod.splits if_splits option.splits list.splits)

lemma queue_incoming_queued:
  assumes h: "host_ok h" and i: "i < length (h_peers h)"
    and chan: "chan = unat (hd_channelID (pr_header command))" "chan < length (p_channels (peer_at h i))"
    and k: "kind_of command \<noteq> ENET_PROTOCOL_COMMAND_SEND_UNSEQUENCED" "fragmentCount \<noteq> 0"
    and q: "enet_peer_queue_incoming_command i command None dataLength flags fragmentCount h = (Queued n, h')"
  shows "chan < length (p_channels (peer_at h' i)) \<and> (\<exists>pos c. place_of n (queue_at h' i chan (is_reliable_kind command)) = Some pos
    \<and> pos < length (queue_at h' i chan (is_reliable_kind command))
    \<and> queue_at h' i chan (is_reliable_kind command) ! pos = c \<and> ic_fragmentCount c = fragmentCount
    \<and> (\<exists>p. ic_packet c = Some p \<and> (\<forall>k. packets (h_mem h') p = Some k \<longrightarrow> pk_dataLength k = dataLength)))"
proof -
  let ?rel = "is_reliable_kind command"
  obtain u place where pl: "incoming_place command (channel_at (peer_at h i) chan) = (u, place)" by fastforce
  obtain res m where cr: "enet_packet_create None dataLength flags (h_mem h) = (res, m)" by fastforce
  obtain ok h2 where m2: "host_malloc (h\<lparr>h_mem := m\<rparr>) = (ok, h2)" by fastforce
  obtain ok' h3 where m3: "(if fragmentCount > 0 then if unat fragmentCount \<le> ENET_PROTOCOL_MAXIMUM_FRAGMENT_COUNT
      then host_malloc h2 else (False, h2) else (True, h2)) = (ok', h3)" by fastforce
  have f3: "h_peers h3 = h_peers h" "fresh (h_mem h3) = fresh m" "packets (h_mem h3) = packets m"
    using m3 host_mallocs_frame [OF m2] host_mallocs_frame [of h2] by (auto split: if_splits)
  obtain packet pos where p: "res = Some packet" "place = Some pos"
    using q pl cr m2 m3
    by (auto simp: enet_peer_queue_incoming_command_def Let_def chan(1) split: if_splits option.splits prod.splits)
  define cmd where "cmd = \<lparr>ic_id = fresh (h_mem h3),
        ic_reliableSequenceNumber = hd_reliableSequenceNumber (pr_header command),
        ic_unreliableSequenceNumber = u, ic_command = command, ic_fragmentCount = fragmentCount,
        ic_fragmentsRemaining = fragmentCount,
        ic_fragments = (if fragmentCount > 0 then Some (replicate ((unat fragmentCount + 31) div 32) 0) else None),
        ic_packet = Some packet\<rparr>"
  define mem3 where "mem3 = upd_mem (\<lambda>m. packet_retain 1 (Some packet) (m\<lparr>fresh := Suc (fresh m)\<rparr>)) h3"
  define h4 where "h4 = enqueue_incoming i chan ?rel pos cmd
        (upd_peer i (\<lambda>p. p\<lparr>p_totalWaitingData :=
           sz_add (p_totalWaitingData p) (packet_length (h_mem mem3) packet)\<rparr>) mem3)"
  have res: "n = ic_id cmd" "h' = (if ?rel then enet_peer_dispatch_incoming_reliable_commands i chan (Some (ic_id cmd)) h4
      else enet_peer_dispatch_incoming_unreliable_commands i chan (Some (ic_id cmd)) h4)"
    using q pl cr m2 m3 p
    unfolding h4_def mem3_def cmd_def
    by (auto simp: enet_peer_queue_incoming_command_def Let_def chan(1) split: if_splits)
  note new = create_result [OF cr [unfolded p(1)]]
  obtain k1 where k1: "packets (h_mem mem3) packet = Some k1" "pk_dataLength k1 = dataLength"
    using new by (auto simp: mem3_def packet_retain_def upd_packet_def f3(3))
  have p3: "peer_at h3 j = peer_at h j" for j by (simp add: peer_at_def f3(1))
  have i4: "i < length (h_peers h4)" and c4: "chan < length (p_channels (peer_at h4 i))"
    using i chan(2) by (simp_all add: h4_def mem3_def f3(1) p3)
  have q4: "set (queue_at h4 i chan ?rel) = insert cmd (set (queue_at h i chan ?rel))"
    and mem4: "h_mem h4 = h_mem mem3"
    using i chan(2) by (simp_all add: h4_def enqueue_queue_at mem3_def f3(1) p3)
      (simp_all add: queue_at_def p3 f3(1) channel_at_def)
  have cmd: "ic_fragmentsRemaining cmd \<noteq> 0" "kind_of (ic_command cmd) \<noteq> ENET_PROTOCOL_COMMAND_SEND_UNSEQUENCED"
    "ic_fragmentCount cmd = fragmentCount" "ic_packet cmd = Some packet" "ic_id cmd = Suc packet"
    using k new f3(2) by (simp_all add: cmd_def)
  have in4: "cmd \<in> set (queue_at h4 i chan ?rel)" using q4 by simp
  have after: "cmd \<in> set (queue_at h' i chan ?rel) \<and> set (queue_at h' i chan ?rel) \<subseteq> set (queue_at h4 i chan ?rel)
      \<and> sizes_kept (h_mem h4) (h_mem h') \<and> length (p_channels (peer_at h' i)) = length (p_channels (peer_at h4 i))"
    using in4 res(2) dispatch_reliable_keeps [OF i4 c4, of cmd "Some (ic_id cmd)"] cmd(1,2)
      dispatch_unreliable_keeps [OF i4 c4, of cmd] dispatch_unreliable_frame [OF i4 c4, of "Some (ic_id cmd)"]
    by (cases ?rel) (auto simp: queue_at_def channel_queue_def)
  have "ic_id c \<noteq> n" if "c \<in> set (queue_at h i chan ?rel)" for c
  proof -
    have "c \<in># channel_cmds (channel_at (peer_at h i) chan)"
      using that channel_queue_cmds unfolding queue_at_def by blast
    then obtain p' k' where "ic_id c = Suc p'" "packets (h_mem h) p' = Some k'"
      using packet_of_command [OF host_ok_memory [OF h] i chan(2)] by metis
    moreover have "p' < fresh (h_mem h)"
      using calculation(2) h refs_ok_below unfolding host_ok_def memory_safe_def by blast
    ultimately show ?thesis using new cmd(5) res(1) by simp
  qed
  then have "\<forall>c \<in> set (queue_at h' i chan ?rel). ic_id c = n \<longrightarrow> c = cmd" using after q4 by blast
  then obtain pos' where "place_of n (queue_at h' i chan ?rel) = Some pos'"
    "pos' < length (queue_at h' i chan ?rel)" "queue_at h' i chan ?rel ! pos' = cmd"
    using place_of_unique [of cmd _ n] after res(1) by blast
  moreover have "packets (h_mem h') packet = Some k \<Longrightarrow> pk_dataLength k = dataLength" for k
    using after k1 mem4 unfolding sizes_kept_def by (metis option.inject)
  ultimately show ?thesis using cmd after c4 by auto
qed

lemma find_start_less: "find_start start current q = Some k \<Longrightarrow> k < length q"
  by (induction q arbitrary: k) (auto simp: Let_def split: if_splits)

lemma find_unreliable_start_less: "find_unreliable_start n start current q = Some k \<Longrightarrow> k < length q"
  by (induction q arbitrary: k) (auto simp: Let_def split: if_splits)

lemma may_receive_channel:
  "host_ok h \<Longrightarrow> i < length (h_peers h) \<Longrightarrow> may_receive command (peer_at h i) \<Longrightarrow>
    unat (hd_channelID (pr_header command)) < length (p_channels (peer_at h i))"
  using memory_safe_at [OF host_ok_memory] by (fastforce simp: may_receive_def peer_ok_def)

lemma collect_fragment_ok:
  assumes h: "host_ok h" and i: "i < length (h_peers h)"
    and m: "may_receive command (peer_at h i)" and rel: "reliable = is_reliable_kind command"
    and kind: "kind_of command \<noteq> ENET_PROTOCOL_COMMAND_SEND_UNSEQUENCED"
    and v: "fragment_valid (fragment_of command) h" and fl: "flags AND ENET_PACKET_FLAG_NO_ALLOCATE = 0"
    and data: "unat (fr_dataLength (fragment_of command)) \<le> length data"
    and found: "\<And>k. found = Some k \<Longrightarrow> k < length (queue_at h i (unat (hd_channelID (pr_header command))) reliable)"
  shows "host_ok (snd (collect_fragment i command data reliable flags found h))
    \<and> length (h_peers (snd (collect_fragment i command data reliable flags found h))) = length (h_peers h)"
proof -
  let ?chan = "unat (hd_channelID (pr_header command))" let ?f = "fragment_of command"
  note s = host_ok_memory [OF h]
  note c = may_receive_channel [OF h i m]
  show ?thesis
  proof (cases found)
    case (Some bk)
    let ?q = "queue_at h i ?chan reliable"
    let ?pos = "length ?q - Suc bk"
    have pos: "?pos < length ?q" using found [OF Some] by simp
    have d: "?q ! ?pos \<in># channel_cmds (channel_at (peer_at h i) ?chan)"
      using pos channel_queue_cmds by (metis nth_mem queue_at_def)
    obtain p k where p: "ic_packet (?q ! ?pos) = Some p" "alive h (Some p)"
      using packet_of_command [OF s i c d] by metis
    have st: "host_ok (store_fragment i ?chan reliable ?pos ?f data h)
        \<and> length (h_peers (store_fragment i ?chan reliable ?pos ?f data h)) = length (h_peers h)"
      if "collects (kind_of command) ?f (h_mem h) (?q ! ?pos)"
      using that fragment_bounds(1) [OF v]
      by (intro store_fragment_ok [OF h i c _ pos _ v data])
        (auto simp: queue_at_def collects_def collector_def)
    show ?thesis using h st p by (simp add: collect_fragment_def Let_def Some queue_at_def readable_def)
  next
    case None
    obtain q h' where q: "enet_peer_queue_incoming_command i command None (unat (fr_totalLength ?f)) flags
                    (fr_fragmentCount ?f) h = (q, h')" by fastforce
    have src: "source_ok None n flags" for n using fl by (simp add: source_ok_def)
    have h': "host_ok h'" "length (h_peers h') = length (h_peers h)"
      using queue_incoming_ok [OF h i m src] q by (metis snd_conv)+
    show ?thesis
    proof (cases q)
      case (Queued n)
      have cnt: "fr_fragmentCount ?f \<noteq> 0" using fragment_bounds(1) [OF v] by auto
      obtain pos d p where d: "?chan < length (p_channels (peer_at h' i))"
        "place_of n (queue_at h' i ?chan reliable) = Some pos" "pos < length (queue_at h' i ?chan reliable)"
        "queue_at h' i ?chan reliable ! pos = d" "ic_fragmentCount d = fr_fragmentCount ?f" "ic_packet d = Some p"
        "\<forall>k. packets (h_mem h') p = Some k \<longrightarrow> pk_dataLength k = unat (fr_totalLength ?f)"
        using queue_incoming_queued [OF h i refl c kind cnt q [unfolded Queued]] rel by blast
      have i': "i < length (h_peers h')" using i h' by simp
      have "d \<in># channel_cmds (channel_at (peer_at h' i) ?chan)"
        using d(3,4) channel_queue_cmds by (metis nth_mem queue_at_def)
      then obtain k where "packets (h_mem h') p = Some k"
        using packet_of_command [OF host_ok_memory [OF h'(1)] i' d(1)] d(6) by (metis option.inject)
      then have col: "collector ?f (h_mem h') (queue_at h' i ?chan reliable ! pos)"
        using d fragment_bounds(1) [OF v] by (simp add: collector_def packet_size_def packet_length_def)
      have "host_ok (store_fragment i ?chan reliable pos ?f data h')
        \<and> length (h_peers (store_fragment i ?chan reliable pos ?f data h')) = length (h_peers h')"
        by (rule store_fragment_ok [OF h'(1) i' d(1) _ d(3) col v data]) (simp add: queue_at_def)
      then show ?thesis using d(2) h'(2)
        by (simp add: collect_fragment_def Let_def None q Queued queue_at_def)
    qed (use h' in \<open>simp_all add: collect_fragment_def Let_def None q\<close>)
  qed
qed

lemma fragment_of_header [simp]: "fragment_of (command\<lparr>pr_header := hdr\<rparr>) = fragment_of command"
  by (simp add: fragment_of_def)

lemma received_length: "data_fits n cd h \<Longrightarrow> n \<le> length (drop cd (h_receivedData h))"
  by (auto simp: data_fits_def)

lemma handle_send_fragment_ok:
  assumes h: "host_ok h" and i: "i < length (h_peers h)" and k: "kind_of command = ENET_PROTOCOL_COMMAND_SEND_FRAGMENT"
  shows "host_ok (snd (snd (enet_protocol_handle_send_fragment i command cd h)))
    \<and> length (h_peers (snd (snd (enet_protocol_handle_send_fragment i command cd h)))) = length (h_peers h)"
proof (cases "may_receive command (peer_at h i) \<and> data_fits (unat (fr_dataLength (fragment_of command))) cd h
    \<and> fragment_valid (fragment_of command) h")
  case False
  then show ?thesis using h by (auto simp: enet_protocol_handle_send_fragment_def Let_def)
next
  case True
  let ?f = "fragment_of command" let ?chan = "unat (hd_channelID (pr_header command))"
  let ?cmd = "command\<lparr>pr_header := (pr_header command)\<lparr>hd_reliableSequenceNumber := fr_startSequenceNumber ?f\<rparr>\<rparr>"
  let ?ch = "channel_at (peer_at h i) ?chan"
  let ?found = "find_start (fr_startSequenceNumber ?f) (ch_incomingReliableSequenceNumber ?ch)
      (rev (ch_incomingReliableCommands ?ch))"
  have "host_ok (snd (collect_fragment i ?cmd (drop cd (h_receivedData h)) True ENET_PACKET_FLAG_RELIABLE ?found h))
    \<and> length (h_peers (snd (collect_fragment i ?cmd (drop cd (h_receivedData h)) True ENET_PACKET_FLAG_RELIABLE ?found h)))
      = length (h_peers h)"
    by (rule collect_fragment_ok [OF h i])
      (use True k received_length [of _ cd h] find_start_less
        in \<open>fastforce simp: may_receive_def is_reliable_kind_def kind_of_def packet_flags queue_at_def channel_queue_def\<close>)+
  then show ?thesis using True h
    by (auto simp: enet_protocol_handle_send_fragment_def Let_def split: prod.splits)
qed

lemma handle_send_unreliable_fragment_ok:
  assumes h: "host_ok h" and i: "i < length (h_peers h)"
    and k: "kind_of command = ENET_PROTOCOL_COMMAND_SEND_UNRELIABLE_FRAGMENT"
  shows "host_ok (snd (snd (enet_protocol_handle_send_unreliable_fragment i command cd h)))
    \<and> length (h_peers (snd (snd (enet_protocol_handle_send_unreliable_fragment i command cd h)))) = length (h_peers h)"
proof (cases "may_receive command (peer_at h i) \<and> data_fits (unat (fr_dataLength (fragment_of command))) cd h
    \<and> fragment_valid (fragment_of command) h")
  case False
  then show ?thesis using h by (auto simp: enet_protocol_handle_send_unreliable_fragment_def Let_def)
next
  case True
  let ?f = "fragment_of command" let ?chan = "unat (hd_channelID (pr_header command))"
  let ?ch = "channel_at (peer_at h i) ?chan"
  let ?found = "find_unreliable_start (hd_reliableSequenceNumber (pr_header command)) (fr_startSequenceNumber ?f)
      (ch_incomingReliableSequenceNumber ?ch) (rev (ch_incomingUnreliableCommands ?ch))"
  have "host_ok (snd (collect_fragment i command (drop cd (h_receivedData h)) False ENET_PACKET_FLAG_UNRELIABLE_FRAGMENT ?found h))
    \<and> length (h_peers (snd (collect_fragment i command (drop cd (h_receivedData h)) False ENET_PACKET_FLAG_UNRELIABLE_FRAGMENT ?found h)))
      = length (h_peers h)"
    by (rule collect_fragment_ok [OF h i])
      (use True k received_length [of _ cd h] find_unreliable_start_less
        in \<open>fastforce simp: is_reliable_kind_def packet_flags queue_at_def channel_queue_def\<close>)+
  then show ?thesis using True h
    by (auto simp: enet_protocol_handle_send_unreliable_fragment_def Let_def split: prod.splits)
qed

section \<open>Control\<close>

lemma handle_bandwidth_limit_ok:
  assumes h: "host_ok h" and i: "i < length (h_peers h)"
  shows "host_ok (snd (enet_protocol_handle_bandwidth_limit i a b h))
    \<and> length (h_peers (snd (enet_protocol_handle_bandwidth_limit i a b h))) = length (h_peers h)"
proof (cases "is_connected (p_state (peer_at h i))")
  case False
  then show ?thesis using h by (simp add: enet_protocol_handle_bandwidth_limit_def)
next
  case True
  let ?n = "h_bandwidthLimitedPeers h"
  let ?n1 = "if p_incomingBandwidth (peer_at h i) \<noteq> 0 then sz_dec ?n else ?n"
  let ?n2 = "if a \<noteq> 0 then ?n1 + 1 else ?n1"
  let ?f = "\<lambda>p :: peer. p\<lparr>p_incomingBandwidth := a, p_outgoingBandwidth := b,
      p_windowSize := bandwidth_window a (h_outgoingBandwidth h)\<rparr>"
  let ?h = "upd_peer i ?f (h\<lparr>h_bandwidthLimitedPeers := ?n2\<rparr>)"
  have eq: "snd (enet_protocol_handle_bandwidth_limit i a b h) = ?h"
    using True by (simp add: enet_protocol_handle_bandwidth_limit_def Let_def upd_peer_def)
  have pos: "p_incomingBandwidth (peer_at h i) \<noteq> 0 \<longrightarrow> 0 < ?n"
    using accounted_pos(2) [OF host_ok_accounted [OF h] i True] by blast
  have "host_ok ?h"
  proof (rule host_okI)
    have "memory_safe (h\<lparr>h_bandwidthLimitedPeers := ?n2\<rparr>)"
      using h memory_safe_cong [of "h\<lparr>h_bandwidthLimitedPeers := ?n2\<rparr>" h] by (simp add: host_ok_def limits_def)
    then show "memory_safe ?h"
      by (rule memory_safe_peer) (simp_all add: peer_refs_def peer_ok_defs)
    show "accounted ?h"
      by (rule accounted_upd [OF host_ok_accounted [OF h] i, of _ ?f])
        (use True pos in \<open>auto simp: sz_dec_def\<close>)
    show "linked_ok ?h" using h by (simp add: host_ok_def linked_ok_def)
  qed
  then show ?thesis unfolding eq by simp
qed

lemma handle_throttle_configure_ok:
  assumes h: "host_ok h" and i: "i < length (h_peers h)"
  shows "host_ok (snd (enet_protocol_handle_throttle_configure i a b c h))
    \<and> length (h_peers (snd (enet_protocol_handle_throttle_configure i a b c h))) = length (h_peers h)"
  using h host_ok_fields [OF h, of "\<lambda>p. p\<lparr>p_packetThrottleInterval := a, p_packetThrottleAcceleration := b,
      p_packetThrottleDeceleration := c\<rparr>" i]
  by (simp add: enet_protocol_handle_throttle_configure_def peer_refs_def peer_ok_defs)

lemma host_ok_eventData: "host_ok h \<Longrightarrow> host_ok (upd_peer i (\<lambda>p. p\<lparr>p_eventData := d\<rparr>) h)"
  by (erule host_ok_fields) (simp_all add: peer_refs_def peer_ok_defs)

lemma handle_disconnect_ok:
  assumes h: "host_ok h" and i: "i < length (h_peers h)"
  shows "host_ok (snd (enet_protocol_handle_disconnect i command d h))
    \<and> length (h_peers (snd (enet_protocol_handle_disconnect i command d h))) = length (h_peers h)"
proof -
  let ?h = "enet_peer_reset_queues i h"
  have q: "host_ok ?h" "i < length (h_peers ?h)" using host_ok_reset_queues [OF h i] i by simp_all
  have r: "host_ok (?h\<lparr>h_recalculateBandwidthLimits := True\<rparr>)" by (rule host_ok_recalculate [OF q(1)])
  note all = host_ok_reset [OF q] host_ok_reset [OF r] dispatch_state_ok [OF q, of Zombie]
    change_state_ok [OF q, of Acknowledging_Disconnect]
  show ?thesis
    using h all q i host_ok_eventData
    by (simp add: enet_protocol_handle_disconnect_def Let_def idle_def)
qed

section \<open>Acknowledgements\<close>

text \<open>All that the invariants see of a peer: its body, and the times of its round trips.\<close>

definition body_view :: "peer \<Rightarrow> (peer_state \<times> u32 \<times> u32 \<times> nat \<times> channel list) \<times> outgoing_command list
    \<times> outgoing_command list \<times> outgoing_command list \<times> incoming_command list" where
  "body_view p = ((p_state p, p_incomingBandwidth p, p_mtu p, p_channelCount p, p_channels p),
     p_outgoingCommands p, p_sentReliableCommands p, p_sentUnreliableCommands p, p_dispatchedCommands p)"

definition trip_ok :: "peer \<Rightarrow> bool" where
  "trip_ok p \<longleftrightarrow> 1 \<le> p_roundTripTime p \<and> p_roundTripTime p \<le> 86400000 \<and> p_roundTripTimeVariance p \<le> 86400000"

definition core_view :: "peer \<Rightarrow> ((peer_state \<times> u32 \<times> u32 \<times> nat \<times> channel list) \<times> outgoing_command list
    \<times> outgoing_command list \<times> outgoing_command list \<times> incoming_command list) \<times> u32 \<times> u32" where
  "core_view p = (body_view p, p_roundTripTime p, p_roundTripTimeVariance p)"

lemma body_view_same: "body_view q = body_view p \<Longrightarrow> trip_ok q = trip_ok p \<Longrightarrow>
    peer_refs q = peer_refs p \<and> peer_ok q = peer_ok p \<and> p_state q = p_state p \<and> p_incomingBandwidth q = p_incomingBandwidth p"
  by (simp add: body_view_def trip_ok_def peer_refs_def peer_ok_defs traffic_ok_def)

lemma core_view_same: "core_view q = core_view p \<Longrightarrow>
    peer_refs q = peer_refs p \<and> peer_ok q = peer_ok p \<and> p_state q = p_state p \<and> p_incomingBandwidth q = p_incomingBandwidth p"
  by (rule body_view_same) (simp_all add: core_view_def trip_ok_def)

lemma host_ok_core: "host_ok h \<Longrightarrow> (\<And>p. core_view (f p) = core_view p) \<Longrightarrow> host_ok (upd_peer i f h)"
  using core_view_same by (intro host_ok_fields) blast+

text \<open>A new measurement leaves the body alone, and the times within their bounds.\<close>

lemma throttle_body: "body_view (snd (enet_peer_throttle rtt p)) = body_view p"
  by (simp add: enet_peer_throttle_def body_view_def Let_def)

lemma update_round_trip_body: "body_view (update_round_trip rtt p) = body_view p"
  using throttle_body [of rtt p] by (simp add: update_round_trip_def Let_def body_view_def)

lemma body_view_times [simp]:
  "body_view (p\<lparr>p_lowestRoundTripTime := l\<rparr>) = body_view p"
  "body_view (p\<lparr>p_highestRoundTripTimeVariance := l\<rparr>) = body_view p"
  "body_view (p\<lparr>p_lastRoundTripTime := a, p_lastRoundTripTimeVariance := b, p_lowestRoundTripTime := l,
     p_highestRoundTripTimeVariance := v, p_packetThrottleEpoch := e\<rparr>) = body_view p"
  "body_view (p\<lparr>p_lastReceiveTime := t, p_earliestTimeout := x\<rparr>) = body_view p"
  by (simp_all add: body_view_def)

lemma measure_round_trip_body: "body_view (measure_round_trip now rtt p) = body_view p"
  unfolding measure_round_trip_def Let_def body_view_times if_distrib [of body_view] update_round_trip_body if_cancel ..

lemma trip_sums:
  fixes r v t :: u32
  assumes "r \<le> 86400000" "v \<le> 86400000" "t \<le> 86400000"
  shows "r \<le> t \<Longrightarrow> v - v div 4 + (t - r) div 4 \<le> 86400000" 
   and "r \<le> t \<Longrightarrow> r + (t - r) div 8 \<le> 86400000" 
   and "r \<le> t \<Longrightarrow> 1 \<le> r \<Longrightarrow> 1 \<le> r + (t - r) div 8" 
   and "t \<le> r \<Longrightarrow> v - v div 4 + (r - t) div 4 \<le> 86400000"
   and "t \<le> r \<Longrightarrow> r - (r - t) div 8 \<le> 86400000" 
   and "t \<le> r \<Longrightarrow> 1 \<le> t \<Longrightarrow> 1 \<le> r - (r - t) div 8" 
  using assms
  by (simp_all add: word_le_nat_alt unat_sub_if' unat_div unat_plus_if') linarith+

lemma throttle_trip: "trip_ok (snd (enet_peer_throttle t p)) = trip_ok p"
  by (simp add: enet_peer_throttle_def trip_ok_def Let_def)

lemma update_round_trip_ok:
  assumes "trip_ok p" "1 \<le> t" "t \<le> 86400000"
  shows "trip_ok (update_round_trip t p)"
proof (cases "p_lastReceiveTime p > 0")
  case False
  have "unat ((t + 1) div 2) \<le> 86400000" using assms(3)
    by (simp add: word_le_nat_alt unat_div unat_plus_if')
  then show ?thesis using assms(2,3) False by (simp add: update_round_trip_def trip_ok_def word_le_nat_alt)
next
  case True
  let ?q = "snd (enet_peer_throttle t p)"
  have q: "trip_ok ?q" using assms(1) throttle_trip by simp
  then show ?thesis
    using trip_sums [of "p_roundTripTime ?q" "p_roundTripTimeVariance ?q" t] assms True
    by (simp add: update_round_trip_def Let_def trip_ok_def)
qed

lemma trip_ok_times [simp]:
  "trip_ok (p\<lparr>p_lowestRoundTripTime := l\<rparr>) = trip_ok p"
  "trip_ok (p\<lparr>p_highestRoundTripTimeVariance := l\<rparr>) = trip_ok p"
  "trip_ok (p\<lparr>p_lastRoundTripTime := a, p_lastRoundTripTimeVariance := b, p_lowestRoundTripTime := l,
     p_highestRoundTripTimeVariance := v, p_packetThrottleEpoch := e\<rparr>) = trip_ok p"
  "trip_ok (p\<lparr>p_lastReceiveTime := t, p_earliestTimeout := x\<rparr>) = trip_ok p"
  by (simp_all add: trip_ok_def)

lemma measure_round_trip_trip: "trip_ok (measure_round_trip now t p) = trip_ok (update_round_trip t p)"
  unfolding measure_round_trip_def Let_def trip_ok_times if_distrib [of trip_ok] if_cancel ..

lemma measured_trip: "\<not> ENET_TIME_LESS now s \<Longrightarrow> 1 \<le> ENET_MAX (ENET_TIME_DIFFERENCE now s) 1
   \<and> ENET_MAX (ENET_TIME_DIFFERENCE now s) 1 \<le> 86400000"
  by (simp add: ENET_TIME_LESS_def ENET_TIME_DIFFERENCE_def ENET_TIME_OVERFLOW_def ENET_MAX_max)

lemma host_ok_measure:
  assumes h: "host_ok h" and now: "\<not> ENET_TIME_LESS now s"
  shows "host_ok (upd_peer i (measure_round_trip now (ENET_MAX (ENET_TIME_DIFFERENCE now s) 1)) h)"
proof (rule host_ok_fields [OF h])
  let ?p = "peer_at h i"
  let ?q = "measure_round_trip now (ENET_MAX (ENET_TIME_DIFFERENCE now s) 1) ?p"
  have b: "body_view ?q = body_view ?p" by (rule measure_round_trip_body)
  then show "peer_refs ?q = peer_refs ?p" "p_state ?q = p_state ?p" "p_incomingBandwidth ?q = p_incomingBandwidth ?p"
    by (simp_all add: body_view_def peer_refs_def)
  assume p: "peer_ok ?p"
  then have t: "trip_ok ?p" by (simp add: peer_ok_defs traffic_ok_def trip_ok_def)
  then have "trip_ok ?q"
    unfolding measure_round_trip_trip using measured_trip [OF now] by (intro update_round_trip_ok) simp_all
  with t have "trip_ok ?q = trip_ok ?p" by simp
  from body_view_same [OF b this] p show "peer_ok ?q" by simp
qed

lemma handle_acknowledge_ok:
  assumes h: "host_ok h" and i: "i < length (h_peers h)"
  shows "host_ok (snd (snd (enet_protocol_handle_acknowledge event i command n t h)))
    \<and> length (h_peers (snd (snd (enet_protocol_handle_acknowledge event i command n t h)))) = length (h_peers h)"
proof (cases "p_state (peer_at h i) = Disconnected \<or> p_state (peer_at h i) = Zombie
    \<or> ENET_TIME_LESS (h_serviceTime h) (received_sent_time t (h_serviceTime h))")
  case True
  then show ?thesis using h by (auto simp: enet_protocol_handle_acknowledge_def Let_def)
next
  case False
  let ?rtt = "ENET_MAX (ENET_TIME_DIFFERENCE (h_serviceTime h) (received_sent_time t (h_serviceTime h))) 1"
  let ?h = "upd_peer i (measure_round_trip (h_serviceTime h) ?rtt) h"
  have h1: "host_ok ?h" using host_ok_measure [OF h] False by simp
  obtain k h2 where r: "enet_protocol_remove_sent_reliable_command i n (hd_channelID (pr_header command)) ?h = (k, h2)"
    by fastforce
  have h2: "host_ok h2" "i < length (h_peers h2)" "length (h_peers h2) = length (h_peers h)"
    using remove_sent_reliable_ok [OF h1, where i = i and n = n and chan = "hd_channelID (pr_header command)"] r i by simp_all
  show ?thesis
    using h h2 notify_connect_ok [OF h2(1,2)] notify_disconnect_ok [OF h2(1,2)] disconnect_if_idle_ok(1) [OF h2(1,2)] disconnect_if_idle_ok(2)
    by (auto simp: enet_protocol_handle_acknowledge_def Let_def r split: prod.splits)
qed

lemma upd_peer_state:
  "(\<And>p. p_state (f p) = p_state p) \<Longrightarrow> p_state (peer_at (upd_peer i f h) j) = p_state (peer_at h j)"
  by (cases "i < length (h_peers h)"; cases "i = j") (simp_all add: peer_at_def)

lemma set_next_timeout_state [simp]: "p_state (peer_at (set_next_timeout i h) j) = p_state (peer_at h j)"
  by (simp add: set_next_timeout_def upd_peer_state split: list.split)

lemma remove_sent_reliable_state [simp]:
  "p_state (peer_at (snd (enet_protocol_remove_sent_reliable_command i n chan h)) j) = p_state (peer_at h j)"
proof -
  have f: "p_state (peer_at (upd_peer i (\<lambda>p. p\<lparr>p_sentReliableCommands := r p\<rparr>) h) j) = p_state (peer_at h j)"
    "p_state (peer_at (upd_peer i (\<lambda>p. p\<lparr>p_outgoingCommands := r p\<rparr>) h) j) = p_state (peer_at h j)"
    "p_state (peer_at (upd_peer i (\<lambda>p. p\<lparr>p_reliableDataInTransit := d p\<rparr>) h) j) = p_state (peer_at h j)"
    "p_state (peer_at (upd_peer i (upd_channel c g) h) j) = p_state (peer_at h j)" for r d c g and h :: host
    by (rule upd_peer_state; simp)+
  show ?thesis
    by (cases "find_sent n chan (p_sentReliableCommands (peer_at h i))")
      (simp_all add: enet_protocol_remove_sent_reliable_command_def Let_def f del: upd_peer_twice split: option.split)
qed

lemma verify_peer_keeps:
  assumes p: "p_state p = Connecting" "peer_ok p"
  shows "peer_refs (verify_peer c p) = peer_refs p" "peer_ok (verify_peer c p)" "p_state (verify_peer c p) = Connecting"
proof -
  let ?v = "verify_peer c p"
  have n: "p_channelCount ?v = min (unat (cn_channelCount c)) (p_channelCount p)"
    and m: "p_mtu ?v = min (clamp_mtu (cn_mtu c)) (p_mtu p)"
    by (simp_all add: verify_peer_def Let_def)
  have q: "p_state ?v = p_state p" "p_channels ?v = p_channels p" "p_outgoingCommands ?v = p_outgoingCommands p"
    "p_sentReliableCommands ?v = p_sentReliableCommands p" "p_sentUnreliableCommands ?v = p_sentUnreliableCommands p"
    "p_dispatchedCommands ?v = p_dispatchedCommands p" "p_roundTripTime ?v = p_roundTripTime p"
    "p_roundTripTimeVariance ?v = p_roundTripTimeVariance p" by (simp_all add: verify_peer_def Let_def)
  then show "peer_refs ?v = peer_refs p" "p_state ?v = Connecting" using p by (simp_all add: peer_refs_def)
  have e: "channels_refs (p_channels p) = {#}" using p by (simp add: peer_ok_def idle_def)
  have "channels_refs (drop k (p_channels p)) = {#}" for k
  proof -
    have "channels_refs (p_channels p) = channels_refs (take k (p_channels p)) + channels_refs (drop k (p_channels p))"
      unfolding channels_refs_def by (metis append_take_drop_id map_append sum_list_append)
    then show ?thesis using e by simp
  qed
  moreover have m: "mtu_ok (p_mtu ?v)" using p clamp_mtu_ok unfolding m by (auto simp: peer_ok_def min_def)
  moreover have "traffic_ok (traffic_view ?v)"
    using p q m by (auto simp: peer_ok_defs idle_def intro: traffic_ok_mtu)
  ultimately show "peer_ok ?v" using p q n by (auto simp: peer_ok_def incoming_cmds_def)
qed

lemma handle_verify_connect_ok:
  assumes h: "host_ok h" and i: "i < length (h_peers h)"
  shows "host_ok (snd (snd (enet_protocol_handle_verify_connect event i c h)))
    \<and> length (h_peers (snd (snd (enet_protocol_handle_verify_connect event i c h)))) = length (h_peers h)"
proof (cases "p_state (peer_at h i) = Connecting")
  case False
  then show ?thesis using h by (simp add: enet_protocol_handle_verify_connect_def Let_def)
next
  case True
  let ?h = "snd (enet_protocol_remove_sent_reliable_command i 1 0xFF h)"
  let ?h2 = "upd_peer i (verify_peer c) ?h"
  note h1 = remove_sent_reliable_ok [OF h i, of 1 "0xFF"]
  have z: "host_ok (enet_protocol_dispatch_state i Zombie (upd_peer i (\<lambda>p. p\<lparr>p_eventData := 0\<rparr>) h))"
    using host_ok_eventData [OF h] i by (intro dispatch_state_ok) (simp_all add: idle_def)
  have st: "p_state (peer_at ?h i) = Connecting"
    using True remove_sent_reliable_state by simp
  have "host_ok ?h2"
    by (rule host_ok_peer [OF h1(1)])
      (use i h1(2) st verify_peer_keeps in \<open>simp_all add: is_connected_def verify_peer_keeps memory_safe_at [OF host_ok_memory [OF h1(1)]]\<close>)
  then show ?thesis
    using h z i h1(2) notify_connect_ok [of ?h2 i event]
    by (auto simp: enet_protocol_handle_verify_connect_def Let_def True split: prod.splits)
qed

end
