(* ===== verification/Enet_Incoming.thy ===== *)
theory Enet_Incoming
  imports Enet_Handlers_Safe
begin

text \<open>
  Datagrams coming in: \<open>enet_protocol_handle_incoming_commands\<close> and
  \<open>enet_protocol_receive_incoming_commands\<close> of \<open>enet/protocol.c\<close>, and the
  \<open>enet_socket_receive\<close> of \<open>enet/unix.c\<close> they rest on.

  \<open>h_receivedData\<close> holds the bytes of the datagram, its length is \<open>receivedDataLength\<close>.  What
  lies behind them in the buffer of the host is unknown, which matters in one place: the
  checksum of a datagram that is shorter than its header is read from there.

  The intercept callback is a parameter: given the host and the event it returns its verdict
  and what it made of both.
\<close>

section \<open>The header\<close>

definition PACKET_DATA_SIZE :: nat where
  "PACKET_DATA_SIZE = unat ENET_PROTOCOL_MAXIMUM_MTU"

definition header_size :: "u16 \<Rightarrow> host \<Rightarrow> nat" where
  "header_size flags h =
    (if flags AND ENET_PROTOCOL_HEADER_FLAG_SENT_TIME \<noteq> 0 then sizeof_ProtocolHeader else offsetof_sentTime)
    + (if h_checksum h \<noteq> None then 4 else 0)"

text \<open>
  Whom a datagram is from: nobody the host could take it from (\<open>None\<close>), somebody who is not
  connected yet (\<open>Some None\<close>), or a peer.
\<close>

definition incoming_peer :: "u16 \<Rightarrow> host \<Rightarrow> nat option option" where
  "incoming_peer field h =
    (let sessionID = header_session field;
         peerID = unat (header_peerID field)
     in if peerID = ENET_PROTOCOL_MAXIMUM_PEER_ID then Some None
        else if peerID \<ge> length (h_peers h) then None
        else
          let p = peer_at h peerID
          in if p_state p = Disconnected \<or> p_state p = Zombie
                \<or> ((ad_host (h_receivedAddress h) \<noteq> ad_host (p_address p)
                    \<or> ad_port (h_receivedAddress h) \<noteq> ad_port (p_address p))
                   \<and> ad_host (p_address p) \<noteq> ENET_HOST_BROADCAST)
                \<or> (unat (p_outgoingPeerID p) < ENET_PROTOCOL_MAXIMUM_PEER_ID
                   \<and> sessionID \<noteq> p_incomingSessionID p)
             then None else Some (Some peerID))"

text \<open>
  A compressed datagram: the header stays, the rest is decompressed.  If the datagram ends
  within its header, the length handed to the decompressor wraps around.
\<close>

definition decompress_received :: "u16 \<Rightarrow> nat \<Rightarrow> host \<Rightarrow> bool \<times> host" where
  "decompress_received flags headerSize h =
    (let data = h_receivedData h; c = h_compressor h
     in if flags AND ENET_PROTOCOL_HEADER_FLAG_COMPRESSED = 0 then (True, h)
        else if \<not> cp_context c then (False, h)
        else
          case cp_decompress c of
            None \<Rightarrow> (False, h)
          | Some decompress \<Rightarrow>
              if length data < headerSize then (False, upd_mem (faulty True) h)
              else
                let out = decompress (drop headerSize data) (PACKET_DATA_SIZE - headerSize)
                in if length out \<le> 0 \<or> length out > PACKET_DATA_SIZE - headerSize then (False, h)
                   else (True, h\<lparr>h_receivedData := take headerSize data @ out\<rparr>))"

definition checksum_received :: "nat \<Rightarrow> nat option \<Rightarrow> host \<Rightarrow> bool \<times> host" where
  "checksum_received headerSize peer h =
    (case h_checksum h of
      None \<Rightarrow> (True, h)
    | Some checksum \<Rightarrow>
        let n = length (h_receivedData h);
            data = h_receivedData h @ map (junk (h_mem h)) [n..<headerSize];
            desiredChecksum = get_native32 (drop (headerSize - 4) data);
            connectID = (case peer of None \<Rightarrow> 0 | Some i \<Rightarrow> p_connectID (peer_at h i));
            data = take n (take (headerSize - 4) data @ put_native32 connectID @ drop headerSize data)
        in (checksum [data] = desiredChecksum, h\<lparr>h_receivedData := data\<rparr>))"

section \<open>The commands\<close>

definition dispatch_peer_command ::
  "event option \<Rightarrow> nat \<Rightarrow> protocol \<Rightarrow> nat \<Rightarrow> host \<Rightarrow> int \<times> event option \<times> nat \<times> host" where
  "dispatch_peer_command event i command currentData h =
    (let plain = (\<lambda>(r :: int, h :: host). (r, event, currentData, h));
         handled = (\<lambda>(r :: int, event :: event option, h :: host). (r, event, currentData, h));
         advanced = (\<lambda>(r :: int, n :: nat, h :: host). (r, event, n, h))
     in case pr_body command of
          Acknowledge n t \<Rightarrow> handled (enet_protocol_handle_acknowledge event i command n t h)
        | Connect _ _ \<Rightarrow> plain (-1, h)
        | Verify_Connect c \<Rightarrow> handled (enet_protocol_handle_verify_connect event i c h)
        | Disconnect d \<Rightarrow> plain (enet_protocol_handle_disconnect i command d h)
        | Ping \<Rightarrow> plain (enet_protocol_handle_ping i h, h)
        | Send_Reliable _ \<Rightarrow> advanced (enet_protocol_handle_send_reliable i command currentData h)
        | Send_Unreliable _ _ \<Rightarrow> advanced (enet_protocol_handle_send_unreliable i command currentData h)
        | Send_Unsequenced _ _ \<Rightarrow> advanced (enet_protocol_handle_send_unsequenced i command currentData h)
        | Send_Fragment _ \<Rightarrow> advanced (enet_protocol_handle_send_fragment i command currentData h)
        | Bandwidth_Limit a b \<Rightarrow> plain (enet_protocol_handle_bandwidth_limit i a b h)
        | Throttle_Configure a b c \<Rightarrow> plain (enet_protocol_handle_throttle_configure i a b c h)
        | Send_Unreliable_Fragment _ \<Rightarrow>
            advanced (enet_protocol_handle_send_unreliable_fragment i command currentData h)
        | No_Command \<Rightarrow> plain (-1, h))"

text \<open>
  Someone unknown may only connect, and becomes the peer of the rest of the datagram.  The
  result is the peer, or \<open>None\<close> if the datagram is to be given up.
\<close>

definition dispatch_command ::
  "event option \<Rightarrow> nat option \<Rightarrow> protocol \<Rightarrow> nat \<Rightarrow> host \<Rightarrow> nat option \<times> event option \<times> nat \<times> host" where
  "dispatch_command event peer command currentData h =
    (case peer of
      None \<Rightarrow>
        (case pr_body command of
          Connect c d \<Rightarrow>
            let (peer, h) = enet_protocol_handle_connect c d h in (peer, event, currentData, h)
        | _ \<Rightarrow> (None, event, currentData, h))
    | Some i \<Rightarrow>
        let (r, event, currentData, h) = dispatch_peer_command event i command currentData h
        in (if r \<noteq> 0 then None else Some i, event, currentData, h))"

definition acknowledge_command :: "nat \<Rightarrow> protocol \<Rightarrow> u16 \<Rightarrow> host \<Rightarrow> host" where
  "acknowledge_command i command sentTime h =
    (let s = p_state (peer_at h i)
     in if s = Disconnecting \<or> s = Acknowledging_Connect \<or> s = Disconnected \<or> s = Zombie then h
        else if s = Acknowledging_Disconnect
        then if kind_of command = ENET_PROTOCOL_COMMAND_DISCONNECT
             then snd (enet_peer_queue_acknowledgement i command sentTime h) else h
        else snd (enet_peer_queue_acknowledgement i command sentTime h))"

text \<open>The size of the command at a place of the datagram, if there is a whole one.\<close>

definition command_size_at :: "nat \<Rightarrow> u8 list \<Rightarrow> nat option" where
  "command_size_at currentData data =
    (if currentData + sizeof_CommandHeader > length data then None
     else
       let commandNumber = command_of (data ! currentData)
       in if commandNumber \<ge> ENET_PROTOCOL_COMMAND_COUNT then None
          else
            let commandSize = commandSizes ! unat commandNumber
            in if commandSize = 0 \<or> currentData + commandSize > length data then None
               else Some commandSize)"

lemma command_size_at_Some:
  "command_size_at cd data = Some n \<Longrightarrow> 0 < n \<and> cd + n \<le> length data \<and> cd + 4 \<le> length data
    \<and> command_of (data ! cd) < ENET_PROTOCOL_COMMAND_COUNT"
  by (auto simp: command_size_at_def Let_def sizeofs split: if_splits)

text \<open>Every handler that moves \<open>currentData\<close> moves it forward.\<close>

lemma dispatch_peer_advances:
  "dispatch_peer_command event i command cd h = (r, event', cd', h') \<Longrightarrow> cd \<le> cd'"
  by (auto simp: dispatch_peer_command_def Let_def enet_protocol_handle_send_reliable_def
      enet_protocol_handle_send_unreliable_def enet_protocol_handle_send_unsequenced_def
      enet_protocol_handle_send_fragment_def enet_protocol_handle_send_unreliable_fragment_def
      split: protocol_body.splits prod.splits if_splits option.splits)

lemma dispatch_advances:
  "dispatch_command event peer command cd h = (peer', event', cd', h') \<Longrightarrow> cd \<le> cd'"
  by (auto simp: dispatch_command_def Let_def dest: dispatch_peer_advances
      split: protocol_body.splits prod.splits if_splits option.splits)

lemma loop_advances:
  "command_size_at cd data = Some n \<Longrightarrow> (peer', event', cd', h') = dispatch_command event peer command (cd + n) h \<Longrightarrow>
    length data - cd' < length data - cd"
  using dispatch_advances [of event peer command "cd + n" h peer' event' cd' h'] command_size_at_Some [of cd data n]
  by auto

text \<open>
  The loop over the commands; \<open>data\<close> is the datagram as it stands when the loop begins, which
  no handler writes to.
\<close>

function command_loop ::
  "u8 list \<Rightarrow> u16 \<Rightarrow> event option \<Rightarrow> nat option \<Rightarrow> nat \<Rightarrow> host \<Rightarrow> event option \<times> host" where
  "command_loop data flags event peer currentData h =
    (case command_size_at currentData data of
      None \<Rightarrow> (event, h)
    | Some commandSize \<Rightarrow>
        let command = view_protocol (drop currentData data);
            (peer, event, currentData, h) = dispatch_command event peer command (currentData + commandSize) h
        in case peer of
             None \<Rightarrow> (event, h)
           | Some i \<Rightarrow>
               if is_acknowledged command
               then if flags AND ENET_PROTOCOL_HEADER_FLAG_SENT_TIME = 0 then (event, h)
                    else command_loop data flags event peer currentData
                           (acknowledge_command i command (get_be16 (drop 2 data)) h)
               else command_loop data flags event peer currentData h)"
  by auto

termination
proof (relation "measure (\<lambda>(data, flags, event, peer, currentData, h). length data - currentData)", goal_cases)
  case (2 data flags event peer cd h n command x peer' y event' z cd' h')
  show ?case unfolding in_measure prod.case using 2(3-6)
    by (intro loop_advances [OF 2(1), of peer' event' cd' h' event peer command h]) (simp only:)
next
  case (3 data flags event peer cd h n command x peer' y event' z cd' h')
  show ?case unfolding in_measure prod.case using 3(3-6)
    by (intro loop_advances [OF 3(1), of peer' event' cd' h' event peer command h]) (simp only:)
qed simp

declare command_loop.simps [simp del]

definition event_occurred :: "event option \<Rightarrow> bool" where
  "event_occurred event \<longleftrightarrow> (case event of None \<Rightarrow> False | Some ev \<Rightarrow> ev_type ev \<noteq> Event_None)"

definition enet_protocol_handle_incoming_commands :: "event option \<Rightarrow> host \<Rightarrow> int \<times> event option \<times> host" where
  "enet_protocol_handle_incoming_commands event h =
    (if length (h_receivedData h) < offsetof_sentTime then (0, event, h)
     else
       let field = get_be16 (h_receivedData h);
           flags = header_flags_of field;
           headerSize = header_size flags h
       in case incoming_peer field h of
            None \<Rightarrow> (0, event, h)
          | Some peer \<Rightarrow>
              let (ok, h) = decompress_received flags headerSize h
              in if \<not> ok then (0, event, h)
                 else
                   let (ok, h) = checksum_received headerSize peer h
                   in if \<not> ok then (0, event, h)
                      else
                        let h = (case peer of
                                   None \<Rightarrow> h
                                 | Some i \<Rightarrow> upd_peer i (\<lambda>p. p\<lparr>p_address := h_receivedAddress h,
                                     p_incomingDataTotal := p_incomingDataTotal p
                                       + of_nat (length (h_receivedData h))\<rparr>) h);
                            (event, h) = command_loop (h_receivedData h) flags event peer headerSize h
                        in (if event_occurred event then 1 else 0, event, h))"

section \<open>Receiving\<close>

text \<open>
  The socket: nothing there, an error (a datagram cut short counts as one), or a datagram.
  The number is the one the C function returns.
\<close>

definition enet_socket_receive :: "nat \<Rightarrow> host \<Rightarrow> int \<times> address \<times> u8 list \<times> host" where
  "enet_socket_receive bufferLength h =
    (case nt_inbox (h_net h) of
      [] \<Rightarrow> (0, h_receivedAddress h, [], h)
    | r # rest \<Rightarrow>
        let h = h\<lparr>h_net := (h_net h)\<lparr>nt_inbox := rest\<rparr>\<rparr>
        in (case r of
             Receive_Error \<Rightarrow> (-1, h_receivedAddress h, [], h)
           | Datagram a bytes \<Rightarrow>
               if length bytes > bufferLength then (-1, h_receivedAddress h, [], h)
               else (int (length bytes), a, bytes, h)))"

type_synonym intercept = "host \<Rightarrow> event option \<Rightarrow> int \<times> event option \<times> host"

fun receive_rounds ::
  "intercept option \<Rightarrow> nat \<Rightarrow> event option \<Rightarrow> host \<Rightarrow> int \<times> event option \<times> host" where
  "receive_rounds intercept 0 event h = (0, event, h)"
| "receive_rounds intercept (Suc n) event h =
    (let (receivedLength, a, bytes, h) = enet_socket_receive PACKET_DATA_SIZE h;
         h = h\<lparr>h_receivedAddress := a\<rparr>
     in if receivedLength < 0 then (-1, event, h)
        else if receivedLength = 0 then (0, event, h)
        else
          let h = h\<lparr>h_receivedData := bytes,
                    h_totalReceivedData := h_totalReceivedData h + of_int receivedLength,
                    h_totalReceivedPackets := h_totalReceivedPackets h + 1\<rparr>;
              (verdict, event, h) = (case intercept of None \<Rightarrow> (0, event, h) | Some f \<Rightarrow> f h event)
          in if verdict = 1
             then if event_occurred event then (1, event, h) else receive_rounds intercept n event h
             else if verdict = -1 then (-1, event, h)
             else
               let (r, event, h) = enet_protocol_handle_incoming_commands event h
               in if r = 1 then (1, event, h)
                  else if r = -1 then (-1, event, h)
                  else receive_rounds intercept n event h)"

definition enet_protocol_receive_incoming_commands ::
  "intercept option \<Rightarrow> event option \<Rightarrow> host \<Rightarrow> int \<times> event option \<times> host" where
  "enet_protocol_receive_incoming_commands intercept event h = receive_rounds intercept 256 event h"

section \<open>What the invariant of a host survives\<close>

text \<open>An operation of one host keeps the invariant and the number of peers.\<close>

definition keeps :: "host \<Rightarrow> host \<Rightarrow> bool" where
  "keeps h h' \<longleftrightarrow> (host_ok h \<longrightarrow> host_ok h' \<and> length (h_peers h') = length (h_peers h))"

lemma keeps_refl [simp]: "keeps h h"
  by (simp add: keeps_def)

lemma keeps_trans [trans]: "keeps h h1 \<Longrightarrow> keeps h1 h2 \<Longrightarrow> keeps h h2"
  by (simp add: keeps_def)

lemma keepsI: "(host_ok h \<Longrightarrow> host_ok h') \<Longrightarrow> length (h_peers h') = length (h_peers h) \<Longrightarrow> keeps h h'"
  by (simp add: keeps_def)

lemma keepsD: "keeps h h' \<Longrightarrow> host_ok h \<Longrightarrow> host_ok h'" "keeps h h' \<Longrightarrow> host_ok h \<Longrightarrow> length (h_peers h') = length (h_peers h)"
  by (simp_all add: keeps_def)

lemma body_kind:
  "pr_body (view_protocol bs) = Send_Fragment f \<Longrightarrow> kind_of (view_protocol bs) = ENET_PROTOCOL_COMMAND_SEND_FRAGMENT"
  "pr_body (view_protocol bs) = Send_Unreliable_Fragment f \<Longrightarrow>
     kind_of (view_protocol bs) = ENET_PROTOCOL_COMMAND_SEND_UNRELIABLE_FRAGMENT"
  by (auto simp: view_protocol_def kind_of_def get_body_def ENET_PROTOCOL_COMMAND_SEND_FRAGMENT_def
      ENET_PROTOCOL_COMMAND_SEND_UNRELIABLE_FRAGMENT_def split: if_splits)

lemma dispatch_peer_keeps:
  assumes h: "host_ok h" and i: "i < length (h_peers h)" and c: "command = view_protocol bs"
  shows "keeps h (snd (snd (snd (dispatch_peer_command event i command cd h))))"
  unfolding dispatch_peer_command_def Let_def
  using handle_acknowledge_ok [OF h i] handle_verify_connect_ok [OF h i] handle_disconnect_ok [OF h i]
    handle_send_reliable_ok [OF h i] handle_send_unreliable_ok [OF h i] handle_send_unsequenced_ok [OF h i]
    handle_send_fragment_ok [OF h i body_kind(1)] handle_send_unreliable_fragment_ok [OF h i body_kind(2)]
    handle_bandwidth_limit_ok [OF h i] handle_throttle_configure_ok [OF h i] h
  by (cases "pr_body command") (simp_all add: keeps_def c case_prod_beta)

lemma dispatch_keeps:
  assumes "host_ok h" "\<forall>i. peer = Some i \<longrightarrow> i < length (h_peers h)" "command = view_protocol bs"
    and r: "dispatch_command event peer command cd h = (peer', event', cd', h')"
  shows "keeps h h'" "peer' = Some i \<Longrightarrow> i < length (h_peers h)"
proof -
  have "keeps h h' \<and> (peer' = Some i \<longrightarrow> i < length (h_peers h))"
  proof (cases peer)
    case None
    then show ?thesis using assms handle_connect_ok [OF assms(1)]
      by (cases "pr_body command") (auto simp: dispatch_command_def case_prod_beta keeps_def)
  next
    case (Some j)
    obtain q e n g where d: "dispatch_peer_command event j command cd h = (q, e, n, g)" by (metis prod_cases4)
    have "keeps h g" using dispatch_peer_keeps [OF assms(1) _ assms(3), of j event cd] assms(2) Some d by simp
    then show ?thesis using assms(2) r Some d by (auto simp: dispatch_command_def split: if_splits)
  qed
  then show "keeps h h'" "peer' = Some i \<Longrightarrow> i < length (h_peers h)" by simp_all
qed

lemma queue_acknowledgement_keeps: "keeps h (snd (enet_peer_queue_acknowledgement i command t h))"
proof -
  obtain ok h1 where m: "host_malloc h = (ok, h1)" by fastforce
  have "host_ok h \<Longrightarrow> host_ok (upd_peer i (\<lambda>p. p\<lparr>p_outgoingDataTotal := a p, p_acknowledgements := b p\<rparr>) h1)" for a b
    using host_ok_malloc [OF m] by (intro host_ok_fields) (simp_all add: peer_refs_def peer_ok_defs)
  moreover have "length (h_peers h1) = length (h_peers h)" using host_malloc_frame(1) [of h] m by simp
  ultimately show ?thesis
    using host_ok_malloc [OF m] by (simp add: enet_peer_queue_acknowledgement_def Let_def m keeps_def)
qed

lemma acknowledge_keeps: "keeps h (acknowledge_command i command t h)"
  using queue_acknowledgement_keeps by (simp add: acknowledge_command_def Let_def)

lemma command_loop_keeps:
  "host_ok h \<Longrightarrow> \<forall>i. peer = Some i \<longrightarrow> i < length (h_peers h) \<Longrightarrow>
    keeps h (snd (command_loop data flags event peer cd h))"
proof (induction data flags event peer cd h rule: command_loop.induct)
  case (1 data flags event peer cd h)
  show ?case
  proof (cases "command_size_at cd data")
    case None
    then show ?thesis by (simp add: command_loop.simps)
  next
    case (Some n)
    let ?c = "view_protocol (drop cd data)"
    obtain peer' event' cd' h' where d: "dispatch_command event peer ?c (cd + n) h = (peer', event', cd', h')"
      by (metis prod_cases4)
    note k = dispatch_keeps [OF "1.prems" refl d]
    show ?thesis
    proof (cases peer')
      case None
      then show ?thesis using k Some d by (simp add: command_loop.simps [of data flags event peer])
    next
      case i: (Some i)
      let ?a = "acknowledge_command i ?c (get_be16 (drop 2 data)) h'"
      have h': "host_ok h'" "\<forall>i. peer' = Some i \<longrightarrow> i < length (h_peers h')" using k "1.prems" by (auto simp: keeps_def)
      have a: "host_ok ?a" "\<forall>i. peer' = Some i \<longrightarrow> i < length (h_peers ?a)" "keeps h ?a"
        using h' acknowledge_keeps [of h' i ?c] keeps_trans [OF k(1)] by (auto simp: keeps_def)
      note ih = "1.IH" [OF Some refl d [symmetric] refl refl refl i]
      show ?thesis
        using ih(1) [OF _ _ a(1,2)] ih(2) [OF _ h'] keeps_trans [OF k(1)] keeps_trans [OF a(3)] k(1) d i Some
        by (simp add: command_loop.simps [of data flags event peer] Let_def)
    qed
  qed
qed

lemma decompress_keeps: "keeps h (snd (decompress_received flags n h))"
proof (rule keepsI)
  assume h: "host_ok h"
  then have "\<not> (cp_context (h_compressor h) \<and> cp_decompress (h_compressor h) \<noteq> None)"
    by (simp add: host_ok_def memory_safe_def limits_ok_def limits_def)
  then show "host_ok (snd (decompress_received flags n h))" using h by (auto simp: decompress_received_def Let_def)
qed (simp add: decompress_received_def Let_def split: option.split)

lemma checksum_keeps: "keeps h (snd (checksum_received n peer h))"
  by (auto simp: checksum_received_def Let_def keeps_def limits_def split: option.split intro: host_ok_host)

lemma incoming_peer_range: "incoming_peer w h = Some (Some i) \<Longrightarrow> i < length (h_peers h)"
  by (auto simp: incoming_peer_def Let_def split: if_splits)

lemma handle_incoming_keeps: "keeps h (snd (snd (enet_protocol_handle_incoming_commands event h)))"
proof -
  let ?w = "get_be16 (h_receivedData h)" let ?f = "header_flags_of ?w" let ?n = "header_size ?f h"
  obtain ok1 h1 where d: "decompress_received ?f ?n h = (ok1, h1)" by fastforce
  have h1: "keeps h h1" using decompress_keeps [of h ?f ?n] d by simp
  show ?thesis
  proof (cases "incoming_peer ?w h")
    case None
    then show ?thesis by (simp add: enet_protocol_handle_incoming_commands_def Let_def)
  next
    case (Some peer)
    obtain ok2 h2 where c: "checksum_received ?n peer h1 = (ok2, h2)" by fastforce
    have h2: "keeps h h2" using checksum_keeps [of h1 ?n peer] c keeps_trans [OF h1] by simp
    let ?f = "\<lambda>p :: peer. p\<lparr>p_address := h_receivedAddress h2, p_incomingDataTotal := p_incomingDataTotal p
        + of_nat (length (h_receivedData h2))\<rparr>"
    define h3 where "h3 = (case peer of None \<Rightarrow> h2 | Some i \<Rightarrow> upd_peer i ?f h2)"
    have "host_ok h2 \<Longrightarrow> host_ok (upd_peer i ?f h2)" for i
      by (erule host_ok_fields) (simp_all add: peer_refs_def peer_ok_defs)
    then have h3: "keeps h h3" using h2 by (auto simp: h3_def keeps_def split: option.split)
    have i: "\<forall>i. peer = Some i \<longrightarrow> i < length (h_peers h3)" if "host_ok h"
      using Some incoming_peer_range keepsD [OF h3 that] by auto
    have "keeps h (snd (command_loop data w event peer n h3))" for data w n
      using h3 command_loop_keeps [OF _ i] by (auto simp: keeps_def)
    then show ?thesis using h1 h2 Some d c
      by (simp add: enet_protocol_handle_incoming_commands_def Let_def h3_def case_prod_beta)
  qed
qed

lemma receive_rounds_keeps:
  assumes i: "\<And>f h event. intercept = Some f \<Longrightarrow> keeps h (snd (snd (f h event)))"
  shows "keeps h (snd (snd (receive_rounds intercept n event h)))"
proof (induction n arbitrary: event h)
  case (Suc n)
  obtain l a bytes h1 where r: "enet_socket_receive PACKET_DATA_SIZE h = (l, a, bytes, h1)" by (metis prod_cases4)
  have h1: "keeps h (h1\<lparr>h_receivedAddress := a\<rparr>)"
    using r by (auto simp: enet_socket_receive_def Let_def keeps_def limits_def split: list.splits received.splits if_splits intro: host_ok_host)
  let ?h2 = "h1\<lparr>h_receivedAddress := a, h_receivedData := bytes, h_totalReceivedData := h_totalReceivedData h1 + of_int l,
      h_totalReceivedPackets := h_totalReceivedPackets h1 + 1\<rparr>"
  have h2: "keeps h ?h2"
    using h1 host_ok_host [of "h1\<lparr>h_receivedAddress := a\<rparr>" ?h2] by (simp add: keeps_def limits_def)
  obtain v event3 h3 where f: "(case intercept of None \<Rightarrow> (0, event, ?h2) | Some f \<Rightarrow> f ?h2 event) = (v, event3, h3)"
    by (metis prod_cases3)
  have h3: "keeps h h3" using keeps_trans [OF h2 i] f h2 by (auto split: option.splits) (metis snd_conv)
  obtain q event4 h4 where g: "enet_protocol_handle_incoming_commands event3 h3 = (q, event4, h4)" by (metis prod_cases3)
  have h4: "keeps h h4" using keeps_trans [OF h3 handle_incoming_keeps] g by (metis snd_conv)
  show ?case
    using h1 h3 h4 keeps_trans [OF h3 Suc.IH] keeps_trans [OF h4 Suc.IH] by (simp add: r f g Let_def)
qed simp

end
