(* ===== verification/Enet_Outgoing.thy ===== *)
theory Enet_Outgoing
  imports Enet_Incoming
begin

text \<open>
  Datagrams going out: the part of \<open>enet/protocol.c\<close> that packs what the peers have to send into
  datagrams, notices what was not acknowledged in time, and sends.

  The command slots \<open>host -> commands\<close> in use are the list \<open>h_commands\<close>, the buffers in use the
  list \<open>h_buffers\<close>, so that the pointers \<open>command\<close> and \<open>buffer\<close> of the code are the ends of these
  lists.  A buffer names what it points at; the bytes are read when the datagram is sent.  A
  loop over a queue that takes commands out on its way runs over the commands that are left,
  with the place in the queue where they begin.
\<close>

section \<open>Acknowledgements\<close>

definition put_command :: "protocol \<Rightarrow> nat \<Rightarrow> host \<Rightarrow> host" where
  "put_command command commandSize h = h\<lparr>
     h_packetSize := h_packetSize h + commandSize,
     h_commands := h_commands h @ [command],
     h_buffers := h_buffers h @ [Command_Buffer (length (h_commands h)) commandSize]\<rparr>"

definition acknowledge_protocol :: "acknowledgement \<Rightarrow> protocol" where
  "acknowledge_protocol a =
    (let n = hd_reliableSequenceNumber (pr_header (ac_command a))
     in \<lparr>pr_header = \<lparr>hd_command = ENET_PROTOCOL_COMMAND_ACKNOWLEDGE,
           hd_channelID = hd_channelID (pr_header (ac_command a)), hd_reliableSequenceNumber = n\<rparr>,
         pr_body = Acknowledge n (ucast (ac_sentTime a))\<rparr>)"

text \<open>What the MTU leaves of the datagram, a difference of two \<open>size_t\<close>.\<close>

definition room :: "nat \<Rightarrow> host \<Rightarrow> nat" where
  "room i h = sz_sub (unat (p_mtu (peer_at h i))) (h_packetSize h)"

fun acknowledgement_loop :: "nat \<Rightarrow> acknowledgement list \<Rightarrow> host \<Rightarrow> host" where
  "acknowledgement_loop i [] h = h"
| "acknowledgement_loop i (a # as) h =
    (if length (h_commands h) \<ge> ENET_PROTOCOL_MAXIMUM_PACKET_COMMANDS
        \<or> length (h_buffers h) \<ge> ENET_BUFFER_MAXIMUM
        \<or> room i h < sizeof_Acknowledge
     then h\<lparr>h_continueSending := True\<rparr>
     else
       let h = put_command (acknowledge_protocol a) sizeof_Acknowledge h;
           h = (if kind_of (ac_command a) = ENET_PROTOCOL_COMMAND_DISCONNECT
                then enet_protocol_dispatch_state i Zombie h else h);
           h = upd_peer i (\<lambda>p. p\<lparr>p_acknowledgements := as\<rparr>) h
       in acknowledgement_loop i as h)"

definition enet_protocol_send_acknowledgements :: "nat \<Rightarrow> host \<Rightarrow> host" where
  "enet_protocol_send_acknowledgements i h = acknowledgement_loop i (p_acknowledgements (peer_at h i)) h"

section \<open>Timeouts\<close>

definition note_timeout :: "outgoing_command \<Rightarrow> peer \<Rightarrow> peer" where
  "note_timeout c p =
    (if p_earliestTimeout p = 0 \<or> ENET_TIME_LESS (oc_sentTime c) (p_earliestTimeout p)
     then p\<lparr>p_earliestTimeout := oc_sentTime c\<rparr> else p)"

definition gives_up :: "u32 \<Rightarrow> outgoing_command \<Rightarrow> peer \<Rightarrow> bool" where
  "gives_up now c p \<longleftrightarrow> p_earliestTimeout p \<noteq> 0
     \<and> (ENET_TIME_DIFFERENCE now (p_earliestTimeout p) \<ge> p_timeoutMaximum p
        \<or> (oc_roundTripTimeout c \<ge> oc_roundTripTimeoutLimit c
           \<and> ENET_TIME_DIFFERENCE now (p_earliestTimeout p) \<ge> p_timeoutMinimum p))"

definition insert_before :: "nat \<Rightarrow> 'a \<Rightarrow> 'a list \<Rightarrow> 'a list" where
  "insert_before j x xs = take j xs @ x # drop j xs"

text \<open>A lost command goes back to the commands to be sent, at place \<open>j\<close>.\<close>

definition take_back :: "nat \<Rightarrow> nat \<Rightarrow> outgoing_command \<Rightarrow> peer \<Rightarrow> peer" where
  "take_back k j c p = p\<lparr>
     p_packetsLost := p_packetsLost p + 1,
     p_reliableDataInTransit := (if oc_packet c \<noteq> None then p_reliableDataInTransit p - ucast (oc_fragmentLength c)
       else p_reliableDataInTransit p),
     p_sentReliableCommands := remove_nth k (p_sentReliableCommands p),
     p_outgoingCommands := insert_before j (c\<lparr>oc_roundTripTimeout := oc_roundTripTimeout c * 2\<rparr>) (p_outgoingCommands p)\<rparr>"

fun timeout_loop ::
  "nat \<Rightarrow> event option \<Rightarrow> nat \<Rightarrow> nat \<Rightarrow> outgoing_command list \<Rightarrow> host \<Rightarrow> int \<times> event option \<times> host" where
  "timeout_loop i event k j [] h = (0, event, h)"
| "timeout_loop i event k j (c # cs) h =
    (if ENET_TIME_DIFFERENCE (h_serviceTime h) (oc_sentTime c) < oc_roundTripTimeout c
     then timeout_loop i event (Suc k) j cs h
     else
       let h = upd_peer i (note_timeout c) h
       in if gives_up (h_serviceTime h) c (peer_at h i)
          then let (event, h) = enet_protocol_notify_disconnect i event h in (1, event, h)
          else
            let h = upd_peer i (take_back k j c) h;
                h = (if k = 0 then set_next_timeout i h else h)
            in timeout_loop i event k (Suc j) cs h)"

definition enet_protocol_check_timeouts :: "nat \<Rightarrow> event option \<Rightarrow> host \<Rightarrow> int \<times> event option \<times> host" where
  "enet_protocol_check_timeouts i event h =
    timeout_loop i event 0 0 (p_sentReliableCommands (peer_at h i)) h"

section \<open>Commands\<close>

text \<open>A new window may not be entered while commands of a window too close are on their way.\<close>

definition window_mask :: u32 where
  "window_mask = push_bit (ENET_PEER_FREE_RELIABLE_WINDOWS + 2) 1 - 1"

definition window_wraps :: "outgoing_command \<Rightarrow> channel \<Rightarrow> bool" where
  "window_wraps c ch \<longleftrightarrow>
    (let w = window_of (oc_reliableSequenceNumber c)
     in oc_sendAttempts c < 1
        \<and> unat (oc_reliableSequenceNumber c) mod ENET_PEER_RELIABLE_WINDOW_SIZE = 0
        \<and> (unat (ch_reliableWindows ch ! ((w + ENET_PEER_RELIABLE_WINDOWS - 1) mod ENET_PEER_RELIABLE_WINDOWS))
             \<ge> ENET_PEER_RELIABLE_WINDOW_SIZE
           \<or> ucast (ch_usedReliableWindows ch)
               AND (push_bit w window_mask OR drop_bit (ENET_PEER_RELIABLE_WINDOWS - w) window_mask) \<noteq> 0))"

definition exceeds_window :: "outgoing_command \<Rightarrow> peer \<Rightarrow> bool" where
  "exceeds_window c p \<longleftrightarrow>
    (let windowSize = (p_packetThrottle p * p_windowSize p) div ENET_PEER_PACKET_THROTTLE_SCALE
     in p_reliableDataInTransit p + ucast (oc_fragmentLength c) > ENET_MAX windowSize (p_mtu p))"

definition no_room :: "nat \<Rightarrow> outgoing_command \<Rightarrow> host \<Rightarrow> bool" where
  "no_room i c h \<longleftrightarrow>
     length (h_commands h) \<ge> ENET_PROTOCOL_MAXIMUM_PACKET_COMMANDS
     \<or> length (h_buffers h) + 1 \<ge> ENET_BUFFER_MAXIMUM
     \<or> room i h < size_of c
     \<or> (oc_packet c \<noteq> None
        \<and> (of_nat (room i h) :: u16) < of_nat (size_of c + unat (oc_fragmentLength c)))"

definition use_window :: "nat \<Rightarrow> channel \<Rightarrow> channel" where
  "use_window w ch = ch\<lparr>
     ch_usedReliableWindows := ch_usedReliableWindows ch OR push_bit w 1,
     ch_reliableWindows := upd_nth w (\<lambda>n. n + 1) (ch_reliableWindows ch)\<rparr>"

definition note_sent :: "u32 \<Rightarrow> peer \<Rightarrow> outgoing_command \<Rightarrow> outgoing_command" where
  "note_sent now p c =
    (let c = c\<lparr>oc_sendAttempts := oc_sendAttempts c + 1\<rparr>;
         c = (if oc_roundTripTimeout c = 0
              then let t = p_roundTripTime p + 4 * p_roundTripTimeVariance p
                   in c\<lparr>oc_roundTripTimeout := t, oc_roundTripTimeoutLimit := p_timeoutLimit p * t\<rparr>
              else c)
     in c\<lparr>oc_sentTime := now\<rparr>)"

text \<open>A command to be acknowledged moves from place \<open>k\<close> to the sent ones.\<close>

definition move_reliable :: "u32 \<Rightarrow> nat \<Rightarrow> outgoing_command \<Rightarrow> peer \<Rightarrow> peer" where
  "move_reliable now k c p =
    (let c = note_sent now p c
     in p\<lparr>p_nextTimeout := (if p_sentReliableCommands p = [] then now + oc_roundTripTimeout c else p_nextTimeout p),
          p_reliableDataInTransit := p_reliableDataInTransit p + ucast (oc_fragmentLength c),
          p_sentReliableCommands := p_sentReliableCommands p @ [c],
          p_outgoingCommands := remove_nth k (p_outgoingCommands p)\<rparr>)"

definition send_reliable_command :: "nat \<Rightarrow> nat \<Rightarrow> outgoing_command \<Rightarrow> host \<Rightarrow> host" where
  "send_reliable_command i k c h =
    (let h = (if command_channel c < p_channelCount (peer_at h i) \<and> oc_sendAttempts c < 1
              then upd_peer i (upd_channel (command_channel c) (use_window (window_of (oc_reliableSequenceNumber c)))) h
              else h)
     in upd_peer i (move_reliable (h_serviceTime h) k c)
          (h\<lparr>h_headerFlags := h_headerFlags h OR ENET_PROTOCOL_HEADER_FLAG_SENT_TIME\<rparr>))"

definition move_unreliable :: "nat \<Rightarrow> outgoing_command \<Rightarrow> peer \<Rightarrow> peer" where
  "move_unreliable k c p = p\<lparr>
     p_sentUnreliableCommands := (if oc_packet c \<noteq> None then p_sentUnreliableCommands p @ [c]
       else p_sentUnreliableCommands p),
     p_outgoingCommands := remove_nth k (p_outgoingCommands p)\<rparr>"

text \<open>The throttle: unreliable packets count up to it, and those past it are dropped.\<close>

definition count_throttle :: "peer \<Rightarrow> peer" where
  "count_throttle p = p\<lparr>p_packetThrottleCounter :=
     (p_packetThrottleCounter p + ENET_PEER_PACKET_THROTTLE_COUNTER) mod ENET_PEER_PACKET_THROTTLE_SCALE\<rparr>"

definition starts_packet :: "outgoing_command \<Rightarrow> bool" where
  "starts_packet c \<longleftrightarrow> oc_packet c \<noteq> None \<and> oc_fragmentOffset c = 0"

text \<open>The run of commands that goes with a dropped one; the code takes it for granted that each has a packet.\<close>

definition same_numbers :: "outgoing_command \<Rightarrow> outgoing_command \<Rightarrow> bool" where
  "same_numbers c d \<longleftrightarrow> oc_reliableSequenceNumber d = oc_reliableSequenceNumber c
     \<and> oc_unreliableSequenceNumber d = oc_unreliableSequenceNumber c"

definition release_dropped :: "outgoing_command \<Rightarrow> memory \<Rightarrow> memory" where
  "release_dropped c m = (case oc_packet c of None \<Rightarrow> faulty True m | Some p \<Rightarrow> packet_release (Some p) m)"

definition drop_commands :: "nat \<Rightarrow> nat \<Rightarrow> outgoing_command list \<Rightarrow> host \<Rightarrow> host" where
  "drop_commands i k run h =
    upd_peer i (\<lambda>p. p\<lparr>p_outgoingCommands := take k (p_outgoingCommands p)
        @ drop (k + length run) (p_outgoingCommands p)\<rparr>)
      (upd_mem (fold release_dropped run) h)"

definition put_data :: "outgoing_command \<Rightarrow> host \<Rightarrow> host" where
  "put_data c h =
    (case oc_packet c of
      None \<Rightarrow> h
    | Some p \<Rightarrow>
        (upd_mem (faulty (\<not> alive h (Some p))) h)\<lparr>
          h_packetSize := h_packetSize h + unat (oc_fragmentLength c),
          h_buffers := h_buffers h @ [Packet_Buffer p (unat (oc_fragmentOffset c)) (unat (oc_fragmentLength c))]\<rparr>)"

definition put_outgoing :: "nat \<Rightarrow> outgoing_command \<Rightarrow> host \<Rightarrow> host" where
  "put_outgoing i c h =
    upd_peer i (\<lambda>p. p\<lparr>p_packetsSent := p_packetsSent p + 1\<rparr>)
      (put_data c (put_command (oc_command c) (size_of c) h))"

text \<open>
  The loop, with the flags \<open>windowExceeded\<close>, \<open>windowWrap\<close> and \<open>canPing\<close>; it returns the last.
\<close>

function outgoing_loop ::
  "nat \<Rightarrow> nat \<Rightarrow> bool \<Rightarrow> bool \<Rightarrow> bool \<Rightarrow> outgoing_command list \<Rightarrow> host \<Rightarrow> bool \<times> host" where
  "outgoing_loop i k windowExceeded windowWrap canPing [] h = (canPing, h)"
| "outgoing_loop i k windowExceeded windowWrap canPing (c # cs) h =
    (let p = peer_at h i;
         on = command_acknowledged c \<and> command_channel c < p_channelCount p;
         windowWrap = (windowWrap \<or> (on \<and> window_wraps c (channel_at p (command_channel c))))
     in if on \<and> windowWrap
        then outgoing_loop i (Suc k) windowExceeded windowWrap canPing cs h
        else
          let held = command_acknowledged c \<and> oc_packet c \<noteq> None;
              windowExceeded = (windowExceeded \<or> (held \<and> exceeds_window c p))
          in if held \<and> windowExceeded
             then outgoing_loop i (Suc k) windowExceeded windowWrap canPing cs h
             else
               let canPing = (canPing \<and> \<not> command_acknowledged c)
               in if no_room i c h then (canPing, h\<lparr>h_continueSending := True\<rparr>)
                  else if command_acknowledged c
                  then outgoing_loop i k windowExceeded windowWrap canPing cs
                         (put_outgoing i c (send_reliable_command i k c h))
                  else
                    let h = (if starts_packet c then upd_peer i count_throttle h else h)
                    in if starts_packet c \<and> p_packetThrottleCounter (peer_at h i) > p_packetThrottle (peer_at h i)
                       then outgoing_loop i k windowExceeded windowWrap canPing (dropWhile (same_numbers c) cs)
                              (drop_commands i k (c # takeWhile (same_numbers c) cs) h)
                       else outgoing_loop i k windowExceeded windowWrap canPing cs
                              (put_outgoing i c (upd_peer i (move_unreliable k c) h)))"
  by pat_completeness auto

termination
  by (relation "measure (\<lambda>(i, k, e, w, g, cs, h). length cs)") (simp_all add: less_Suc_eq_le length_dropWhile_le)

definition enet_protocol_check_outgoing_commands :: "nat \<Rightarrow> host \<Rightarrow> bool \<times> host" where
  "enet_protocol_check_outgoing_commands i h =
    (let (canPing, h) = outgoing_loop i 0 False False True (p_outgoingCommands (peer_at h i)) h;
         p = peer_at h i
     in (canPing,
         if p_state p = Disconnect_Later \<and> p_outgoingCommands p = [] \<and> p_sentReliableCommands p = []
            \<and> p_sentUnreliableCommands p = []
         then enet_peer_disconnect (\<lambda>h. h) i (p_eventData p) h else h))"

section \<open>Datagrams\<close>

definition begin_datagram :: "host \<Rightarrow> host" where
  "begin_datagram h = h\<lparr>h_packetSize := sizeof_ProtocolHeader, h_headerFlags := 0, h_commands := [],
     h_buffers := [Header_Buffer]\<rparr>"

definition update_loss :: "u32 \<Rightarrow> peer \<Rightarrow> peer" where
  "update_loss now p =
    (if p_packetLossEpoch p = 0 then p\<lparr>p_packetLossEpoch := now\<rparr>
     else if ENET_TIME_DIFFERENCE now (p_packetLossEpoch p) \<ge> ENET_PEER_PACKET_LOSS_INTERVAL \<and> p_packetsSent p > 0
     then
       let packetLoss = p_packetsLost p * ENET_PEER_PACKET_LOSS_SCALE div p_packetsSent p
       in p\<lparr>p_packetLossEpoch := now, p_packetsSent := 0, p_packetsLost := 0,
            p_packetLoss := (p_packetLoss p * 7 + packetLoss) div 8,
            p_packetLossVariance := (p_packetLossVariance p * 3 + ENET_DIFFERENCE packetLoss (p_packetLoss p)) div 4\<rparr>
     else p)"

text \<open>The bytes of the buffers behind the header.  A buffer that points past the end of a packet, or at a freed one, is noted.\<close>

definition buffer_bytes :: "host \<Rightarrow> buffer \<Rightarrow> u8 list" where
  "buffer_bytes h b =
    (case b of
      Header_Buffer \<Rightarrow> []
    | Command_Buffer k n \<Rightarrow> take n (encode_protocol (h_commands h ! k))
    | Packet_Buffer p offset n \<Rightarrow> take n (drop offset (packet_bytes (h_mem h) p)))"

fun buffer_packet :: "buffer \<Rightarrow> nat option" where
  "buffer_packet (Packet_Buffer p offset n) = Some p"
| "buffer_packet _ = None"

fun buffer_end :: "buffer \<Rightarrow> nat" where
  "buffer_end (Packet_Buffer p offset n) = offset + n"
| "buffer_end _ = 0"

definition reads_past :: "host \<Rightarrow> buffer \<Rightarrow> bool" where
  "reads_past h b \<longleftrightarrow> (case buffer_packet b of None \<Rightarrow> False
     | Some p \<Rightarrow> length (packet_bytes (h_mem h) p) < buffer_end b)"

definition read_buffers :: "host \<Rightarrow> u8 list list \<times> host" where
  "read_buffers h =
    (let bs = tl (h_buffers h)
     in (map (buffer_bytes h) bs,
         (upd_mem (faulty (\<exists>b \<in> set bs. \<not> alive h (buffer_packet b))) h)
           \<lparr>h_overread := (h_overread h \<or> (\<exists>b \<in> set bs. reads_past h b))\<rparr>))"

definition compress_datagram :: "u8 list list \<Rightarrow> host \<Rightarrow> u8 list option \<times> host" where
  "compress_datagram body h =
    (if \<not> cp_context (h_compressor h) then (None, h)
     else
       case cp_compress (h_compressor h) of
         None \<Rightarrow> (None, h)
       | Some compress \<Rightarrow>
           let originalSize = h_packetSize h - sizeof_ProtocolHeader;
               out = compress body originalSize originalSize
           in if length out > 0 \<and> length out < originalSize
              then (Some out, h\<lparr>h_headerFlags := h_headerFlags h OR ENET_PROTOCOL_HEADER_FLAG_COMPRESSED\<rparr>)
              else (None, h))"

definition header_bytes :: "nat \<Rightarrow> host \<Rightarrow> u8 list" where
  "header_bytes i h =
    (let p = peer_at h i;
         session = (if unat (p_outgoingPeerID p) < ENET_PROTOCOL_MAXIMUM_PEER_ID then p_outgoingSessionID p else 0)
     in put_be16 (compose_peerID (p_outgoingPeerID p) session (h_headerFlags h))
        @ (if h_headerFlags h AND ENET_PROTOCOL_HEADER_FLAG_SENT_TIME \<noteq> 0
           then put_be16 (ucast (h_serviceTime h)) else []))"

text \<open>The checksum is taken over the uncompressed datagram with the connect ID in its place.\<close>

definition finish_header :: "nat \<Rightarrow> u8 list list \<Rightarrow> host \<Rightarrow> u8 list" where
  "finish_header i body h =
    (let p = peer_at h i; header = header_bytes i h
     in case h_checksum h of
          None \<Rightarrow> header
        | Some checksum \<Rightarrow>
            let connectID = (if unat (p_outgoingPeerID p) < ENET_PROTOCOL_MAXIMUM_PEER_ID then p_connectID p else 0)
            in header @ put_native32 (checksum ((header @ put_native32 connectID) # body)))"

text \<open>The socket takes all bytes, unless the network says otherwise.\<close>

definition enet_socket_send :: "address \<Rightarrow> u8 list list \<Rightarrow> host \<Rightarrow> int \<times> host" where
  "enet_socket_send address buffers h =
    (let n = (h_net h)\<lparr>nt_outbox := nt_outbox (h_net h) @ [(address, buffers)]\<rparr>
     in case nt_sends n of
          [] \<Rightarrow> (int (length (concat buffers)), h\<lparr>h_net := n\<rparr>)
        | r # rest \<Rightarrow> (r, h\<lparr>h_net := n\<lparr>nt_sends := rest\<rparr>\<rparr>))"

text \<open>From the packed commands to the socket.\<close>

definition send_datagram :: "nat \<Rightarrow> host \<Rightarrow> int \<times> host" where
  "send_datagram i h =
    (let h = upd_peer i (update_loss (h_serviceTime h)) h;
         (body, h) = read_buffers h;
         (compressed, h) = compress_datagram body h;
         header = finish_header i body h;
         body = (case compressed of None \<Rightarrow> body | Some out \<Rightarrow> [out]);
         h = upd_peer i (\<lambda>p. p\<lparr>p_lastSendTime := h_serviceTime h\<rparr>) h;
         (sentLength, h) = enet_socket_send (p_address (peer_at h i)) (header # body) h;
         h = enet_protocol_remove_sent_unreliable_commands i h
     in if sentLength < 0 then (-1, h)
        else (0, h\<lparr>h_totalSentData := h_totalSentData h + of_int sentLength,
                   h_totalSentPackets := h_totalSentPackets h + 1\<rparr>))"

section \<open>Peers\<close>

text \<open>Packing: what there is to send, and a ping if there is nothing else.\<close>

definition pack_commands :: "nat \<Rightarrow> host \<Rightarrow> host" where
  "pack_commands i h =
    (let (canPing, h) = (if p_outgoingCommands (peer_at h i) = [] then (True, h)
                         else enet_protocol_check_outgoing_commands i h);
         p = peer_at h i
     in if canPing \<and> p_sentReliableCommands p = []
           \<and> ENET_TIME_DIFFERENCE (h_serviceTime h) (p_lastReceiveTime p) \<ge> p_pingInterval p
           \<and> room i h \<ge> sizeof_Ping
        then snd (enet_protocol_check_outgoing_commands i (enet_peer_ping i h))
        else h)"

definition timeouts_due :: "bool \<Rightarrow> nat \<Rightarrow> host \<Rightarrow> bool" where
  "timeouts_due checkForTimeouts i h \<longleftrightarrow> checkForTimeouts \<and> p_sentReliableCommands (peer_at h i) \<noteq> []
     \<and> ENET_TIME_GREATER_EQUAL (h_serviceTime h) (p_nextTimeout (peer_at h i))"

text \<open>One round of the inner loop; 0 stands for going on with the next peer.\<close>

definition send_to_peer :: "event option \<Rightarrow> bool \<Rightarrow> nat \<Rightarrow> host \<Rightarrow> int \<times> event option \<times> host" where
  "send_to_peer event checkForTimeouts i h =
    (if p_state (peer_at h i) = Disconnected \<or> p_state (peer_at h i) = Zombie then (0, event, h)
     else
       let h = begin_datagram h;
           h = enet_protocol_send_acknowledgements i h;
           (timedOut, event, h) = (if timeouts_due checkForTimeouts i h
              then enet_protocol_check_timeouts i event h else (0, event, h))
       in if timedOut = 1 then (if event_occurred event then 1 else 0, event, h)
          else
            let h = pack_commands i h
            in if h_commands h = [] then (0, event, h)
               else let (r, h) = send_datagram i h in (r, event, h))"

fun send_round :: "bool \<Rightarrow> nat list \<Rightarrow> event option \<Rightarrow> host \<Rightarrow> int \<times> event option \<times> host" where
  "send_round checkForTimeouts [] event h = (0, event, h)"
| "send_round checkForTimeouts (i # is) event h =
    (let (r, event, h) = send_to_peer event checkForTimeouts i h
     in if r \<noteq> 0 then (r, event, h) else send_round checkForTimeouts is event h)"

text \<open>The rounds go on while some peer has more to send than fits into a datagram.\<close>

fun send_rounds :: "nat \<Rightarrow> bool \<Rightarrow> event option \<Rightarrow> host \<Rightarrow> int \<times> event option \<times> host" where
  "send_rounds 0 checkForTimeouts event h =
    (if h_continueSending h then (0, event, h\<lparr>h_hung := True\<rparr>) else (0, event, h))"
| "send_rounds (Suc fuel) checkForTimeouts event h =
    (if \<not> h_continueSending h then (0, event, h)
     else
       let (r, event, h) = send_round checkForTimeouts [0..<length (h_peers h)] event (h\<lparr>h_continueSending := False\<rparr>)
       in if r \<noteq> 0 then (r, event, h) else send_rounds fuel checkForTimeouts event h)"

text \<open>
  A bound on the rounds that can be needed; that it is one is shown in \<open>Enet_Progress\<close>.
\<close>

definition send_work :: "peer \<Rightarrow> nat" where
  "send_work p = 2 * length (p_acknowledgements p) + 4 * length (p_sentReliableCommands p)
     + 2 * length (p_outgoingCommands p) + 3"

definition enet_protocol_send_outgoing_commands ::
  "event option \<Rightarrow> bool \<Rightarrow> host \<Rightarrow> int \<times> event option \<times> host" where
  "enet_protocol_send_outgoing_commands event checkForTimeouts h =
    send_rounds (Suc (sum_list (map send_work (h_peers h)))) checkForTimeouts event (h\<lparr>h_continueSending := True\<rparr>)"

end
