(* ===== verification/Enet_Outgoing_Safe.thy ===== *)
theory Enet_Outgoing_Safe
  imports Enet_Outgoing
begin

text \<open>
  Sending keeps the invariant of a host.  The point at which it could fail is the gather list:
  its buffers point into packets, and these must live until the socket has read them.  They
  do, because each belongs to a command that by then is in one of the queues of sent commands
  (\<open>buffers_held\<close>), and so holds a reference.
\<close>

section \<open>Acknowledgements and timeouts\<close>

lemma put_command_ok: "host_ok h \<Longrightarrow> host_ok (put_command c n h)"
  by (erule host_ok_host) (simp_all add: put_command_def limits_def)

lemma put_command_peers [simp]: "h_peers (put_command c n h) = h_peers h" "peer_at (put_command c n h) i = peer_at h i"
  by (simp_all add: put_command_def peer_at_def)

lemma host_ok_continue: "host_ok h \<Longrightarrow> host_ok (h\<lparr>h_continueSending := b\<rparr>)"
  by (erule host_ok_host) (simp_all add: limits_def)

lemma no_packet_buffers_state [simp]:
  "h_buffers (enet_protocol_dispatch_state i s h) = h_buffers h"
  by (simp add: enet_protocol_dispatch_state_def mark_dispatch_def enet_protocol_change_state_def
      enet_peer_on_connect_def enet_peer_on_disconnect_def Let_def)

lemma acknowledgement_loop_ok:
  "host_ok h \<Longrightarrow> i < length (h_peers h) \<Longrightarrow> host_ok (acknowledgement_loop i as h)
    \<and> length (h_peers (acknowledgement_loop i as h)) = length (h_peers h)"
proof (induction as arbitrary: h)
  case (Cons a as)
  have a: "host_ok (upd_peer i (\<lambda>p. p\<lparr>p_acknowledgements := as\<rparr>) g)" if "host_ok g" for g
    by (rule host_ok_fields [OF that]) (simp_all add: peer_refs_def peer_ok_defs)
  let ?h = "put_command (acknowledge_protocol a) sizeof_Acknowledge h"
  have "host_ok ?h" "i < length (h_peers ?h)" using Cons.prems put_command_ok by simp_all
  then show ?case
    using Cons.prems a dispatch_state_ok [of ?h i Zombie] Cons.IH host_ok_continue
    by (simp add: Let_def idle_def)
qed simp

lemma note_timeout_ok: "host_ok h \<Longrightarrow> host_ok (upd_peer i (note_timeout c) h)"
  by (erule host_ok_fields) (simp_all add: note_timeout_def peer_refs_def peer_ok_defs)

lemma insert_before_refs: "out_refs (insert_before j c q) = add_mset (oc_packet c) (out_refs q)"
proof -
  have "out_refs q = out_refs (take j q @ drop j q)" by simp
  then show ?thesis unfolding insert_before_def by (simp del: append_take_drop_id)
qed

lemma set_insert_before: "set (insert_before j c q) = insert c (set q)"
proof -
  have "set q = set (take j q @ drop j q)" by simp
  then show ?thesis unfolding insert_before_def by (auto simp del: append_take_drop_id)
qed

text \<open>Commands that move from one queue to another stay as large as they are.\<close>

definition like :: "outgoing_command \<Rightarrow> outgoing_command set \<Rightarrow> bool" where
  "like c q \<longleftrightarrow> (\<exists>d \<in> q. size_of c = size_of d \<and> oc_fragmentLength c = oc_fragmentLength d)"

lemma like_in [intro]: "c \<in> q \<Longrightarrow> like c q"
  by (auto simp: like_def)

lemma like_same:
  "c \<in> q \<Longrightarrow> size_of d = size_of c \<Longrightarrow> oc_fragmentLength d = oc_fragmentLength c \<Longrightarrow> like d q"
  by (auto simp: like_def)

lemma traffic_ok_like:
  "traffic_ok (m, e, q, s, t, v) \<Longrightarrow> \<forall>c \<in> set q' \<union> set s'. like c (set q \<union> set s) \<Longrightarrow> traffic_ok (m, e, q', s', t, v)"
proof -
  assume t: "traffic_ok (m, e, q, s, t, v)" and l: "\<forall>c \<in> set q' \<union> set s'. like c (set q \<union> set s)"
  have "alone m c \<and> (e \<longrightarrow> light c)" if c: "c \<in> set q' \<union> set s'" for c
  proof -
    obtain d where "d \<in> set q \<union> set s" "size_of c = size_of d" "oc_fragmentLength c = oc_fragmentLength d"
      using l c by (auto simp: like_def)
    then show ?thesis using t by (simp add: traffic_ok_def alone_def light_def)
  qed
  then show ?thesis using t by (simp add: traffic_ok_def)
qed

lemma take_back_ok:
  assumes h: "host_ok h" and k: "k < length (p_sentReliableCommands (peer_at h i))"
    "p_sentReliableCommands (peer_at h i) ! k = c"
  shows "host_ok (upd_peer i (take_back k j c) h)"
proof (rule host_ok_fields [OF h])
  let ?p = "peer_at h i"
  show "peer_refs (take_back k j c ?p) = peer_refs ?p"
    using k remove_nth_refs [OF k(1)] by (simp add: take_back_def peer_refs_def insert_before_refs)
  have "outgoing_ok (c\<lparr>oc_roundTripTimeout := t\<rparr>) = outgoing_ok c" for t
    by (simp add: outgoing_ok_def command_acknowledged_def split: option.split)
  moreover have "c \<in> set (p_sentReliableCommands ?p)" using k nth_mem by blast
  ultimately show "peer_ok ?p \<Longrightarrow> peer_ok (take_back k j c ?p)"
    using set_remove_nth [of k "p_sentReliableCommands ?p"] like_same [of c]
    by (auto simp: take_back_def peer_ok_defs set_insert_before size_of_def elim!: traffic_ok_like)
qed (simp_all add: take_back_def)

lemma drop_remove_nth: "k \<le> length q \<Longrightarrow> drop k (remove_nth k q) = drop (Suc k) q"
  by (simp add: remove_nth_def)

lemma drop_Cons_nth: "c # cs = drop k q \<Longrightarrow> k < length q \<and> q ! k = c \<and> cs = drop (Suc k) q"
  by (metis Cons_nth_drop_Suc drop_eq_Nil linorder_not_less list.distinct(1) list.inject)

lemma set_next_timeout_sent:
  "i < length (h_peers h) \<Longrightarrow> p_sentReliableCommands (peer_at (set_next_timeout i h) i) = p_sentReliableCommands (peer_at h i)"
  by (simp add: set_next_timeout_def split: list.split)

lemma timeout_loop_ok:
  "host_ok h \<Longrightarrow> i < length (h_peers h) \<Longrightarrow> cs = drop k (p_sentReliableCommands (peer_at h i)) \<Longrightarrow>
    host_ok (snd (snd (timeout_loop i event k j cs h)))
    \<and> length (h_peers (snd (snd (timeout_loop i event k j cs h)))) = length (h_peers h)"
proof (induction cs arbitrary: k j h)
  case (Cons c cs)
  note c = drop_Cons_nth [OF Cons.prems(3)]
  let ?h1 = "upd_peer i (note_timeout c) h"
  let ?h2 = "upd_peer i (take_back k j c) ?h1"
  let ?h3 = "if k = 0 then set_next_timeout i ?h2 else ?h2"
  have sent: "p_sentReliableCommands (peer_at ?h1 i) = p_sentReliableCommands (peer_at h i)"
    using Cons.prems(2) by (simp add: note_timeout_def)
  have h1: "host_ok ?h1" "i < length (h_peers ?h1)" using Cons.prems note_timeout_ok by simp_all
  have h2: "host_ok ?h2" by (rule take_back_ok [OF h1(1)]) (use c sent in simp_all)
  have h3: "host_ok ?h3" "length (h_peers ?h3) = length (h_peers h)"
    using h2 set_next_timeout_ok(1) [OF h2] set_next_timeout_ok(2) [of i ?h2] by auto
  have "p_sentReliableCommands (peer_at ?h2 i) = remove_nth k (p_sentReliableCommands (peer_at h i))"
    using Cons.prems(2) sent by (simp add: take_back_def note_timeout_def)
  then have "p_sentReliableCommands (peer_at ?h3 i) = remove_nth k (p_sentReliableCommands (peer_at h i))"
    using Cons.prems(2) set_next_timeout_sent [of i ?h2] by (cases "k = 0") simp_all
  then have "cs = drop k (p_sentReliableCommands (peer_at ?h3 i))"
    using c drop_remove_nth [of k "p_sentReliableCommands (peer_at h i)"] by simp
  note rest = Cons.IH [OF h3(1) _ this]
  obtain e h4 where n: "enet_protocol_notify_disconnect i event ?h1 = (e, h4)" by fastforce
  have "host_ok h4" "length (h_peers h4) = length (h_peers h)" using notify_disconnect_ok [OF h1, of event] n by simp_all
  then show ?case
    using Cons.IH [OF Cons.prems(1,2)] rest h3(2) Cons.prems(2) c n by (simp add: Let_def del: upd_peer_twice)
qed simp

section \<open>Buffers\<close>

definition sent_refs :: "peer \<Rightarrow> nat option multiset" where
  "sent_refs p = out_refs (p_sentReliableCommands p) + out_refs (p_sentUnreliableCommands p)"

definition buffers_held :: "nat \<Rightarrow> host \<Rightarrow> bool" where
  "buffers_held i h \<longleftrightarrow> (\<forall>b \<in> set (h_buffers h). \<forall>p. buffer_packet b = Some p \<longrightarrow> Some p \<in># sent_refs (peer_at h i))"

lemma sent_refs_alive:
  assumes h: "host_ok h" and i: "i < length (h_peers h)" and p: "Some p \<in># sent_refs (peer_at h i)"
  shows "alive h (Some p)"
proof -
  have "Some p \<in># peer_refs (peer_at h i) + others i h" using p by (auto simp: sent_refs_def peer_refs_def)
  then show ?thesis
    using memory_safe_at [OF host_ok_memory [OF h] i] refs_ok_alive by (fastforce simp: safe_at_def alive_def)
qed

lemma buffers_held_mono:
  "buffers_held i h \<Longrightarrow> h_buffers h' = h_buffers h \<Longrightarrow> sent_refs (peer_at h i) \<subseteq># sent_refs (peer_at h' i) \<Longrightarrow>
    buffers_held i h'"
  by (auto simp: buffers_held_def dest: mset_subset_eqD)

lemma buffers_held_upd:
  "buffers_held i h \<Longrightarrow> i < length (h_peers h) \<Longrightarrow> sent_refs (peer_at h i) \<subseteq># sent_refs (f (peer_at h i)) \<Longrightarrow>
    buffers_held i (upd_peer i f h)"
  by (erule buffers_held_mono) simp_all

section \<open>Packing commands\<close>

lemma use_window_commands [simp]: "channel_cmds (use_window w ch) = channel_cmds ch"
  by (simp add: use_window_def channel_cmds_def)

lemma note_sent_same [simp]: "oc_packet (note_sent now p c) = oc_packet c" "outgoing_ok (note_sent now p c) = outgoing_ok c"
  "size_of (note_sent now p c) = size_of c" "oc_fragmentLength (note_sent now p c) = oc_fragmentLength c"
  by (simp_all add: note_sent_def Let_def outgoing_ok_def command_acknowledged_def size_of_def split: option.split)

lemma send_reliable_ok:
  assumes h: "host_ok h" and i: "i < length (h_peers h)" and k: "k < length (p_outgoingCommands (peer_at h i))"
    "p_outgoingCommands (peer_at h i) ! k = c" and b: "buffers_held i h"
  defines "h' \<equiv> send_reliable_command i k c h"
  shows "host_ok h'" "length (h_peers h') = length (h_peers h)" "buffers_held i h'"
    "p_outgoingCommands (peer_at h' i) = remove_nth k (p_outgoingCommands (peer_at h i))"
    "oc_packet c \<in># sent_refs (peer_at h' i)"
proof -
  let ?u = "upd_channel (command_channel c) (use_window (window_of (oc_reliableSequenceNumber c)))"
  define h1 where "h1 = (if command_channel c < p_channelCount (peer_at h i) \<and> oc_sendAttempts c < 1 then upd_peer i ?u h else h)"
  have p1: "p_outgoingCommands (peer_at h1 i) = p_outgoingCommands (peer_at h i)"
    "sent_refs (peer_at h1 i) = sent_refs (peer_at h i)" "h_buffers h1 = h_buffers h" "length (h_peers h1) = length (h_peers h)"
    using i by (simp_all add: h1_def upd_channel_def sent_refs_def)
  have "host_ok (upd_peer i ?u h)" by (rule host_ok_fields [OF h]) (simp_all add: same_commands)
  then have "host_ok h1" using h by (simp add: h1_def)
  then have h2: "host_ok (h1\<lparr>h_headerFlags := w\<rparr>)" for w by (rule host_ok_host) (simp_all add: limits_def)
  let ?h2 = "h1\<lparr>h_headerFlags := h_headerFlags h1 OR ENET_PROTOCOL_HEADER_FLAG_SENT_TIME\<rparr>"
  have eq: "h' = upd_peer i (move_reliable (h_serviceTime h1) k c) ?h2"
    by (simp add: h'_def h1_def send_reliable_command_def Let_def)
  have at: "peer_at ?h2 i = peer_at h1 i" by (simp add: peer_at_def)
  show "host_ok h'"
    unfolding eq
  proof (rule host_ok_fields [OF h2])
    show "peer_refs (move_reliable (h_serviceTime h1) k c (peer_at ?h2 i)) = peer_refs (peer_at ?h2 i)"
      using k p1(1) remove_nth_refs [of k "p_outgoingCommands (peer_at h1 i)"]
      by (simp add: at move_reliable_def Let_def peer_refs_def)
    show "peer_ok (peer_at ?h2 i) \<Longrightarrow> peer_ok (move_reliable (h_serviceTime h1) k c (peer_at ?h2 i))"
      using k p1(1) set_remove_nth [of k "p_outgoingCommands (peer_at h1 i)"]
        nth_mem [OF k(1)] like_same [of c]
      by (auto simp: at move_reliable_def Let_def peer_ok_defs k(2) elim!: traffic_ok_like)
  qed (simp_all add: move_reliable_def Let_def)
  show "length (h_peers h') = length (h_peers h)" by (simp add: eq p1(4))
  have at': "peer_at h' i = move_reliable (h_serviceTime h1) k c (peer_at h1 i)" using i p1(4) at by (simp add: eq)
  show "p_outgoingCommands (peer_at h' i) = remove_nth k (p_outgoingCommands (peer_at h i))"
    unfolding at' by (simp add: move_reliable_def Let_def p1(1))
  have s: "sent_refs (peer_at h' i) = add_mset (oc_packet c) (sent_refs (peer_at h i))"
    unfolding at' p1(2) [symmetric] by (simp add: move_reliable_def Let_def sent_refs_def)
  then show "oc_packet c \<in># sent_refs (peer_at h' i)" by simp
  show "buffers_held i h'" by (rule buffers_held_mono [OF b]) (simp_all only: s, simp_all add: eq p1(3))
qed

lemma move_unreliable_ok:
  assumes h: "host_ok h" and i: "i < length (h_peers h)" and k: "k < length (p_outgoingCommands (peer_at h i))"
    "p_outgoingCommands (peer_at h i) ! k = c" and b: "buffers_held i h"
  defines "h' \<equiv> upd_peer i (move_unreliable k c) h"
  shows "host_ok h'" "length (h_peers h') = length (h_peers h)" "buffers_held i h'"
    "p_outgoingCommands (peer_at h' i) = remove_nth k (p_outgoingCommands (peer_at h i))"
    "oc_packet c \<noteq> None \<Longrightarrow> oc_packet c \<in># sent_refs (peer_at h' i)"
proof -
  let ?N = "if oc_packet c = None then {#None#} else {#}"
  have "host_ok (upd_peer i (move_unreliable k c) (upd_mem (\<lambda>m. m) h))"
  proof (rule host_ok_release [OF h i, where N = ?N and f = "move_unreliable k c" and g = "\<lambda>m. m"])
    show "peer_refs (peer_at h i) = ?N + peer_refs (move_unreliable k c (peer_at h i))"
      using k remove_nth_refs [OF k(1)] by (auto simp: move_unreliable_def peer_refs_def)
    show "refs_ok (h_mem h) (?N + M) \<Longrightarrow> refs_ok (h_mem h) M" for M by (simp split: if_splits)
    show "peer_ok (peer_at h i) \<Longrightarrow> peer_ok (move_unreliable k c (peer_at h i))"
      using k set_remove_nth [of k "p_outgoingCommands (peer_at h i)"] by (auto simp: move_unreliable_def peer_ok_defs elim!: traffic_ok_subset)
  qed (simp_all add: move_unreliable_def)
  then show "host_ok h'" by (simp add: h'_def upd_mem_def)
  show "length (h_peers h') = length (h_peers h)" by (simp add: h'_def)
  show "buffers_held i h'"
    unfolding h'_def by (rule buffers_held_upd [OF b i]) (simp add: move_unreliable_def sent_refs_def)
  show "p_outgoingCommands (peer_at h' i) = remove_nth k (p_outgoingCommands (peer_at h i))"
    using i by (simp add: h'_def move_unreliable_def)
  show "oc_packet c \<noteq> None \<Longrightarrow> oc_packet c \<in># sent_refs (peer_at h' i)"
    using i by (simp add: h'_def move_unreliable_def sent_refs_def)
qed

lemma release_dropped_refs:
  "refs_ok m (out_refs run + M) \<Longrightarrow> \<forall>d \<in> set run. oc_packet d \<noteq> None \<Longrightarrow> refs_ok (fold release_dropped run m) M"
proof (induction run arbitrary: m)
  case (Cons d run)
  then have "refs_ok (packet_release (oc_packet d) m) (out_refs run + M)" by (intro refs_ok_release) simp
  then show ?case using Cons by (auto simp: release_dropped_def split: option.split)
qed simp

lemma drop_commands_ok:
  assumes h: "host_ok h" and i: "i < length (h_peers h)" and b: "buffers_held i h"
    and c: "c # cs = drop k (p_outgoingCommands (peer_at h i))"
    and u: "\<not> command_acknowledged c" "starts_packet c"
  defines "h' \<equiv> drop_commands i k (c # takeWhile (same_numbers c) cs) h"
  shows "host_ok h'" "length (h_peers h') = length (h_peers h)" "buffers_held i h'"
    "dropWhile (same_numbers c) cs = drop k (p_outgoingCommands (peer_at h' i))"
proof -
  let ?q = "p_outgoingCommands (peer_at h i)" let ?run = "c # takeWhile (same_numbers c) cs"
  note c' = drop_Cons_nth [OF c]
  have q: "?q = take k ?q @ ?run @ dropWhile (same_numbers c) cs" using c by (metis append_Cons append_take_drop_id takeWhile_dropWhile_id)
  have d: "drop (k + length ?run) ?q = dropWhile (same_numbers c) cs"
  proof -
    have "drop (k + length ?run) ?q = drop (length (takeWhile (same_numbers c) cs)) (drop (Suc k) ?q)"
      by (simp add: add.commute)
    then show ?thesis using c' by (simp only: dropWhile_eq_drop)
  qed
  let ?f = "\<lambda>p :: peer. p\<lparr>p_outgoingCommands := take k (p_outgoingCommands p) @ drop (k + length ?run) (p_outgoingCommands p)\<rparr>"
  have "oc_packet d \<noteq> None" if "peer_ok (peer_at h i)" "d \<in> set ?run" for d
  proof -
    have "c \<in> set ?q" "d \<in> set ?q" using q that(2) c' nth_mem by (metis Un_iff set_append)+
    then have "outgoing_ok c" "outgoing_ok d" using that(1) by (simp_all add: peer_ok_def)
    moreover have "oc_unreliableSequenceNumber d = oc_unreliableSequenceNumber c"
      using that(2) by (auto simp: same_numbers_def dest: set_takeWhileD)
    ultimately show ?thesis using u by (auto simp: outgoing_ok_def starts_packet_def split: option.splits)
  qed
  then have run: "\<forall>d \<in> set ?run. oc_packet d \<noteq> None" using memory_safe_at [OF host_ok_memory [OF h] i] by blast
  show "host_ok h'"
    unfolding h'_def drop_commands_def
  proof (rule host_ok_release [OF h i, of "out_refs ?run"])
    have "out_refs ?q = out_refs ?run + out_refs (take k ?q @ drop (k + length ?run) ?q)"
    proof -
      have "out_refs ?q = out_refs (take k ?q) + out_refs (c # cs)"
        using c by (metis append_take_drop_id refs_simps(3))
      moreover have "out_refs cs = out_refs (takeWhile (same_numbers c) cs) + out_refs (dropWhile (same_numbers c) cs)"
        by (metis takeWhile_dropWhile_id refs_simps(3))
      ultimately show ?thesis unfolding d by (simp add: ac_simps)
    qed
    then show "peer_refs (peer_at h i) = out_refs ?run + peer_refs (?f (peer_at h i))"
      unfolding peer_refs_def by simp
    show "refs_ok (h_mem h) (out_refs ?run + M) \<Longrightarrow> refs_ok (fold release_dropped ?run (h_mem h)) M" for M
      using release_dropped_refs run by blast
    show "peer_ok (peer_at h i) \<Longrightarrow> peer_ok (?f (peer_at h i))"
      unfolding peer_ok_defs by (auto dest: in_set_takeD in_set_dropD elim!: traffic_ok_subset)
  qed simp_all
  show "length (h_peers h') = length (h_peers h)" by (simp add: h'_def drop_commands_def)
  have at: "peer_at h' i = ?f (peer_at h i)" using i by (simp add: h'_def drop_commands_def)
  show "buffers_held i h'"
    by (rule buffers_held_mono [OF b]) (simp_all add: at sent_refs_def, simp add: h'_def drop_commands_def)
  show "dropWhile (same_numbers c) cs = drop k (p_outgoingCommands (peer_at h' i))"
    using c' d at by simp
qed

lemma put_outgoing_ok:
  assumes h: "host_ok h" and i: "i < length (h_peers h)" and b: "buffers_held i h"
    and c: "oc_packet c \<noteq> None \<Longrightarrow> oc_packet c \<in># sent_refs (peer_at h i)"
  shows "host_ok (put_outgoing i c h)" "length (h_peers (put_outgoing i c h)) = length (h_peers h)"
    "buffers_held i (put_outgoing i c h)"
    "p_outgoingCommands (peer_at (put_outgoing i c h) i) = p_outgoingCommands (peer_at h i)"
proof -
  let ?h1 = "put_command (oc_command c) (size_of c) h"
  have h1: "host_ok ?h1" by (rule put_command_ok [OF h])
  have a: "alive ?h1 (oc_packet c)"
    using sent_refs_alive [OF h i] c by (cases "oc_packet c") (auto simp: alive_def put_command_def)
  then have f: "upd_mem (faulty (\<not> alive ?h1 (oc_packet c))) ?h1 = ?h1" by (simp add: upd_mem_def faulty_def)
  have d: "host_ok (put_data c ?h1)" "h_peers (put_data c ?h1) = h_peers h" "peer_at (put_data c ?h1) i = peer_at h i"
    using h1 f host_ok_host [OF h1] by (auto simp: put_data_def limits_def peer_at_def split: option.split)
  show "host_ok (put_outgoing i c h)"
    unfolding put_outgoing_def by (rule host_ok_fields [OF d(1)]) (simp_all add: peer_refs_def peer_ok_defs)
  show "length (h_peers (put_outgoing i c h)) = length (h_peers h)" by (simp add: put_outgoing_def d(2))
  show "p_outgoingCommands (peer_at (put_outgoing i c h) i) = p_outgoingCommands (peer_at h i)"
    using i by (simp add: put_outgoing_def d)
  have "sent_refs (peer_at (put_outgoing i c h) i) = sent_refs (peer_at h i)"
    using i by (simp add: put_outgoing_def d sent_refs_def)
  then show "buffers_held i (put_outgoing i c h)"
    using b c by (auto simp: buffers_held_def put_outgoing_def put_data_def put_command_def split: option.splits)
qed

section \<open>The loop over the commands\<close>

definition packing :: "nat \<Rightarrow> nat \<Rightarrow> outgoing_command list \<Rightarrow> host \<Rightarrow> bool" where
  "packing i k cs h \<longleftrightarrow> host_ok h \<and> i < length (h_peers h) \<and> buffers_held i h
     \<and> cs = drop k (p_outgoingCommands (peer_at h i))"

lemma packing_skip: "packing i k (c # cs) h \<Longrightarrow> packing i (Suc k) cs h"
  by (auto simp: packing_def dest: drop_Cons_nth)

lemma packing_reliable:
  assumes "packing i k (c # cs) h"
  shows "packing i k cs (put_outgoing i c (send_reliable_command i k c h))"
    "length (h_peers (put_outgoing i c (send_reliable_command i k c h))) = length (h_peers h)"
proof -
  have h: "host_ok h" "i < length (h_peers h)" "buffers_held i h"
    and c: "c # cs = drop k (p_outgoingCommands (peer_at h i))" using assms by (simp_all add: packing_def)
  note c = drop_Cons_nth [OF c]
  note s = send_reliable_ok [OF h(1,2) _ _ h(3), of k c]
  let ?h = "send_reliable_command i k c h"
  have h': "host_ok ?h" "i < length (h_peers ?h)" "buffers_held i ?h" using s c h by simp_all
  note o = put_outgoing_ok [OF h', of c]
  show "length (h_peers (put_outgoing i c ?h)) = length (h_peers h)" using o(2) s c by simp
  show "packing i k cs (put_outgoing i c ?h)"
    using o s c h drop_remove_nth [of k "p_outgoingCommands (peer_at h i)"] by (simp add: packing_def)
qed

lemma packing_unreliable:
  assumes "packing i k (c # cs) h"
  shows "packing i k cs (put_outgoing i c (upd_peer i (move_unreliable k c) h))"
    "length (h_peers (put_outgoing i c (upd_peer i (move_unreliable k c) h))) = length (h_peers h)"
proof -
  have h: "host_ok h" "i < length (h_peers h)" "buffers_held i h"
    and c: "c # cs = drop k (p_outgoingCommands (peer_at h i))" using assms by (simp_all add: packing_def)
  note c = drop_Cons_nth [OF c]
  note s = move_unreliable_ok [OF h(1,2) _ _ h(3), of k c]
  let ?h = "upd_peer i (move_unreliable k c) h"
  have h': "host_ok ?h" "i < length (h_peers ?h)" "buffers_held i ?h" using s c h by simp_all
  note o = put_outgoing_ok [OF h', of c]
  show "length (h_peers (put_outgoing i c ?h)) = length (h_peers h)" using o(2) s c by simp
  show "packing i k cs (put_outgoing i c ?h)"
    unfolding packing_def
    using o s(4,5) c h drop_remove_nth [of k "p_outgoingCommands (peer_at h i)"] by simp
qed

lemma packing_drop:
  assumes "packing i k (c # cs) h" "\<not> command_acknowledged c" "starts_packet c"
  shows "packing i k (dropWhile (same_numbers c) cs) (drop_commands i k (c # takeWhile (same_numbers c) cs) h)"
    "length (h_peers (drop_commands i k (c # takeWhile (same_numbers c) cs) h)) = length (h_peers h)"
  using assms drop_commands_ok [of h i c cs k] by (simp_all add: packing_def)

lemma packing_count: "packing i k cs h \<Longrightarrow> packing i k cs (upd_peer i count_throttle h)"
proof -
  assume p: "packing i k cs h"
  have "host_ok h \<Longrightarrow> host_ok (upd_peer i count_throttle h)"
    by (erule host_ok_fields) (simp_all add: count_throttle_def peer_refs_def peer_ok_defs)
  then show ?thesis using p by (simp add: packing_def buffers_held_upd count_throttle_def sent_refs_def)
qed

lemma packing_continue: "packing i k cs h \<Longrightarrow> packing i k cs (h\<lparr>h_continueSending := b\<rparr>)"
  by (simp add: packing_def host_ok_continue buffers_held_def peer_at_def)

text \<open>What holds of a host that has been packed for peer \<open>i\<close>.\<close>

definition packed :: "nat \<Rightarrow> host \<Rightarrow> bool" where
  "packed i h \<longleftrightarrow> host_ok h \<and> i < length (h_peers h) \<and> buffers_held i h"

lemma packing_packed: "packing i k cs h \<Longrightarrow> packed i h"
  by (simp add: packing_def packed_def)

lemma outgoing_loop_ok:
  "packing i k cs h \<Longrightarrow> packed i (snd (outgoing_loop i k e w g cs h))
    \<and> length (h_peers (snd (outgoing_loop i k e w g cs h))) = length (h_peers h)"
proof (induction cs arbitrary: k e w g h rule: length_induct)
  case (1 cs)
  define Q where "Q = (\<lambda>r :: bool \<times> host. packed i (snd r) \<and> length (h_peers (snd r)) = length (h_peers h))"
  have ifQ: "(b \<Longrightarrow> Q x) \<Longrightarrow> (\<not> b \<Longrightarrow> Q y) \<Longrightarrow> Q (if b then x else y)" for b x y by simp
  show ?case
  proof (cases cs)
    case Nil
    then show ?thesis using "1.prems" packing_packed by simp
  next
    case (Cons c cs')
    have IH: "Q (outgoing_loop i k' e' w' g' rest h')"
      if "length rest \<le> length cs'" "packing i k' rest h'" "length (h_peers h') = length (h_peers h)" for k' e' w' g' rest h'
      using "1.IH" that Cons by (auto simp: Q_def less_Suc_eq_le)
    let ?h = "if starts_packet c then upd_peer i count_throttle h else h"
    have p: "packing i k (c # cs') h" using "1.prems" Cons by simp
    have h: "packing i k (c # cs') ?h" "length (h_peers ?h) = length (h_peers h)"
      using p packing_count by simp_all
    note skip = packing_skip [OF p] and rel = packing_reliable [OF p]
      and unrel = packing_unreliable [OF h(1)] and run = packing_drop [OF h(1)]
    have stop: "Q (b, h\<lparr>h_continueSending := True\<rparr>)" for b
      using packing_packed [OF packing_continue [OF p]] by (simp add: Q_def)
    have "Q (outgoing_loop i k e w g (c # cs') h)"
      unfolding outgoing_loop.simps(2) Let_def
      by (intro ifQ IH stop) (use skip rel unrel run h(2) length_dropWhile_le in \<open>simp_all only: simp_thms order_refl\<close>)
    then show ?thesis using Cons by (simp add: Q_def)
  qed
qed

section \<open>Frames\<close>

lemma host_malloc_buffers [simp]: "h_buffers (snd (host_malloc h)) = h_buffers h"
  by (simp add: host_malloc_def split: prod.split)

lemma queue_outgoing_buffers [simp]:
  "h_buffers (snd (enet_peer_queue_outgoing_command i c packet off n h)) = h_buffers h"
  using host_malloc_buffers [of h] by (simp add: enet_peer_queue_outgoing_command_def case_prod_beta Let_def)

lemma setup_sent [simp]: "sent_refs (enet_peer_setup_outgoing_command c p) = sent_refs p"
  by (simp add: enet_peer_setup_outgoing_command_def Let_def sent_refs_def upd_channel_def)

lemma queue_outgoing_sent:
  "i < length (h_peers h) \<Longrightarrow> sent_refs (peer_at (snd (enet_peer_queue_outgoing_command i c packet off n h)) i)
     = sent_refs (peer_at h i)"
  using host_malloc_frame [of h] by (simp add: enet_peer_queue_outgoing_command_def case_prod_beta Let_def)

lemma reset_queues_buffers [simp]: "h_buffers (enet_peer_reset_queues i h) = h_buffers h"
  by (simp add: enet_peer_reset_queues_def Let_def)

lemma on_disconnect_buffers [simp]: "h_buffers (enet_peer_on_disconnect i h) = h_buffers h"
  by (simp add: enet_peer_on_disconnect_def Let_def)

lemma reset_buffers [simp]: "h_buffers (enet_peer_reset i h) = h_buffers h"
  by (simp add: enet_peer_reset_def Let_def)

lemma disconnect_buffers [simp]: "h_buffers (enet_peer_disconnect (\<lambda>h. h) i d h) = h_buffers h"
  by (simp add: enet_peer_disconnect_def Let_def)

section \<open>Datagrams\<close>

lemma packedI: "host_ok h \<Longrightarrow> i < length (h_peers h) \<Longrightarrow> buffers_held i h \<Longrightarrow> packed i h"
  by (simp add: packed_def)

lemma check_outgoing_ok:
  assumes "packed i h"
  shows "packed i (snd (enet_protocol_check_outgoing_commands i h))"
    "length (h_peers (snd (enet_protocol_check_outgoing_commands i h))) = length (h_peers h)"
proof -
  obtain b h1 where r: "outgoing_loop i 0 False False True (p_outgoingCommands (peer_at h i)) h = (b, h1)" by fastforce
  have "packing i 0 (p_outgoingCommands (peer_at h i)) h" using assms by (simp add: packing_def packed_def)
  then have h1: "packed i h1" "length (h_peers h1) = length (h_peers h)"
    using outgoing_loop_ok [of i 0 "p_outgoingCommands (peer_at h i)" h False False True] r by simp_all
  let ?d = "enet_peer_disconnect (\<lambda>h. h) i (p_eventData (peer_at h1 i)) h1"
  have d: "packed i ?d" if "p_sentReliableCommands (peer_at h1 i) = []" "p_sentUnreliableCommands (peer_at h1 i) = []"
  proof (rule packedI)
    have "sent_refs (peer_at h1 i) = {#}" using that by (simp add: sent_refs_def)
    then show "buffers_held i ?d" using h1(1) by (simp add: packed_def buffers_held_def)
  qed (use h1 in \<open>simp_all add: packed_def no_flush.disconnect_ok\<close>)
  show "packed i (snd (enet_protocol_check_outgoing_commands i h))"
    "length (h_peers (snd (enet_protocol_check_outgoing_commands i h))) = length (h_peers h)"
    using d h1 by (simp_all add: enet_protocol_check_outgoing_commands_def r Let_def)
qed

lemma ping_ok: "packed i h \<Longrightarrow> packed i (enet_peer_ping i h) \<and> length (h_peers (enet_peer_ping i h)) = length (h_peers h)"
  by (auto simp: enet_peer_ping_def packed_def queue_outgoing_sent
      intro!: host_ok_queue_outgoing buffers_held_mono [of i h])

lemma pack_commands_ok:
  assumes "packed i h"
  shows "packed i (pack_commands i h)" "length (h_peers (pack_commands i h)) = length (h_peers h)"
proof -
  obtain b h1 where r: "(if p_outgoingCommands (peer_at h i) = [] then (True, h)
      else enet_protocol_check_outgoing_commands i h) = (b, h1)" by fastforce
  have h1: "packed i h1" "length (h_peers h1) = length (h_peers h)"
    using r check_outgoing_ok [OF assms] assms by (auto split: if_splits)
  note h2 = ping_ok [OF h1(1)]
  note h3 = check_outgoing_ok [OF h2 [THEN conjunct1]]
  show "packed i (pack_commands i h)" "length (h_peers (pack_commands i h)) = length (h_peers h)"
    using h1 h2 h3 by (simp_all add: pack_commands_def r Let_def)
qed

lemma read_buffers_ok:
  assumes "packed i h"
  shows "host_ok (snd (read_buffers h))" "h_peers (snd (read_buffers h)) = h_peers h"
proof -
  have "alive h (buffer_packet b)" if "b \<in> set (tl (h_buffers h))" for b
    using assms that sent_refs_alive [of h i] list.set_sel(2) [of "h_buffers h" b]
    by (cases "buffer_packet b"; cases "h_buffers h") (auto simp: packed_def buffers_held_def)
  then have f: "\<not> (\<exists>b \<in> set (tl (h_buffers h)). \<not> alive h (buffer_packet b))" by blast
  have e: "snd (read_buffers h) = h\<lparr>h_overread := x\<rparr>" if "x = (h_overread h \<or> (\<exists>b \<in> set (tl (h_buffers h)). reads_past h b))" for x
    unfolding read_buffers_def Let_def snd_conv using f that by (simp add: upd_mem_def faulty_def)
  show "host_ok (snd (read_buffers h))"
    unfolding e [OF refl] by (rule host_ok_host [of h]) (use assms in \<open>simp_all add: packed_def limits_def\<close>)
  show "h_peers (snd (read_buffers h)) = h_peers h" unfolding e [OF refl] by simp
qed

lemma compress_ok: "host_ok h \<Longrightarrow> host_ok (snd (compress_datagram body h))"
  "h_peers (snd (compress_datagram body h)) = h_peers h"
  by (auto simp: compress_datagram_def Let_def limits_def split: option.split intro: host_ok_host)

lemma socket_send_ok: "host_ok h \<Longrightarrow> host_ok (snd (enet_socket_send a bs h))"
  "h_peers (snd (enet_socket_send a bs h)) = h_peers h"
  by (auto simp: enet_socket_send_def Let_def limits_def split: list.split intro: host_ok_host)

lemma send_datagram_ok:
  assumes "packed i h"
  shows "host_ok (snd (send_datagram i h))" "length (h_peers (snd (send_datagram i h))) = length (h_peers h)"
proof -
  let ?h1 = "upd_peer i (update_loss (h_serviceTime h)) h"
  have "host_ok ?h1"
    by (rule host_ok_fields) (use assms in \<open>simp_all add: packed_def update_loss_def Let_def peer_refs_def peer_ok_defs\<close>)
  then have h1: "packed i ?h1"
    using assms by (intro packedI) (simp_all add: packed_def buffers_held_upd update_loss_def Let_def sent_refs_def)
  obtain body h2 where r2: "read_buffers ?h1 = (body, h2)" by fastforce
  have h2: "host_ok h2" "length (h_peers h2) = length (h_peers h)" using read_buffers_ok [OF h1] r2 by simp_all
  obtain z h3 where r3: "compress_datagram body h2 = (z, h3)" by fastforce
  have h3: "host_ok h3" "length (h_peers h3) = length (h_peers h)" using compress_ok [where h = h2 and body = body] h2 r3 by simp_all
  let ?h4 = "upd_peer i (\<lambda>p. p\<lparr>p_lastSendTime := h_serviceTime h3\<rparr>) h3"
  have h4: "host_ok ?h4" by (rule host_ok_fields [OF h3(1)]) (simp_all add: peer_refs_def peer_ok_defs)
  define bytes where "bytes = finish_header i body h3 # (case z of None \<Rightarrow> body | Some out \<Rightarrow> [out])"
  obtain s h5 where r5: "enet_socket_send (p_address (peer_at ?h4 i)) bytes ?h4 = (s, h5)" by fastforce
  have h5: "host_ok h5" "i < length (h_peers h5)" "length (h_peers h5) = length (h_peers h)"
    using socket_send_ok [where h = ?h4] h4 h3 r5 assms by (simp_all add: packed_def) (metis snd_conv peers_upd_peer length_upd_nth)+
  let ?h6 = "enet_protocol_remove_sent_unreliable_commands i h5"
  have h6: "host_ok ?h6" "length (h_peers ?h6) = length (h_peers h)" using remove_sent_unreliable_ok [OF h5(1,2)] h5 by simp_all
  have "host_ok (?h6\<lparr>h_totalSentData := a, h_totalSentPackets := b\<rparr>)" for a b
    by (rule host_ok_host [OF h6(1)]) (simp_all add: limits_def)
  moreover have "send_datagram i h = (if s < 0 then (-1, ?h6) else (0, ?h6\<lparr>h_totalSentData := h_totalSentData ?h6 + of_int s,
      h_totalSentPackets := h_totalSentPackets ?h6 + 1\<rparr>))"
    using r5 by (simp add: send_datagram_def Let_def r2 r3 bytes_def)
  ultimately show "host_ok (snd (send_datagram i h))" "length (h_peers (snd (send_datagram i h))) = length (h_peers h)"
    using h6 by simp_all
qed

section \<open>Rounds\<close>

lemma no_buffers_held: "\<forall>b \<in> set (h_buffers h). buffer_packet b = None \<Longrightarrow> buffers_held i h"
  by (simp add: buffers_held_def)

lemma acknowledgement_loop_buffers:
  "\<forall>b \<in> set (h_buffers h). buffer_packet b = None \<Longrightarrow>
    \<forall>b \<in> set (h_buffers (acknowledgement_loop i as h)). buffer_packet b = None"
proof (induction as arbitrary: h)
  case (Cons a as)
  define Q where "Q = (\<lambda>h :: host. \<forall>b \<in> set (h_buffers h). buffer_packet b = None)"
  have "Q h" "Q g \<Longrightarrow> Q (acknowledgement_loop i as g)" for g using Cons by (simp_all add: Q_def)
  moreover have "Q g \<Longrightarrow> Q (put_command c n g)" "Q (enet_protocol_dispatch_state i Zombie g) = Q g"
    "Q (upd_peer i f g) = Q g" "Q (g\<lparr>h_continueSending := b\<rparr>) = Q g" for c n f b and g :: host
    by (simp_all add: Q_def put_command_def)
  ultimately have "Q (acknowledgement_loop i (a # as) h)" by (simp add: Let_def)
  then show ?case by (simp add: Q_def)
qed simp

lemma notify_disconnect_buffers: "h_buffers (snd (enet_protocol_notify_disconnect i event h)) = h_buffers h"
  by (cases event) (simp_all add: enet_protocol_notify_disconnect_def Let_def)

lemma timeout_loop_buffers: "h_buffers (snd (snd (timeout_loop i event k j cs h))) = h_buffers h"
proof (induction cs arbitrary: k j h)
  case (Cons c cs)
  have "h_buffers (set_next_timeout i g) = h_buffers g" for g by (simp add: set_next_timeout_def split: list.split)
  then show ?case using notify_disconnect_buffers [of i event] by (simp add: Cons.IH Let_def case_prod_beta)
qed simp

lemma send_to_peer_keeps:
  assumes i: "i < length (h_peers h)"
  shows "keeps h (snd (snd (send_to_peer event chk i h)))"
proof -
  have "host_ok (snd (snd (send_to_peer event chk i h)))
      \<and> length (h_peers (snd (snd (send_to_peer event chk i h)))) = length (h_peers h)" if h: "host_ok h"
  proof -
    let ?h0 = "begin_datagram h"
    have h0: "host_ok ?h0" "h_peers ?h0 = h_peers h" "\<forall>b \<in> set (h_buffers ?h0). buffer_packet b = None"
      using host_ok_host [OF h, of ?h0] by (simp_all add: begin_datagram_def limits_def)
    let ?h1 = "enet_protocol_send_acknowledgements i ?h0"
    have h1: "host_ok ?h1" "i < length (h_peers ?h1)" "length (h_peers ?h1) = length (h_peers h)"
        "\<forall>b \<in> set (h_buffers ?h1). buffer_packet b = None"
      using acknowledgement_loop_ok [OF h0(1), of i] acknowledgement_loop_buffers [OF h0(3)] i h0(2)
      by (simp_all add: enet_protocol_send_acknowledgements_def)
    obtain r ev h2 where t: "(if timeouts_due chk i ?h1 then enet_protocol_check_timeouts i event ?h1 else (0, event, ?h1))
        = (r, ev, h2)" by (metis prod_cases3)
    have h2: "host_ok h2" "length (h_peers h2) = length (h_peers h)" "h_buffers h2 = h_buffers ?h1"
      using timeout_loop_ok [OF h1(1,2), of "p_sentReliableCommands (peer_at ?h1 i)" 0 event 0] t h1
        timeout_loop_buffers [of i event 0 0 "p_sentReliableCommands (peer_at ?h1 i)" ?h1]
      by (auto simp: enet_protocol_check_timeouts_def split: if_splits)
    have "packed i h2" using h2 h1(4) i by (intro packedI no_buffers_held) simp_all
    note h3 = pack_commands_ok [OF this]
    let ?h3 = "pack_commands i h2"
    note h4 = send_datagram_ok [OF h3(1)]
    have "host_ok ?h3" using h3(1) by (simp add: packed_def)
    then show ?thesis
      using h h2 h3(2) h4 by (simp add: send_to_peer_def Let_def t case_prod_beta)
  qed
  then show ?thesis by (simp add: keeps_def)
qed

lemma send_round_keeps:
  "\<forall>i \<in> set is. i < length (h_peers h) \<Longrightarrow> keeps h (snd (snd (send_round chk is event h)))"
proof (induction "is" arbitrary: event h)
  case (Cons i "is")
  obtain r ev h1 where r: "send_to_peer event chk i h = (r, ev, h1)" by (metis prod_cases3)
  have k: "keeps h h1" using send_to_peer_keeps [of i h event chk] Cons.prems r by simp
  show ?case
  proof (cases "host_ok h")
    case True
    then have "\<forall>i \<in> set is. i < length (h_peers h1)" using Cons.prems keepsD(2) [OF k] by simp
    then show ?thesis using k keeps_trans [OF k Cons.IH] by (simp add: r)
  qed (simp add: keeps_def)
qed simp

end
