(* ===== verification/Enet_Host.thy ===== *)
theory Enet_Host
  imports Enet_Outgoing_Safe
begin

text \<open>
  \<open>enet/host.c\<close>: making and destroying a host, connecting, broadcasting, and the bandwidth
  throttle.

  Making a host needs the operating system: whether a socket can be had and bound, the address
  it got, the address of the host in memory and the random seed are a record \<open>system\<close>.
  The \<open>intercept\<close> callback that the code clears here is an argument of the operations that call it.
\<close>

section \<open>Creation and destruction\<close>

record system =
  sy_mem :: memory
  sy_net :: network
  sy_socket :: bool
  sy_bind :: bool
  sy_address :: "address option"
  sy_pointer :: u32
  sy_seed :: u32

definition limit_channels :: "nat \<Rightarrow> nat" where
  "limit_channels channelLimit =
    (if channelLimit = 0 \<or> channelLimit > ENET_PROTOCOL_MAXIMUM_CHANNEL_COUNT
     then ENET_PROTOCOL_MAXIMUM_CHANNEL_COUNT
     else if channelLimit < ENET_PROTOCOL_MINIMUM_CHANNEL_COUNT
     then ENET_PROTOCOL_MINIMUM_CHANNEL_COUNT else channelLimit)"

definition first_seed :: "system \<Rightarrow> u32" where
  "first_seed sy = (let seed = sy_pointer sy + sy_seed sy in push_bit 16 seed OR drop_bit 16 seed)"

definition bound_address :: "system \<Rightarrow> address option \<Rightarrow> address" where
  "bound_address sy address =
    (case address of
      None \<Rightarrow> \<lparr>ad_host = 0, ad_port = 0\<rparr>
    | Some a \<Rightarrow> (case sy_address sy of None \<Rightarrow> a | Some own \<Rightarrow> own))"

definition new_peer :: "nat \<Rightarrow> peer" where
  "new_peer k = zero_peer\<lparr>p_incomingPeerID := of_nat k, p_outgoingSessionID := 0xFF, p_incomingSessionID := 0xFF\<rparr>"

definition new_host :: "system \<Rightarrow> memory \<Rightarrow> address option \<Rightarrow> nat \<Rightarrow> nat \<Rightarrow> u32 \<Rightarrow> u32 \<Rightarrow> host" where
  "new_host sy m address peerCount channelLimit incomingBandwidth outgoingBandwidth = zero_host\<lparr>
     h_address := bound_address sy address,
     h_incomingBandwidth := incomingBandwidth,
     h_outgoingBandwidth := outgoingBandwidth,
     h_bandwidthThrottleEpoch := 0,
     h_mtu := ENET_HOST_DEFAULT_MTU,
     h_randomSeed := first_seed sy,
     h_recalculateBandwidthLimits := False,
     h_peers := map new_peer [0..<peerCount],
     h_channelLimit := limit_channels channelLimit,
     h_duplicatePeers := ENET_PROTOCOL_MAXIMUM_PEER_ID,
     h_maximumPacketSize := ENET_HOST_DEFAULT_MAXIMUM_PACKET_SIZE,
     h_maximumWaitingData := ENET_HOST_DEFAULT_MAXIMUM_WAITING_DATA,
     h_mem := m, h_net := sy_net sy\<rparr>"

definition enet_host_create ::
  "system \<Rightarrow> address option \<Rightarrow> nat \<Rightarrow> nat \<Rightarrow> u32 \<Rightarrow> u32 \<Rightarrow> host option \<times> memory" where
  "enet_host_create sy address peerCount channelLimit incomingBandwidth outgoingBandwidth =
    (if peerCount > ENET_PROTOCOL_MAXIMUM_PEER_ID then (None, sy_mem sy)
     else
       let (ok, m) = enet_malloc (sy_mem sy)
       in if \<not> ok then (None, m)
          else
            let (ok, m) = enet_malloc m
            in if \<not> ok then (None, m)
               else if \<not> sy_socket sy \<or> (address \<noteq> None \<and> \<not> sy_bind sy) then (None, m)
               else
                 let h = new_host sy m address peerCount channelLimit incomingBandwidth outgoingBandwidth;
                     h = fold enet_peer_reset [0..<peerCount] h
                 in (Some h, h_mem h))"

text \<open>
  What remains of a destroyed host is the memory; the boolean tells whether the destructor of
  the compressor was called.
\<close>

definition enet_host_destroy :: "host \<Rightarrow> memory \<times> bool" where
  "enet_host_destroy h =
    (let h = fold enet_peer_reset [0..<length (h_peers h)] h
     in (h_mem h, cp_context (h_compressor h) \<and> cp_destroy (h_compressor h)))"

section \<open>Connections\<close>

fun first_free :: "nat \<Rightarrow> peer list \<Rightarrow> nat option" where
  "first_free k [] = None"
| "first_free k (p # ps) = (if p_state p = Disconnected then Some k else first_free (Suc k) ps)"

definition connect_window :: "u32 \<Rightarrow> u32" where
  "connect_window outgoingBandwidth =
    clamp_window (if outgoingBandwidth = 0 then ENET_PROTOCOL_MAXIMUM_WINDOW_SIZE
      else (outgoingBandwidth div ENET_PEER_WINDOW_SIZE_SCALE) * ENET_PROTOCOL_MINIMUM_WINDOW_SIZE)"

definition start_peer :: "host \<Rightarrow> address \<Rightarrow> nat \<Rightarrow> peer \<Rightarrow> peer" where
  "start_peer h address channelCount p = p\<lparr>
     p_connectID := h_randomSeed h,
     p_address := address,
     p_state := Connecting,
     p_channels := replicate channelCount zero_channel,
     p_channelCount := channelCount,
     p_windowSize := connect_window (h_outgoingBandwidth h)\<rparr>"

definition connect_command :: "host \<Rightarrow> nat \<Rightarrow> u32 \<Rightarrow> peer \<Rightarrow> protocol" where
  "connect_command h channelCount data p =
    command_on ENET_PROTOCOL_COMMAND_FLAG_ACKNOWLEDGE 0xFF (Connect \<lparr>
      cn_outgoingPeerID = p_incomingPeerID p,
      cn_incomingSessionID = p_incomingSessionID p,
      cn_outgoingSessionID = p_outgoingSessionID p,
      cn_mtu = p_mtu p,
      cn_windowSize = p_windowSize p,
      cn_channelCount = of_nat channelCount,
      cn_incomingBandwidth = h_incomingBandwidth h,
      cn_outgoingBandwidth = h_outgoingBandwidth h,
      cn_packetThrottleInterval = p_packetThrottleInterval p,
      cn_packetThrottleAcceleration = p_packetThrottleAcceleration p,
      cn_packetThrottleDeceleration = p_packetThrottleDeceleration p,
      cn_connectID = p_connectID p\<rparr> data)"

definition connect_channels :: "nat \<Rightarrow> nat" where
  "connect_channels channelCount =
    (if channelCount < ENET_PROTOCOL_MINIMUM_CHANNEL_COUNT then ENET_PROTOCOL_MINIMUM_CHANNEL_COUNT
     else if channelCount > ENET_PROTOCOL_MAXIMUM_CHANNEL_COUNT then ENET_PROTOCOL_MAXIMUM_CHANNEL_COUNT
     else channelCount)"

definition enet_host_connect :: "address \<Rightarrow> nat \<Rightarrow> u32 \<Rightarrow> host \<Rightarrow> nat option \<times> host" where
  "enet_host_connect address channelCount data h =
    (let channelCount = connect_channels channelCount
     in case first_free 0 (h_peers h) of
          None \<Rightarrow> (None, h)
        | Some i \<Rightarrow>
            let (ok, h) = host_malloc h
            in if \<not> ok then (None, upd_peer i (\<lambda>p. p\<lparr>p_channels := []\<rparr>) h)
               else
                 let h = h\<lparr>h_randomSeed := h_randomSeed h + 1\<rparr>;
                     h = upd_peer i (start_peer h address channelCount) h;
                     command = connect_command h channelCount data (peer_at h i)
                 in (Some i, snd (enet_peer_queue_outgoing_command i command None 0 0 h)))"

text \<open>The caller's reference to a packet: it is freed if no peer took it.\<close>

definition drop_unused :: "nat \<Rightarrow> memory \<Rightarrow> memory" where
  "drop_unused packet m =
    (if packets m packet = None then m\<lparr>fault := True\<rparr>
     else if packet_refs m packet = 0 then enet_packet_destroy (Some packet) m else m)"

definition broadcast_to :: "u8 \<Rightarrow> nat \<Rightarrow> nat \<Rightarrow> host \<Rightarrow> host" where
  "broadcast_to channelID packet i h =
    (if p_state (peer_at h i) \<noteq> Connected then h else snd (enet_peer_send i channelID packet h))"

definition enet_host_broadcast :: "u8 \<Rightarrow> nat \<Rightarrow> host \<Rightarrow> host" where
  "enet_host_broadcast channelID packet h =
    upd_mem (drop_unused packet) (fold (broadcast_to channelID packet) [0..<length (h_peers h)] h)"

section \<open>Settings\<close>

definition enet_host_compress :: "compressor option \<Rightarrow> host \<Rightarrow> host \<times> bool" where
  "enet_host_compress compressor h =
    (h\<lparr>h_compressor := (case compressor of Some c \<Rightarrow> c | None \<Rightarrow> (h_compressor h)\<lparr>cp_context := False\<rparr>)\<rparr>,
     cp_context (h_compressor h) \<and> cp_destroy (h_compressor h))"

definition enet_host_channel_limit :: "nat \<Rightarrow> host \<Rightarrow> host" where
  "enet_host_channel_limit channelLimit h = h\<lparr>h_channelLimit := limit_channels channelLimit\<rparr>"

definition enet_host_bandwidth_limit :: "u32 \<Rightarrow> u32 \<Rightarrow> host \<Rightarrow> host" where
  "enet_host_bandwidth_limit incomingBandwidth outgoingBandwidth h =
    h\<lparr>h_incomingBandwidth := incomingBandwidth, h_outgoingBandwidth := outgoingBandwidth,
      h_recalculateBandwidthLimits := True\<rparr>"

section \<open>The bandwidth throttle\<close>

text \<open>
  The variables of the loop over the peers that get more than they can take.
\<close>

record shares =
  sh_needsAdjustment :: bool
  sh_peersRemaining :: u32
  sh_dataTotal :: u32
  sh_bandwidth :: u32

definition throttle_of :: "u32 \<Rightarrow> u32 \<Rightarrow> u32" where
  "throttle_of dataTotal bandwidth =
    (if dataTotal \<le> bandwidth then ENET_PEER_PACKET_THROTTLE_SCALE
     else (bandwidth * ENET_PEER_PACKET_THROTTLE_SCALE) div dataTotal)"

definition peer_bandwidth :: "u32 \<Rightarrow> peer \<Rightarrow> u32" where
  "peer_bandwidth elapsedTime p = (p_incomingBandwidth p * elapsedTime) div 1000"

definition over_share :: "u32 \<Rightarrow> u32 \<Rightarrow> u32 \<Rightarrow> peer \<Rightarrow> bool" where
  "over_share timeCurrent elapsedTime throttle p \<longleftrightarrow>
     is_connected (p_state p) \<and> p_incomingBandwidth p \<noteq> 0
     \<and> p_outgoingBandwidthThrottleEpoch p \<noteq> timeCurrent
     \<and> \<not> (throttle * p_outgoingDataTotal p) div ENET_PEER_PACKET_THROTTLE_SCALE \<le> peer_bandwidth elapsedTime p"

definition limit_peer :: "u32 \<Rightarrow> u32 \<Rightarrow> peer \<Rightarrow> peer" where
  "limit_peer timeCurrent elapsedTime p =
    (let limit = (peer_bandwidth elapsedTime p * ENET_PEER_PACKET_THROTTLE_SCALE) div p_outgoingDataTotal p;
         limit = (if limit = 0 then 1 else limit)
     in p\<lparr>p_outgoingBandwidthThrottleEpoch := timeCurrent,
          p_incomingDataTotal := 0,
          p_outgoingDataTotal := 0,
          p_packetThrottle := (if p_packetThrottle p > limit then limit else p_packetThrottle p),
          p_packetThrottleLimit := limit\<rparr>)"

fun throttle_pass :: "u32 \<Rightarrow> u32 \<Rightarrow> u32 \<Rightarrow> peer list \<Rightarrow> shares \<Rightarrow> peer list \<times> shares" where
  "throttle_pass timeCurrent elapsedTime throttle [] s = ([], s)"
| "throttle_pass timeCurrent elapsedTime throttle (p # ps) s =
    (if over_share timeCurrent elapsedTime throttle p
     then
       let peerBandwidth = peer_bandwidth elapsedTime p;
           (ps, s) = throttle_pass timeCurrent elapsedTime throttle ps
             (s\<lparr>sh_needsAdjustment := True,
                sh_peersRemaining := sh_peersRemaining s - 1,
                sh_dataTotal := sh_dataTotal s - peerBandwidth,
                sh_bandwidth := sh_bandwidth s - peerBandwidth\<rparr>)
       in (limit_peer timeCurrent elapsedTime p # ps, s)
     else
       let (ps, s) = throttle_pass timeCurrent elapsedTime throttle ps s in (p # ps, s))"

text \<open>Peers that were not given their share yet.\<close>

definition unshared :: "u32 \<Rightarrow> peer list \<Rightarrow> nat" where
  "unshared timeCurrent ps =
    length (filter (\<lambda>p. is_connected (p_state p) \<and> p_outgoingBandwidthThrottleEpoch p \<noteq> timeCurrent) ps)"

lemma unshared_Cons [simp]: "unshared t (p # ps)
    = of_bool (is_connected (p_state p) \<and> p_outgoingBandwidthThrottleEpoch p \<noteq> t) + unshared t ps"
  by (simp add: unshared_def)

lemma limit_peer_fields [simp]:
  "p_state (limit_peer t e p) = p_state p" "p_outgoingBandwidthThrottleEpoch (limit_peer t e p) = t"
  by (simp_all add: limit_peer_def Let_def)

lemma throttle_pass_unshared:
  "throttle_pass t e throttle ps s = (ps', s') \<Longrightarrow>
    unshared t ps' + of_bool (sh_needsAdjustment s' \<and> \<not> sh_needsAdjustment s) \<le> unshared t ps"
proof (induction ps arbitrary: s ps' s')
  case (Cons p ps)
  show ?case
  proof (cases "over_share t e throttle p")
    case True
    then show ?thesis using Cons by (fastforce simp: Let_def over_share_def split: prod.splits)
  next
    case False
    then show ?thesis using Cons by (fastforce simp: Let_def split: prod.splits)
  qed
qed simp

function throttle_loop :: "u32 \<Rightarrow> u32 \<Rightarrow> peer list \<Rightarrow> shares \<Rightarrow> peer list \<times> shares" where
  "throttle_loop timeCurrent elapsedTime ps s =
    (if sh_peersRemaining s > 0 \<and> sh_needsAdjustment s
     then
       let throttle = throttle_of (sh_dataTotal s) (sh_bandwidth s);
           (ps, s) = throttle_pass timeCurrent elapsedTime throttle ps (s\<lparr>sh_needsAdjustment := False\<rparr>)
       in throttle_loop timeCurrent elapsedTime ps s
     else (ps, s))"
  by auto

termination
proof (relation "measure (\<lambda>(t, e, ps, s). unshared t ps + of_bool (sh_needsAdjustment s))", goal_cases)
  case (2 t e ps s throttle x ps' s')
  show ?case using 2(1) throttle_pass_unshared [OF sym [OF trans [OF 2(4,3)]]] by simp
qed simp

declare throttle_loop.simps [simp del]

definition share_rest :: "u32 \<Rightarrow> u32 \<Rightarrow> peer \<Rightarrow> peer" where
  "share_rest timeCurrent throttle p =
    (if \<not> is_connected (p_state p) \<or> p_outgoingBandwidthThrottleEpoch p = timeCurrent then p
     else p\<lparr>p_incomingDataTotal := 0,
            p_outgoingDataTotal := 0,
            p_packetThrottle := (if p_packetThrottle p > throttle then throttle else p_packetThrottle p),
            p_packetThrottleLimit := throttle\<rparr>)"

definition throttle_peers :: "u32 \<Rightarrow> u32 \<Rightarrow> host \<Rightarrow> peer list" where
  "throttle_peers timeCurrent elapsedTime h =
    (let limited = h_outgoingBandwidth h \<noteq> 0;
         s = \<lparr>sh_needsAdjustment = h_bandwidthLimitedPeers h > 0,
              sh_peersRemaining = of_nat (h_connectedPeers h),
              sh_dataTotal = (if limited
                then sum_list (map p_outgoingDataTotal (filter (\<lambda>p. is_connected (p_state p)) (h_peers h))) else - 1),
              sh_bandwidth = (if limited then (h_outgoingBandwidth h * elapsedTime) div 1000 else - 1)\<rparr>;
         (ps, s) = throttle_loop timeCurrent elapsedTime (h_peers h) s
     in if sh_peersRemaining s > 0
        then map (share_rest timeCurrent (throttle_of (sh_dataTotal s) (sh_bandwidth s))) ps else ps)"

text \<open>
  The incoming side: peers that send less than an equal share keep what they send, and what is
  left is divided among the others.
\<close>

definition undemanding :: "u32 \<Rightarrow> u32 \<Rightarrow> peer \<Rightarrow> bool" where
  "undemanding timeCurrent bandwidthLimit p \<longleftrightarrow>
     is_connected (p_state p) \<and> p_incomingBandwidthThrottleEpoch p \<noteq> timeCurrent
     \<and> \<not> (p_outgoingBandwidth p > 0 \<and> p_outgoingBandwidth p \<ge> bandwidthLimit)"

fun recalculate_pass ::
  "u32 \<Rightarrow> u32 \<Rightarrow> peer list \<Rightarrow> bool \<times> u32 \<times> u32 \<Rightarrow> peer list \<times> bool \<times> u32 \<times> u32" where
  "recalculate_pass timeCurrent bandwidthLimit [] s = ([], s)"
| "recalculate_pass timeCurrent bandwidthLimit (p # ps) (needsAdjustment, peersRemaining, bandwidth) =
    (if undemanding timeCurrent bandwidthLimit p
     then
       let (ps, s) = recalculate_pass timeCurrent bandwidthLimit ps
             (True, peersRemaining - 1, bandwidth - p_outgoingBandwidth p)
       in (p\<lparr>p_incomingBandwidthThrottleEpoch := timeCurrent\<rparr> # ps, s)
     else
       let (ps, s) = recalculate_pass timeCurrent bandwidthLimit ps (needsAdjustment, peersRemaining, bandwidth)
       in (p # ps, s))"

definition unserved :: "u32 \<Rightarrow> peer list \<Rightarrow> nat" where
  "unserved timeCurrent ps =
    length (filter (\<lambda>p. is_connected (p_state p) \<and> p_incomingBandwidthThrottleEpoch p \<noteq> timeCurrent) ps)"

lemma unserved_Cons [simp]: "unserved t (p # ps)
    = of_bool (is_connected (p_state p) \<and> p_incomingBandwidthThrottleEpoch p \<noteq> t) + unserved t ps"
  by (simp add: unserved_def)

lemma recalculate_pass_unserved:
  "recalculate_pass t limit ps (n, r, b) = (ps', n', r', b') \<Longrightarrow>
    unserved t ps' + of_bool (n' \<and> \<not> n) \<le> unserved t ps"
proof (induction ps arbitrary: n r b ps' n' r' b')
  case (Cons p ps)
  show ?case
  proof (cases "undemanding t limit p")
    case True
    then show ?thesis using Cons by (fastforce simp: Let_def undemanding_def split: prod.splits)
  next
    case False
    then show ?thesis using Cons by (fastforce simp: Let_def split: prod.splits)
  qed
qed simp

function recalculate_loop ::
  "u32 \<Rightarrow> peer list \<Rightarrow> bool \<Rightarrow> u32 \<Rightarrow> u32 \<Rightarrow> u32 \<Rightarrow> peer list \<times> u32" where
  "recalculate_loop timeCurrent ps needsAdjustment peersRemaining bandwidth bandwidthLimit =
    (if peersRemaining > 0 \<and> needsAdjustment
     then
       let bandwidthLimit = bandwidth div peersRemaining;
           (ps, needsAdjustment, peersRemaining, bandwidth) =
             recalculate_pass timeCurrent bandwidthLimit ps (False, peersRemaining, bandwidth)
       in recalculate_loop timeCurrent ps needsAdjustment peersRemaining bandwidth bandwidthLimit
     else (ps, bandwidthLimit))"
  by auto

termination
proof (relation "measure (\<lambda>(t, ps, n, r, b, l). unserved t ps + of_bool n)", goal_cases)
  case (2 t ps n r b l l' x ps' y n' z r' b')
  have "recalculate_pass t l' ps (False, r, b) = (ps', n', r', b')" using 2(3-6) by simp
  then show ?case using 2(1) recalculate_pass_unserved [of t l' ps False r b ps' n' r' b'] by simp
qed simp

declare recalculate_loop.simps [simp del]

definition announce_bandwidth :: "u32 \<Rightarrow> u32 \<Rightarrow> nat \<Rightarrow> host \<Rightarrow> host" where
  "announce_bandwidth timeCurrent bandwidthLimit i h =
    (let p = peer_at h i
     in if \<not> is_connected (p_state p) then h
        else snd (enet_peer_queue_outgoing_command i
          (command_on ENET_PROTOCOL_COMMAND_FLAG_ACKNOWLEDGE 0xFF
            (Bandwidth_Limit
              (if p_incomingBandwidthThrottleEpoch p = timeCurrent then p_outgoingBandwidth p else bandwidthLimit)
              (h_outgoingBandwidth h))) None 0 0 h))"

definition recalculate_limits :: "u32 \<Rightarrow> host \<Rightarrow> host" where
  "recalculate_limits timeCurrent h =
    (let (ps, bandwidthLimit) = (if h_incomingBandwidth h = 0 then (h_peers h, 0)
           else recalculate_loop timeCurrent (h_peers h) True (of_nat (h_connectedPeers h)) (h_incomingBandwidth h) 0);
         h = h\<lparr>h_recalculateBandwidthLimits := False, h_peers := ps\<rparr>
     in fold (announce_bandwidth timeCurrent bandwidthLimit) [0..<length (h_peers h)] h)"

definition enet_host_bandwidth_throttle :: "host \<Rightarrow> host" where
  "enet_host_bandwidth_throttle h =
    (let (timeCurrent, h) = host_time h;
         elapsedTime = timeCurrent - h_bandwidthThrottleEpoch h
     in if elapsedTime < ENET_HOST_BANDWIDTH_THROTTLE_INTERVAL then h
        else
          let h = h\<lparr>h_bandwidthThrottleEpoch := timeCurrent\<rparr>
          in if (of_nat (h_connectedPeers h) :: u32) = 0 then h
             else
               let h = h\<lparr>h_peers := throttle_peers timeCurrent elapsedTime h\<rparr>
               in if h_recalculateBandwidthLimits h then recalculate_limits timeCurrent h else h)"

end
