(* ===== verification/Enet_Host_Safe.thy ===== *)
theory Enet_Host_Safe
  imports Enet_Host
begin

text \<open>
  The operations of \<open>enet/host.c\<close> establish and keep the invariant of a host, and what the
  bandwidth throttle promises.
\<close>

section \<open>Creation and destruction\<close>

definition blank_peer :: "peer \<Rightarrow> bool" where
  "blank_peer p \<longleftrightarrow> p_state p = Disconnected \<and> p_acknowledgements p = [] \<and> p_sentReliableCommands p = []
     \<and> p_sentUnreliableCommands p = [] \<and> p_outgoingCommands p = [] \<and> p_dispatchedCommands p = []
     \<and> p_channels p = [] \<and> p_channelCount p = 0"

definition fresh_peer :: "host \<Rightarrow> peer \<Rightarrow> peer" where
  "fresh_peer h p = (reset_fields h p)\<lparr>p_acknowledgements := [], p_sentReliableCommands := [],
     p_sentUnreliableCommands := [], p_outgoingCommands := [], p_dispatchedCommands := [], p_channels := [],
     p_channelCount := 0\<rparr>"

lemma reset_blank:
  assumes "i < length (h_peers h)" "blank_peer (peer_at h i)"
  shows "enet_peer_reset i h = upd_peer i (fresh_peer h) h"
proof -
  let ?h = "upd_peer i (reset_fields h) h"
  have d: "enet_peer_on_disconnect i h = h" using assms(2) by (simp add: enet_peer_on_disconnect_def blank_peer_def Let_def)
  have f: "\<not> needs_dispatch (peer_at ?h i)" using assms(1) by (simp add: needs_dispatch_def reset_fields_def)
  have m: "?h\<lparr>h_mem := h_mem h\<rparr> = ?h" by (simp add: upd_peer_def)
  have q: "p_sentReliableCommands (peer_at ?h i) = []" "p_sentUnreliableCommands (peer_at ?h i) = []"
    "p_outgoingCommands (peer_at ?h i) = []" "p_dispatchedCommands (peer_at ?h i) = []" "p_channels (peer_at ?h i) = []"
    using assms by (simp_all add: blank_peer_def reset_fields_def)
  have "enet_peer_reset_queues i ?h = upd_peer i (\<lambda>p. p\<lparr>p_acknowledgements := [], p_sentReliableCommands := [],
     p_sentUnreliableCommands := [], p_outgoingCommands := [], p_dispatchedCommands := [], p_channels := [],
     p_channelCount := 0\<rparr>) (?h\<lparr>h_mem := h_mem h\<rparr>)"
    unfolding enet_peer_reset_queues_def Let_def if_not_P [OF f] q
    by (simp add: reset_channels_def enet_peer_reset_outgoing_commands_def enet_peer_reset_incoming_commands_def q)
  then show ?thesis
    unfolding enet_peer_reset_def d Let_def m upd_peer_twice fresh_peer_def [abs_def] .
qed

lemma fold_reset_blank:
  assumes "n \<le> length (h_peers h)" "\<forall>i < length (h_peers h). blank_peer (peer_at h i)"
  shows "fold enet_peer_reset [0..<n] h
    = h\<lparr>h_peers := map (fresh_peer h) (take n (h_peers h)) @ drop n (h_peers h)\<rparr>"
  using assms(1)
proof (induction n)
  case (Suc n)
  let ?h = "h\<lparr>h_peers := map (fresh_peer h) (take n (h_peers h)) @ drop n (h_peers h)\<rparr>"
  have n: "n < length (h_peers h)" using Suc.prems by simp
  have at: "peer_at ?h n = peer_at h n" using n by (simp add: peer_at_def nth_append)
  have "enet_peer_reset n ?h = upd_peer n (fresh_peer ?h) ?h"
    using n assms(2) at by (intro reset_blank) simp_all
  moreover have "fresh_peer ?h = fresh_peer h" by (rule ext) (simp add: fresh_peer_def reset_fields_def)
  moreover have "upd_nth n (fresh_peer h) (h_peers ?h) = map (fresh_peer h) (take (Suc n) (h_peers h)) @ drop (Suc n) (h_peers h)"
    using n by (simp add: upd_nth_def take_Suc_conv_app_nth nth_append list_update_append flip: Cons_nth_drop_Suc)
  ultimately show ?case using Suc n by (simp add: upd_peer_def)
qed simp

lemma fresh_peer_ok:
  "mtu_ok (h_mtu h) \<Longrightarrow> peer_ok (fresh_peer h p)" "peer_refs (fresh_peer h p) = {#}"
  "p_state (fresh_peer h p) = Disconnected"
  by (simp_all add: fresh_peer_def reset_fields_def peer_ok_defs peer_refs_def traffic_ok_empty
      ENET_PEER_DEFAULT_ROUND_TRIP_TIME_def)

lemma enet_malloc_refs: "enet_malloc m = (ok, m') \<Longrightarrow> refs_ok m' M = refs_ok m M"
  by (metis refs_ok_malloc snd_conv)

lemma create_eq:
  assumes c: "enet_host_create sy address n limit ib ob = (Some h, m)"
  obtains m' where "refs_ok m' {#} = refs_ok (sy_mem sy) {#}"
    "h = (new_host sy m' address n limit ib ob)\<lparr>h_peers :=
       map (fresh_peer (new_host sy m' address n limit ib ob)) (map new_peer [0..<n])\<rparr>"
    "m = h_mem h" "n \<le> ENET_PROTOCOL_MAXIMUM_PEER_ID"
proof -
  obtain ok1 m1 where 1: "enet_malloc (sy_mem sy) = (ok1, m1)" by fastforce
  obtain ok2 m2 where 2: "enet_malloc m1 = (ok2, m2)" by fastforce
  let ?h = "new_host sy m2 address n limit ib ob"
  have "\<forall>i < length (h_peers ?h). blank_peer (peer_at ?h i)"
    by (simp add: new_host_def peer_at_def new_peer_def zero_peer_def blank_peer_def)
  from fold_reset_blank [OF _ this, of n] have f: "fold enet_peer_reset [0..<n] ?h
      = ?h\<lparr>h_peers := map (fresh_peer ?h) (map new_peer [0..<n])\<rparr>" by (simp add: new_host_def)
  show thesis
    by (rule that [of m2])
      (use c 1 2 enet_malloc_refs [OF 1] enet_malloc_refs [OF 2] in
        \<open>auto simp: enet_host_create_def Let_def f split: if_splits\<close>)
qed

lemma create_host_ok:
  assumes "enet_host_create sy address n limit ib ob = (Some h, m)" "refs_ok (sy_mem sy) {#}"
  shows "host_ok h"
proof -
  obtain m' where m': "refs_ok m' {#}"
    and h: "h = (new_host sy m' address n limit ib ob)\<lparr>h_peers :=
      map (fresh_peer (new_host sy m' address n limit ib ob)) (map new_peer [0..<n])\<rparr>"
    using create_eq [OF assms(1)] assms(2) by metis
  have mtu: "mtu_ok ENET_HOST_DEFAULT_MTU" by (simp add: mtu_ok_def ENET_HOST_DEFAULT_MTU_def protocol_limits)
  have l: "limits_ok h"
    using mtu by (simp add: limits_ok_def limits_def h new_host_def zero_host_def ENET_HOST_DEFAULT_MAXIMUM_PACKET_SIZE_def)
  have "held h = {#}" by (simp add: held_def h fresh_peer_ok(2) sum_list_0 comp_def)
  then have s: "memory_safe h"
    using m' l mtu fresh_peer_ok(1) by (auto simp: memory_safe_def h new_host_def)
  have "accounted h"
    by (simp add: accounted_def acct_view_def h new_host_def zero_host_def comp_def fresh_peer_ok conn_def limited_def is_connected_def sum_list_0)
  moreover have "linked_ok h" by (simp add: linked_ok_def h new_host_def zero_host_def)
  ultimately show ?thesis using s by (intro host_okI)
qed

lemma fold_keeps:
  "\<forall>i \<in> set is. i < length (h_peers h) \<Longrightarrow> (\<And>i h. i < length (h_peers h) \<Longrightarrow> keeps h (f i h)) \<Longrightarrow> keeps h (fold f is h)"
proof (induction "is" arbitrary: h)
  case (Cons i "is")
  have k: "keeps h (f i h)" using Cons.prems by simp
  show ?case
  proof (cases "host_ok h")
    case True
    then have "\<forall>j \<in> set is. j < length (h_peers (f i h))" using Cons.prems(1) keepsD(2) [OF k] by simp
    then show ?thesis using keeps_trans [OF k Cons.IH] Cons.prems(2) by simp
  qed (simp add: keeps_def)
qed simp

lemma reset_keeps: "i < length (h_peers h) \<Longrightarrow> keeps h (enet_peer_reset i h)"
  by (simp add: keeps_def host_ok_reset)

lemma reset_peer_refs: "i < length (h_peers h) \<Longrightarrow> peer_refs (peer_at (enet_peer_reset i h) i) = {#}"
proof -
  assume i: "i < length (h_peers h)"
  let ?d = "enet_peer_on_disconnect i h"
  obtain w where "peer_at (enet_peer_reset i h) i = (peer_at (upd_peer i (reset_fields ?d) ?d) i)\<lparr>p_flags := w,
      p_acknowledgements := [], p_sentReliableCommands := [], p_sentUnreliableCommands := [],
      p_outgoingCommands := [], p_dispatchedCommands := [], p_channels := [], p_channelCount := 0\<rparr>"
    using reset_queues_peer [of i "upd_peer i (reset_fields ?d) ?d"] i by (auto simp: enet_peer_reset_def Let_def)
  then show ?thesis by (simp add: peer_refs_def)
qed

lemma reset_other: "i < length (h_peers h) \<Longrightarrow> j \<noteq> i \<Longrightarrow> peer_at (enet_peer_reset i h) j = peer_at h j"
  by (rule reset_queues_eq [of i "upd_peer i (reset_fields (enet_peer_on_disconnect i h)) (enet_peer_on_disconnect i h)"])
    (simp add: enet_peer_reset_def Let_def, simp add: peer_at_def)

lemma fold_reset_empty:
  "n \<le> length (h_peers h) \<Longrightarrow> length (h_peers (fold enet_peer_reset [0..<n] h)) = length (h_peers h)
    \<and> (\<forall>i < n. peer_refs (peer_at (fold enet_peer_reset [0..<n] h) i) = {#})"
proof (induction n)
  case (Suc n)
  then show ?case using reset_peer_refs [of n] reset_other [of n] by (auto simp: less_Suc_eq)
qed simp

lemma destroy_refs:
  assumes "host_ok h"
  shows "refs_ok (fst (enet_host_destroy h)) {#}"
proof -
  let ?n = "length (h_peers h)" let ?h = "fold enet_peer_reset [0..<?n] h"
  have "keeps h ?h" by (rule fold_keeps) (simp_all add: reset_keeps)
  then have "memory_safe ?h" using assms by (simp add: keeps_def host_ok_memory)
  moreover have "held ?h = {#}"
  proof -
    have "\<forall>p \<in> set (h_peers ?h). peer_refs p = {#}"
      using fold_reset_empty [of ?n h] by (auto simp: in_set_conv_nth peer_at_def)
    then have "map peer_refs (h_peers ?h) = map (\<lambda>_. {#}) (h_peers ?h)" by simp
    then show ?thesis unfolding held_def by (simp only: sum_list_0)
  qed
  ultimately show ?thesis by (simp add: enet_host_destroy_def memory_safe_def Let_def)
qed

section \<open>Connections\<close>

lemma first_free_Some:
  "first_free k ps = Some i \<Longrightarrow> k \<le> i \<and> i < k + length ps \<and> p_state (ps ! (i - k)) = Disconnected"
  by (induction ps arbitrary: k) (fastforce simp: nth_Cons' split: if_splits)+

lemma no_commands: "channels_refs chs = {#} \<Longrightarrow> sum_list (map channel_cmds chs) = {#}"
  by (induction chs) (simp_all add: channels_refs_def channel_refs_cmds)

lemma connect_keeps: "keeps h (snd (enet_host_connect address n data h))"
  "fst (enet_host_connect address n data h) = Some i \<Longrightarrow> i < length (h_peers h) \<and> p_state (peer_at h i) = Disconnected"
proof -
  obtain ok h1 where m: "host_malloc h = (ok, h1)" by fastforce
  note f1 = host_mallocs_frame [OF m]
  have i: "first_free 0 (h_peers h) = Some i \<Longrightarrow> i < length (h_peers h) \<and> p_state (peer_at h i) = Disconnected" for i
    using first_free_Some [of 0 "h_peers h" i] by (simp add: peer_at_def)
  show "fst (enet_host_connect address n data h) = Some i \<Longrightarrow> i < length (h_peers h) \<and> p_state (peer_at h i) = Disconnected"
    using i by (auto simp: enet_host_connect_def Let_def m split: option.splits if_splits)
  show "keeps h (snd (enet_host_connect address n data h))"
  proof (cases "first_free 0 (h_peers h)")
    case None
    then show ?thesis by (simp add: enet_host_connect_def)
  next
    case (Some j)
    note j = i [OF Some]
    show ?thesis
    proof (rule keepsI)
      assume h: "host_ok h"
      have h1: "host_ok h1" "j < length (h_peers h1)" "peer_at h1 j = peer_at h j"
        using host_ok_malloc [OF m] h f1 j by simp_all
      have ok: "peer_ok (peer_at h j)" using memory_safe_at [OF host_ok_memory [OF h]] j by simp
      have none: "host_ok (upd_peer j (\<lambda>p. p\<lparr>p_channels := []\<rparr>) h1)"
        by (rule host_ok_fields [OF h1(1)]) (use ok j h1 in \<open>simp_all add: peer_refs_def peer_ok_defs idle_def\<close>)
      let ?h2 = "h1\<lparr>h_randomSeed := h_randomSeed h1 + 1\<rparr>" let ?n = "connect_channels n"
      have h2: "host_ok ?h2" by (rule host_ok_host [OF h1(1)]) (simp_all add: limits_def)
      have at: "peer_at ?h2 j = peer_at h j" using h1 by (simp add: peer_at_def)
      have n: "?n \<le> ENET_PROTOCOL_MAXIMUM_CHANNEL_COUNT" by (simp add: connect_channels_def protocol_limits)
      have e: "channels_refs (p_channels (peer_at h j)) = {#}" using ok j by (simp add: peer_ok_def idle_def)
      have "sum_list (map channel_cmds (p_channels (peer_at h j))) = {#}"
        by (rule no_commands [OF e])
      moreover have "sum_list (map channel_cmds (replicate k zero_channel)) = {#}" for k by (induction k) simp_all
      ultimately have h3: "host_ok (upd_peer j (start_peer ?h2 address ?n) ?h2)"
        using ok j e n at
        by (intro host_ok_peer [OF h2]) (simp_all add: start_peer_def h1 peer_refs_def peer_ok_defs idle_def is_connected_def)
      have "host_ok (snd (enet_peer_queue_outgoing_command j (connect_command a b c p) None 0 0
          (upd_peer j (start_peer ?h2 address ?n) ?h2)))" for a b c p
        by (rule host_ok_queue_outgoing [OF h3]) (use h1 in \<open>simp_all add: connect_command_def\<close>)
      then show "host_ok (snd (enet_host_connect address n data h))"
        using none Some by (cases ok) (simp_all add: enet_host_connect_def Let_def m)
    qed (use Some f1 in \<open>simp add: enet_host_connect_def Let_def m\<close>)
  qed
qed

lemma send_ok:
  fixes chan :: u8
  assumes h: "host_ok h" and i: "i < length (h_peers h)" and a: "alive h (Some packet)" and u: "sequenced_packet h packet"
  defines "h' \<equiv> snd (enet_peer_send i chan packet h)"
  shows "host_ok h'" "length (h_peers h') = length (h_peers h)"
proof -
  have s: "memory_safe h" by (rule host_ok_memory [OF h])
  have "frame_view h' = frame_view h"
  proof (cases "packet_length (h_mem h) packet > h_maximumPacketSize h")
    case True
    then show ?thesis by (simp add: h'_def enet_peer_send_def Let_def)
  next
    case False
    then have "packet_length (h_mem h) packet < 2 ^ 32 - 1"
      using s by (simp add: memory_safe_def limits_ok_def limits_def)
    moreover have "0 < fragment_length h (peer_at h i)"
      using memory_safe_at [OF s i] by (intro fragment_length_bounds) (auto simp: peer_ok_def mtu_ok_def)
    ultimately show ?thesis unfolding h'_def by (rule enet_peer_send_frame [rotated])
  qed
  then show "host_ok h'" "length (h_peers h') = length (h_peers h)"
    using host_ok_frame [OF h] enet_peer_send_safe [OF s i a u] frame_view_length unfolding h'_def by blast+
qed

lemma retain_packet:
  "packets m p = Some k \<Longrightarrow> packets (packet_retain n (Some p) m) p = Some (k\<lparr>pk_referenceCount := pk_referenceCount k + n\<rparr>)"
  by (simp add: packet_retain_def upd_packet_def)

text \<open>Sending leaves the packet there for the next peer.\<close>

lemma send_keeps_packet:
  fixes chan :: u8
  assumes h: "host_ok h" and i: "i < length (h_peers h)" and a: "alive h (Some packet)" and u: "sequenced_packet h packet"
  defines "h' \<equiv> snd (enet_peer_send i chan packet h)"
  shows "alive h' (Some packet)" "sequenced_packet h' packet"
proof -
  let ?n = "packet_length (h_mem h) packet" let ?fl = "fragment_length h (peer_at h i)"
  obtain k where k: "packets (h_mem h) packet = Some k" using a by (auto simp: alive_def)
  have s: "memory_safe h" by (rule host_ok_memory [OF h])
  have fl: "0 < ?fl" using memory_safe_at [OF s i] by (intro fragment_length_bounds) (auto simp: peer_ok_def mtu_ok_def)
  have "\<exists>k'. packets (h_mem h') packet = Some k' \<and> pk_flags k' = pk_flags k"
  proof (cases "p_state (peer_at h i) \<noteq> Connected \<or> unat chan \<ge> p_channelCount (peer_at h i) \<or> ?n > h_maximumPacketSize h")
    case True
    then show ?thesis using k by (auto simp: h'_def enet_peer_send_def Let_def)
  next
    case False
    then have "?n < 2 ^ 32 - 1" using s by (auto simp: memory_safe_def limits_ok_def limits_def)
    note cases = send_fragments_cases [OF fl this]
    obtain r h1 where f: "send_fragments i chan packet ?n ?fl h = (r, h1)" by fastforce
    have "\<exists>k'. packets (h_mem h1) packet = Some k' \<and> pk_flags k' = pk_flags k"
      using cases [OF f] by (rule, use k retain_packet in \<open>auto\<close>)
    moreover have "\<exists>k'. packets (h_mem (snd (enet_peer_queue_outgoing_command i c (Some packet) 0 n h))) packet = Some k'
        \<and> pk_flags k' = pk_flags k" for c n
      using k host_malloc_frame [of h] retain_packet
      by (auto simp: enet_peer_queue_outgoing_command_def Let_def case_prod_beta)
    ultimately show ?thesis
      using False by (auto simp: h'_def enet_peer_send_def Let_def f case_prod_beta)
  qed
  then show "alive h' (Some packet)" "sequenced_packet h' packet"
    using u k by (auto simp: alive_def sequenced_packet_def packet_flags_of_def)
qed

lemma broadcast_fold_ok:
  assumes "host_ok h" "\<forall>i \<in> set is. i < length (h_peers h)" "alive h (Some packet)" "sequenced_packet h packet"
  shows "host_ok (fold (broadcast_to chan packet) is h)
    \<and> length (h_peers (fold (broadcast_to chan packet) is h)) = length (h_peers h)
    \<and> alive (fold (broadcast_to chan packet) is h) (Some packet)"
  using assms
proof (induction "is" arbitrary: h)
  case (Cons i "is")
  let ?h = "broadcast_to chan packet i h"
  have "host_ok ?h" "length (h_peers ?h) = length (h_peers h)" "alive ?h (Some packet)" "sequenced_packet ?h packet"
    using Cons.prems send_ok [of h i packet chan] send_keeps_packet [of h i packet chan]
    by (simp_all add: broadcast_to_def)
  then show ?case using Cons.IH [of ?h] Cons.prems by simp
qed simp

lemma host_ok_drop_unused:
  assumes h: "host_ok h" and a: "alive h (Some packet)"
  shows "host_ok (upd_mem (drop_unused packet) h)"
proof -
  obtain k where k: "packets (h_mem h) packet = Some k" using a by (auto simp: alive_def)
  have r: "refs_ok (h_mem h) (held h)" using h by (simp add: host_ok_def memory_safe_def)
  have "refs_ok (drop_unused packet (h_mem h)) (held h)"
    using r k refs_ok_destroy [OF r k] refs_ok_count [OF r k] by (simp add: drop_unused_def packet_refs_def)
  then show ?thesis using h by (intro host_ok_upd_mem) (simp_all add: host_ok_def memory_safe_def held_def limits_ok_def)
qed

lemma broadcast_ok:
  assumes "host_ok h" "alive h (Some packet)" "sequenced_packet h packet"
  shows "host_ok (enet_host_broadcast chan packet h)"
    "length (h_peers (enet_host_broadcast chan packet h)) = length (h_peers h)"
  using broadcast_fold_ok [OF assms(1) _ assms(2,3), of "[0..<length (h_peers h)]" chan] host_ok_drop_unused
  by (simp_all add: enet_host_broadcast_def)

section \<open>Settings and the throttle\<close>

lemma host_ok_core_map:
  assumes h: "host_ok h" and c: "map core_view ps = map core_view (h_peers h)"
  shows "host_ok (h\<lparr>h_peers := ps\<rparr>)"
proof -
  have l: "length ps = length (h_peers h)" using c by (rule map_eq_imp_length_eq)
  have s: "peer_refs (ps ! i) = peer_refs (h_peers h ! i) \<and> peer_ok (ps ! i) = peer_ok (h_peers h ! i)
      \<and> p_state (ps ! i) = p_state (h_peers h ! i) \<and> p_incomingBandwidth (ps ! i) = p_incomingBandwidth (h_peers h ! i)"
    if "i < length ps" for i
    using c l that by (intro core_view_same) (metis nth_map)
  have "map peer_refs ps = map peer_refs (h_peers h)" using s l by (intro nth_equalityI) simp_all
  moreover have "\<forall>p \<in> set ps. peer_ok p" using h s l by (auto simp: host_ok_def memory_safe_def all_set_conv_all_nth)
  ultimately have "memory_safe (h\<lparr>h_peers := ps\<rparr>)"
    using h by (simp add: host_ok_def memory_safe_def held_def limits_ok_def limits_def)
  moreover have "map (\<lambda>p. (p_state p, p_incomingBandwidth p)) ps = map (\<lambda>p. (p_state p, p_incomingBandwidth p)) (h_peers h)"
    using s l by (intro nth_equalityI) simp_all
  then have "acct_view (h\<lparr>h_peers := ps\<rparr>) = acct_view h" by (simp add: acct_view_def)
  ultimately show ?thesis using host_ok_view [OF h] by simp
qed

lemma throttle_peer_core [simp]:
  "core_view (limit_peer t e p) = core_view p" "core_view (share_rest t w p) = core_view p"
  "core_view (p\<lparr>p_incomingBandwidthThrottleEpoch := t\<rparr>) = core_view p"
  by (simp_all add: limit_peer_def share_rest_def Let_def core_view_def body_view_def)

lemma throttle_pass_core: "map core_view (fst (throttle_pass t e w ps s)) = map core_view ps"
  by (induction t e w ps s rule: throttle_pass.induct) (simp_all add: Let_def case_prod_beta)

lemma throttle_loop_core: "map core_view (fst (throttle_loop t e ps s)) = map core_view ps"
proof (induction t e ps s rule: throttle_loop.induct)
  case (1 t e ps s)
  then show ?case
    using throttle_pass_core [of t e "throttle_of (sh_dataTotal s) (sh_bandwidth s)" ps "s\<lparr>sh_needsAdjustment := False\<rparr>"]
    by (subst throttle_loop.simps) (auto simp: Let_def split: prod.split)
qed

lemma throttle_peers_core: "map core_view (throttle_peers t e h) = map core_view (h_peers h)"
  using throttle_loop_core [of t e "h_peers h"]
  by (auto simp: throttle_peers_def Let_def comp_def case_prod_beta)

lemma recalculate_pass_core: "map core_view (fst (recalculate_pass t l ps s)) = map core_view ps"
  by (induction t l ps s rule: recalculate_pass.induct) (simp_all add: Let_def case_prod_beta)

lemma recalculate_loop_core: "map core_view (fst (recalculate_loop t ps n r b l)) = map core_view ps"
proof (induction t ps n r b l rule: recalculate_loop.induct)
  case (1 t ps n r b l)
  then show ?case
    using recalculate_pass_core [of t "b div r" ps "(False, r, b)"]
    by (subst recalculate_loop.simps) (auto simp: Let_def split: prod.split)
qed

lemma announce_keeps: "i < length (h_peers h) \<Longrightarrow> keeps h (announce_bandwidth t l i h)"
  by (simp add: keeps_def announce_bandwidth_def Let_def host_ok_queue_outgoing)

lemma recalculate_keeps: "keeps h (recalculate_limits t h)"
proof -
  obtain ps l where r: "(if h_incomingBandwidth h = 0 then (h_peers h, 0)
      else recalculate_loop t (h_peers h) True (of_nat (h_connectedPeers h)) (h_incomingBandwidth h) 0) = (ps, l)" by fastforce
  have c: "map core_view ps = map core_view (h_peers h)"
    using r recalculate_loop_core [of t "h_peers h"] by (metis fst_conv)
  let ?h = "h\<lparr>h_recalculateBandwidthLimits := False, h_peers := ps\<rparr>"
  have "keeps h ?h"
    using host_ok_core_map [OF host_ok_recalculate [where h = h and b = False], of ps] c map_eq_imp_length_eq [OF c] by (simp add: keeps_def)
  moreover have "keeps ?h (fold (announce_bandwidth t l) [0..<length (h_peers ?h)] ?h)"
    by (rule fold_keeps) (simp_all add: announce_keeps)
  ultimately show ?thesis using keeps_trans by (simp add: recalculate_limits_def r Let_def)
qed

lemma host_time_keeps: "keeps h (snd (host_time h))"
  by (auto simp: host_time_def keeps_def limits_def case_prod_beta intro: host_ok_host)

lemma bandwidth_throttle_keeps: "keeps h (enet_host_bandwidth_throttle h)"
proof -
  obtain t h1 where t: "host_time h = (t, h1)" by fastforce
  have h1: "keeps h h1" using host_time_keeps [of h] t by simp
  let ?h2 = "h1\<lparr>h_bandwidthThrottleEpoch := t\<rparr>"
  have h2: "keeps h ?h2" using h1 host_ok_host [of h1 ?h2] by (simp add: keeps_def limits_def)
  let ?h3 = "?h2\<lparr>h_peers := throttle_peers t (t - h_bandwidthThrottleEpoch h1) ?h2\<rparr>"
  have h3: "keeps h ?h3"
    using h2 host_ok_core_map [OF _ throttle_peers_core] map_eq_imp_length_eq [OF throttle_peers_core] by (simp add: keeps_def)
  show ?thesis
    using h1 h2 h3 keeps_trans [OF h3 recalculate_keeps] by (simp add: enet_host_bandwidth_throttle_def Let_def t)
qed

end
