(* ===== verification/Enet_Timing.thy ===== *)
theory Enet_Timing
  imports Enet_Outgoing_Safe
begin

text \<open>
  What \<open>enet/protocol.c\<close> makes of time: the round trip time that acknowledgements measure, and
  the point at which a peer that does not answer is given up.
\<close>

section \<open>Sent times\<close>

lemma bit_15_iff: "bit (w :: u32) 15 \<longleftrightarrow> 32768 \<le> unat w mod 65536"
proof -
  have m: "unat w mod 65536 = 32768 * (unat w div 32768 mod 2) + unat w mod 32768"
    using mod_mult2_eq [of "unat w" 32768 2] by simp
  have l: "unat w mod 32768 < 32768" by simp
  have "bit w 15 \<longleftrightarrow> bit (unat w) 15" by (simp add: bit_unsigned_iff)
  also have "\<dots> \<longleftrightarrow> unat w div 32768 mod 2 = 1" by (simp add: bit_iff_odd odd_iff_mod_2_eq_one)
  also have "\<dots> \<longleftrightarrow> 32768 \<le> unat w mod 65536"
  proof (cases "unat w div 32768 mod 2 = 1")
    case True
    then show ?thesis using m by linarith
  next
    case False
    then have "unat w div 32768 mod 2 = 0" by simp
    then show ?thesis using m l by linarith
  qed
  finally show ?thesis .
qed

lemma bit_8000: "bit (0x8000 :: u32) n \<longleftrightarrow> n = 15"
proof -
  have "(0x8000 :: u32) = 2 ^ 15" by simp
  then have "bit (0x8000 :: u32) n \<longleftrightarrow> bit (2 ^ 15 :: u32) n" by (simp only:)
  also have "\<dots> \<longleftrightarrow> n = 15" by (simp only: bit_exp_iff) auto
  finally show ?thesis .
qed

lemma and_8000: "(w :: u32) AND 0x8000 = (if bit w 15 then 0x8000 else 0)"
proof (rule bit_word_eqI)
  fix n
  show "bit (w AND 0x8000) n \<longleftrightarrow> bit (if bit w 15 then 0x8000 else 0 :: u32) n"
    using bit_8000 [of n] by (cases "n = 15"; cases "bit w 15") (simp_all only: bit_and_iff if_True if_False bit_0_eq bot_fun_def bot_bool_def simp_thms)
qed

lemma unat_32: "unat (w :: u32) < 4294967296"
  using unsigned_less [of w, where 'a = nat] by simp

text \<open>The upper half of one reading with the lower half of another.\<close>

lemma low_half: "unat (take_bit 16 t :: u32) = unat t mod 65536"
  by (simp only: unsigned_take_bit_eq) (simp add: take_bit_eq_mod)

lemma high_half: "unat (now AND NOT (mask 16) :: u32) = unat now div 65536 * 65536"
proof -
  have "take_bit 16 now + (now AND NOT (mask 16)) = take_bit 16 now OR (now AND NOT (mask 16))"
    by (rule disjunctive_add) (auto simp: bit_simps)
  also have "\<dots> = now" by (rule bit_word_eqI) (auto simp: bit_simps)
  finally have h: "now AND NOT (mask 16) = now - take_bit 16 now" by (simp add: algebra_simps)
  show ?thesis unfolding h
    by (simp add: unat_sub_if' word_le_nat_alt low_half minus_mod_eq_div_mult)
qed

lemma joined_halves: "unat (ucast (ucast t :: u16) OR (now AND 0xFFFF0000) :: u32)
    = unat (t :: u32) mod 65536 + unat (now :: u32) div 65536 * 65536"
proof -
  have m: "(0xFFFF0000 :: u32) = NOT (mask 16)" by (simp add: mask_eq_exp_minus_1)
  have l: "ucast (ucast t :: u16) = take_bit 16 t" by (rule bit_word_eqI) (auto simp: bit_simps)
  have j: "take_bit 16 t OR (now AND NOT (mask 16)) = take_bit 16 t + (now AND NOT (mask 16))"
    by (rule disjunctive_add [symmetric]) (auto simp: bit_simps)
  have "unat (take_bit 16 t) + unat (now AND NOT (mask 16)) < 4294967296"
  proof -
    have "unat t mod 65536 < 65536" "unat now div 65536 < 65536" using unat_32 [of now] by (simp_all add: less_mult_imp_div_less)
    then show ?thesis unfolding low_half high_half by linarith
  qed
  then show ?thesis unfolding m l j
    by (simp add: unat_word_ariths low_half high_half)
qed


lemma halves_unique: "a < 65536 \<Longrightarrow> c < 65536 \<Longrightarrow> a + b * 65536 = c + e * 65536 \<Longrightarrow> a = c \<and> b = (e :: nat)"
proof -
  assume l: "a < 65536" "c < 65536" and e: "a + b * 65536 = c + e * 65536"
  have "a mod 65536 = c mod 65536" using arg_cong [OF e, of "\<lambda>n. n mod 65536"] by (simp only: mod_mult_self1)
  then show ?thesis using l e by simp
qed

lemma carry:
  fixes tl th d nl nh :: nat
  assumes "nl + nh * 65536 = (tl + th * 65536 + d) mod 4294967296" "tl < 65536" "nl < 65536" "d < 32768" "th < 65536"
  shows "tl + d < 65536 \<and> nl = tl + d \<and> nh = th
    \<or> tl + d \<ge> 65536 \<and> nl + 65536 = tl + d \<and> (nh = th + 1 \<or> nh = 0 \<and> th = 65535)"
proof (cases "tl + d < 65536")
  case True
  then have "tl + th * 65536 + d < 4294967296" using assms(5) by linarith
  then have "nl + nh * 65536 = (tl + d) + th * 65536" using assms(1) by (simp only: mod_less)
  then have "nl = tl + d \<and> nh = th" by (rule halves_unique [OF assms(3) True])
  then show ?thesis using True by blast
next
  case c: False
  then have l: "tl + d - 65536 < 65536" using assms(2,4) by linarith
  show ?thesis
  proof (cases "th = 65535")
    case True
    then have e: "tl + th * 65536 + d = (tl + d - 65536) + 4294967296" using c by linarith
    have "(tl + th * 65536 + d) mod 4294967296 = tl + d - 65536"
      unfolding e mod_add_self2 using l by (intro mod_less) linarith
    then have "nl + nh * 65536 = (tl + d - 65536) + 0 * 65536" using assms(1) by (simp only: mult_0 add_0_right)
    then have "nl = tl + d - 65536 \<and> nh = 0" by (rule halves_unique [OF assms(3) l])
    then show ?thesis using c True by linarith
  next
    case False
    then have "tl + th * 65536 + d < 4294967296" using assms by linarith
    then have "nl + nh * 65536 = tl + th * 65536 + d" using assms(1) by (simp only: mod_less)
    then have "nl + nh * 65536 = (tl + d - 65536) + (th + 1) * 65536" using c by (simp add: algebra_simps)
    then have "nl = tl + d - 65536 \<and> nh = th + 1" by (rule halves_unique [OF assms(3) l])
    then show ?thesis using c by linarith
  qed
qed

lemma sent_time_join:
  assumes d: "unat (now - t) < 32768"
  shows "received_sent_time (ucast t) now = t"
proof -
  let ?r = "ucast (ucast t :: u16) OR (now AND 0xFFFF0000) :: u32"
  define tl th d nl nh where h: "tl = unat t mod 65536" "th = unat t div 65536" "d = unat (now - t)"
    "nl = unat now mod 65536" "nh = unat now div 65536"
  have t: "unat t = tl + th * 65536" and n: "unat now = nl + nh * 65536" by (simp_all add: h)
  have b: "tl < 65536" "nl < 65536" "d < 32768" "th < 65536" "nh < 65536"
    using d unat_32 [of t] unat_32 [of now] by (simp_all add: h less_mult_imp_div_less)
  have r: "unat ?r = tl + nh * 65536" unfolding joined_halves h by simp
  then have rm: "unat ?r mod 65536 = tl" using b by simp
  have s: "?r AND 0x8000 > now AND 0x8000 \<longleftrightarrow> 32768 \<le> tl \<and> \<not> 32768 \<le> nl"
    unfolding and_8000 bit_15_iff rm by (simp add: h)
  have "unat now = (unat t + d) mod 4294967296"
    using unat_word_ariths(1) [of t "now - t"] by (simp add: h)
  then have c: "tl + d < 65536 \<and> nl = tl + d \<and> nh = th \<or> tl + d \<ge> 65536 \<and> nl + 65536 = tl + d \<and> (nh = th + 1 \<or> nh = 0 \<and> th = 65535)"
    using carry [of nl nh tl th d] b unfolding t n by simp
  show ?thesis
  proof (cases "tl + d < 65536")
    case True
    then have "\<not> (?r AND 0x8000 > now AND 0x8000)" "unat ?r = unat t" using c b unfolding s r t by auto
    then show ?thesis by (simp add: received_sent_time_def Let_def word_unat_eq_iff)
  next
    case False
    then have g: "?r AND 0x8000 > now AND 0x8000" using c b unfolding s by auto
    have "unat (t + 0x10000) = unat ?r"
      using False c b unfolding r by (auto simp: unat_word_ariths t mod_if)
    then have "?r = t + 0x10000" by (simp add: word_unat_eq_iff)
    then show ?thesis using g by (simp add: received_sent_time_def Let_def)
  qed
qed


section \<open>Timeouts\<close>

definition overdue :: "u32 \<Rightarrow> outgoing_command \<Rightarrow> bool" where
  "overdue now c \<longleftrightarrow> \<not> ENET_TIME_DIFFERENCE now (oc_sentTime c) < oc_roundTripTimeout c"

definition doubled :: "outgoing_command \<Rightarrow> outgoing_command" where
  "doubled c = c\<lparr>oc_roundTripTimeout := oc_roundTripTimeout c * 2\<rparr>"

definition timeout_view :: "peer \<Rightarrow> outgoing_command list \<times> outgoing_command list \<times> u32 \<times> u32 \<times> u32" where
  "timeout_view p = (p_sentReliableCommands p, p_outgoingCommands p, p_timeoutMinimum p, p_timeoutMaximum p,
     p_earliestTimeout p)"

lemma set_next_timeout_view: "timeout_view (peer_at (set_next_timeout i h) i) = timeout_view (peer_at h i)"
  by (cases "i < length (h_peers h)")
    (auto simp: set_next_timeout_def timeout_view_def upd_peer_def peer_at_def split: list.split)

lemma set_next_timeout_time [simp]: "h_serviceTime (set_next_timeout i h) = h_serviceTime h"
  by (simp add: set_next_timeout_def split: list.split)

lemma move_between:
  "remove_nth (length kept) (kept @ c # cs) = kept @ cs"
  "insert_before (length lost) c (lost @ rest) = lost @ c # rest"
  by (simp_all add: remove_nth_def insert_before_def)

text \<open>One overdue command goes back.\<close>

definition after_loss :: "nat \<Rightarrow> nat \<Rightarrow> nat \<Rightarrow> outgoing_command \<Rightarrow> host \<Rightarrow> host" where
  "after_loss i k j c h =
    (let h = upd_peer i (take_back k j c) (upd_peer i (note_timeout c) h)
     in if k = 0 then set_next_timeout i h else h)"

lemma after_loss_frame [simp]:
  "h_serviceTime (after_loss i k j c h) = h_serviceTime h"
  "length (h_peers (after_loss i k j c h)) = length (h_peers h)"
  by (simp_all add: after_loss_def Let_def set_next_timeout_ok(2))

lemma after_loss_view:
  assumes "i < length (h_peers h)"
  shows "timeout_view (peer_at (after_loss i k j c h) i)
    = timeout_view (take_back k j c (note_timeout c (peer_at h i)))"
  using assms by (simp add: after_loss_def Let_def set_next_timeout_view)

lemma note_timeout_fields [simp]:
  "p_sentReliableCommands (note_timeout c p) = p_sentReliableCommands p"
  "p_outgoingCommands (note_timeout c p) = p_outgoingCommands p"
  "p_timeoutMinimum (note_timeout c p) = p_timeoutMinimum p"
  "p_timeoutMaximum (note_timeout c p) = p_timeoutMaximum p"
  by (simp_all add: note_timeout_def)

lemma note_timeout_earliest: "p_earliestTimeout (note_timeout c p) \<in> {p_earliestTimeout p, oc_sentTime c}"
  by (simp add: note_timeout_def)

lemma timeout_loop_step:
  assumes "i < length (h_peers h)" "overdue (h_serviceTime h) c"
  shows "timeout_loop i event k j (c # cs) h =
    (if gives_up (h_serviceTime h) c (note_timeout c (peer_at h i))
     then let (event, h) = enet_protocol_notify_disconnect i event (upd_peer i (note_timeout c) h) in (1, event, h)
     else timeout_loop i event k (Suc j) cs (after_loss i k j c h))"
  using assms by (simp add: overdue_def after_loss_def Let_def)

text \<open>What giving up needs.\<close>

definition silent_since :: "u32 \<Rightarrow> peer \<Rightarrow> outgoing_command \<Rightarrow> u32 \<Rightarrow> bool" where
  "silent_since now p c e \<longleftrightarrow> e \<noteq> 0 \<and> overdue now c
     \<and> (ENET_TIME_DIFFERENCE now e \<ge> p_timeoutMaximum p
        \<or> oc_roundTripTimeout c \<ge> oc_roundTripTimeoutLimit c \<and> ENET_TIME_DIFFERENCE now e \<ge> p_timeoutMinimum p)"

lemma timeout_loop_spec:
  assumes "i < length (h_peers h)" "p_sentReliableCommands (peer_at h i) = kept @ cs"
    "p_outgoingCommands (peer_at h i) = lost @ rest" "timeout_loop i event (length kept) (length lost) cs h = (r, event', h')"
    "p_earliestTimeout (peer_at h i) \<in> E" "oc_sentTime ` set cs \<subseteq> E"
  shows "(r = 0 \<and> event' = event
       \<and> p_sentReliableCommands (peer_at h' i) = kept @ filter (\<lambda>c. \<not> overdue (h_serviceTime h) c) cs
       \<and> p_outgoingCommands (peer_at h' i) = lost @ map doubled (filter (overdue (h_serviceTime h)) cs) @ rest)
    \<or> (r = 1 \<and> (\<exists>c \<in> set cs. \<exists>e \<in> E. silent_since (h_serviceTime h) (peer_at h i) c e))"
  using assms
proof (induction cs arbitrary: h kept lost)
  case Nil
  then show ?case by simp
next
  case (Cons c cs)
  show ?case
  proof (cases "overdue (h_serviceTime h) c")
    case False
    then have "timeout_loop i event (length (kept @ [c])) (length lost) cs h = (r, event', h')"
      using Cons.prems(4) by (simp add: overdue_def)
    then show ?thesis
      using Cons.IH [of h "kept @ [c]" lost] Cons.prems False by auto
  next
    case True
    let ?q = "note_timeout c (peer_at h i)"
    have e: "p_earliestTimeout ?q \<in> E"
      using note_timeout_earliest [of c "peer_at h i"] Cons.prems(5,6) by auto
    show ?thesis
    proof (cases "gives_up (h_serviceTime h) c ?q")
      case True
      then have "silent_since (h_serviceTime h) (peer_at h i) c (p_earliestTimeout ?q)"
        using \<open>overdue _ c\<close> by (simp add: gives_up_def silent_since_def)
      moreover have "r = 1"
        using Cons.prems(4) timeout_loop_step [OF Cons.prems(1) \<open>overdue _ c\<close>] True by (simp add: case_prod_beta)
      ultimately show ?thesis using e by auto
    next
      case False
      let ?h = "after_loss i (length kept) (length lost) c h"
      have v: "timeout_view (peer_at ?h i) = timeout_view (take_back (length kept) (length lost) c ?q)"
        by (rule after_loss_view [OF Cons.prems(1)])
      have s: "p_sentReliableCommands (peer_at ?h i) = kept @ cs"
        "p_outgoingCommands (peer_at ?h i) = (lost @ [doubled c]) @ rest"
        "p_earliestTimeout (peer_at ?h i) \<in> E" "p_timeoutMinimum (peer_at ?h i) = p_timeoutMinimum (peer_at h i)"
        "p_timeoutMaximum (peer_at ?h i) = p_timeoutMaximum (peer_at h i)"
        using v e by (simp_all add: timeout_view_def take_back_def Cons.prems(2,3) move_between doubled_def)
      have l: "timeout_loop i event (length kept) (length (lost @ [doubled c])) cs ?h = (r, event', h')"
        using Cons.prems(4) timeout_loop_step [OF Cons.prems(1) \<open>overdue _ c\<close>] False by simp
      have "i < length (h_peers ?h)" using Cons.prems(1) by simp
      from Cons.IH [OF this s(1,2) l s(3)] Cons.prems(6) \<open>overdue _ c\<close>
      show ?thesis by (auto simp: silent_since_def s(4,5))
    qed
  qed
qed

section \<open>Round trip times\<close>

lemma throttle_only: "\<exists>x. snd (enet_peer_throttle rtt p) = p\<lparr>p_packetThrottle := x\<rparr>"
proof -
  have "\<exists>x. p = p\<lparr>p_packetThrottle := x\<rparr>" by (rule exI [of _ "p_packetThrottle p"]) simp
  then show ?thesis by (auto simp: enet_peer_throttle_def Let_def)
qed

lemma step_up:
  fixes a b :: u32
  assumes "a \<le> b"
  shows "a \<le> a + (b - a) div 8" "a + (b - a) div 8 \<le> b"
proof -
  have "unat ((b - a) div 8) = (unat b - unat a) div 8" using assms by (simp add: unat_div unat_sub)
  moreover have "unat a + (unat b - unat a) div 8 \<le> unat b" using assms by (simp add: word_le_nat_alt)
  moreover have "unat b < 4294967296" by (rule unat_32)
  ultimately have "unat (a + (b - a) div 8) = unat a + (unat b - unat a) div 8" by (simp add: unat_word_ariths)
  then show "a \<le> a + (b - a) div 8" "a + (b - a) div 8 \<le> b"
    using \<open>unat a + (unat b - unat a) div 8 \<le> unat b\<close> by (simp_all add: word_le_nat_alt)
qed

lemma step_down:
  fixes a b :: u32
  assumes "b \<le> a"
  shows "b \<le> a - (a - b) div 8" "a - (a - b) div 8 \<le> a"
proof -
  have d: "unat ((a - b) div 8) = (unat a - unat b) div 8" using assms by (simp add: unat_div unat_sub)
  then have "(a - b) div 8 \<le> a" by (simp add: word_le_nat_alt)
  then have "unat (a - (a - b) div 8) = unat a - (unat a - unat b) div 8" using d by (simp add: unat_sub)
  then show "b \<le> a - (a - b) div 8" "a - (a - b) div 8 \<le> a" using assms by (simp_all add: word_le_nat_alt)
qed

definition smoothed :: "u32 \<Rightarrow> peer \<Rightarrow> u32" where
  "smoothed rtt p = p_roundTripTime (update_round_trip rtt p)"

lemma smoothed_eq:
  "smoothed rtt p = (if p_lastReceiveTime p = 0 then rtt
     else if p_roundTripTime p \<le> rtt then p_roundTripTime p + (rtt - p_roundTripTime p) div 8
     else p_roundTripTime p - (p_roundTripTime p - rtt) div 8)"
proof -
  obtain x where "snd (enet_peer_throttle rtt p) = p\<lparr>p_packetThrottle := x\<rparr>" using throttle_only by blast
  then show ?thesis by (auto simp: smoothed_def update_round_trip_def Let_def word_gt_0)
qed

lemma smoothed_between:
  "p_lastReceiveTime p \<noteq> 0 \<Longrightarrow> min (p_roundTripTime p) rtt \<le> smoothed rtt p \<and> smoothed rtt p \<le> max (p_roundTripTime p) rtt"
  using step_up [of "p_roundTripTime p" rtt] step_down [of rtt "p_roundTripTime p"]
  by (auto simp: smoothed_eq min_def max_def)

lemma measure_fields:
  "p_roundTripTime (measure_round_trip now rtt p) = smoothed rtt p"
  "p_lowestRoundTripTime (measure_round_trip now rtt p) \<le> smoothed rtt p"
  "p_roundTripTimeVariance (measure_round_trip now rtt p) \<le> p_highestRoundTripTimeVariance (measure_round_trip now rtt p)"
  "0 < p_lastReceiveTime (measure_round_trip now rtt p)" "p_earliestTimeout (measure_round_trip now rtt p) = 0"
  by (simp_all add: measure_round_trip_def Let_def smoothed_def not_less ENET_MAX_def word_gt_0) auto

section \<open>Properties\<close>

text \<open>
  C32: The sixteen bits of the send time in an acknowledgement are enough: as long as the
  answer takes less than 32.768 seconds the sender recovers the whole 32-bit time, also when
  either half of the clock has wrapped around in between.
\<close>

theorem sent_time_recovered:
  assumes "unat (now - t) < 0x8000"
  shows "received_sent_time (ucast t) now = t"
  using sent_time_join assms by simp

theorem sent_time_recovered_witness: "received_sent_time (ucast (0xFFFFFFF0 :: u32)) 0x10 = 0xFFFFFFF0"
  by (rule sent_time_recovered) simp

text \<open>
  C8: Commands that were not acknowledged in time are never lost: unless the peer is given up,
  exactly the overdue ones leave the sent queue, in their order go in front of everything that
  still waits to be sent, with the double timeout, and the others stay.  And the peer is given
  up only when some command is overdue and its silence has lasted for the maximal timeout, or
  for the minimal one after the timeout of that command has grown to its limit.
\<close>

theorem timeouts_requeue_or_give_up:
  assumes "i < length (h_peers h)" "enet_protocol_check_timeouts i event h = (r, event', h')"
  shows "(r = 0 \<and> event' = event
       \<and> p_sentReliableCommands (peer_at h' i)
          = filter (\<lambda>c. \<not> overdue (h_serviceTime h) c) (p_sentReliableCommands (peer_at h i))
       \<and> p_outgoingCommands (peer_at h' i)
          = map doubled (filter (overdue (h_serviceTime h)) (p_sentReliableCommands (peer_at h i)))
            @ p_outgoingCommands (peer_at h i))
    \<or> (r = 1 \<and> (\<exists>c \<in> set (p_sentReliableCommands (peer_at h i)).
          \<exists>e \<in> insert (p_earliestTimeout (peer_at h i)) (oc_sentTime ` set (p_sentReliableCommands (peer_at h i))).
            silent_since (h_serviceTime h) (peer_at h i) c e))"
  using timeout_loop_spec [OF assms(1), of "[]" "p_sentReliableCommands (peer_at h i)" "[]"
      "p_outgoingCommands (peer_at h i)" event r event' h'
      "insert (p_earliestTimeout (peer_at h i)) (oc_sentTime ` set (p_sentReliableCommands (peer_at h i)))"] assms(2)
  by (auto simp: enet_protocol_check_timeouts_def)

definition lost_ping :: outgoing_command where
  "lost_ping = (new_outgoing_command (command_on 0x80 0xFF Ping) None 0 0)\<lparr>
     oc_sentTime := 100, oc_roundTripTimeout := 50, oc_roundTripTimeoutLimit := 1600\<rparr>"

definition waiting_pair :: host where
  "waiting_pair = upd_peer 0 (\<lambda>p. p\<lparr>p_timeoutMinimum := 5000, p_timeoutMaximum := 30000,
     p_sentReliableCommands := [lost_ping]\<rparr>) ((connected_pair 10)\<lparr>h_serviceTime := 200\<rparr>)"

theorem timeouts_requeue_or_give_up_witness:
  "let (r, event, h) = enet_protocol_check_timeouts 0 None waiting_pair
   in r = 0 \<and> p_sentReliableCommands (peer_at h 0) = [] \<and> p_outgoingCommands (peer_at h 0) = [doubled lost_ping]"
proof -
  obtain r event h where c: "enet_protocol_check_timeouts 0 None waiting_pair = (r, event, h)" by (metis prod_cases3)
  have w: "0 < length (h_peers waiting_pair)" "h_serviceTime waiting_pair = 200"
    "p_sentReliableCommands (peer_at waiting_pair 0) = [lost_ping]" "p_outgoingCommands (peer_at waiting_pair 0) = []"
    "p_earliestTimeout (peer_at waiting_pair 0) = 0" "p_timeoutMinimum (peer_at waiting_pair 0) = 5000"
    "p_timeoutMaximum (peer_at waiting_pair 0) = 30000"
    by (simp_all add: waiting_pair_def upd_peer_def upd_nth_def connected_pair_simps)
  have o: "overdue 200 lost_ping" "oc_sentTime lost_ping = 100" "ENET_TIME_DIFFERENCE 200 100 = 100"
    by (simp_all add: overdue_def lost_ping_def new_outgoing_command_def ENET_TIME_DIFFERENCE_def ENET_TIME_OVERFLOW_def)
  show ?thesis
    using timeouts_requeue_or_give_up [OF w(1) c] w o by (auto simp: c silent_since_def)
qed

text \<open>
  C33: The smoothed round trip time starts at the first measurement and from then on moves from
  its old value towards each measurement without passing it, so it never becomes zero; the lowest
  time and the highest variance of the epoch bound the current ones.
\<close>

theorem round_trip_smoothed:
  "let q = measure_round_trip now rtt p
   in (p_lastReceiveTime p = 0 \<longrightarrow> p_roundTripTime q = rtt)
    \<and> (p_lastReceiveTime p \<noteq> 0 \<longrightarrow>
         min (p_roundTripTime p) rtt \<le> p_roundTripTime q \<and> p_roundTripTime q \<le> max (p_roundTripTime p) rtt)
    \<and> (0 < rtt \<and> 0 < p_roundTripTime p \<longrightarrow> 0 < p_roundTripTime q)
    \<and> p_lowestRoundTripTime q \<le> p_roundTripTime q
    \<and> p_roundTripTimeVariance q \<le> p_highestRoundTripTimeVariance q
    \<and> 0 < p_lastReceiveTime q \<and> p_earliestTimeout q = 0"
proof -
  have "0 < rtt \<and> 0 < p_roundTripTime p \<longrightarrow> 0 < smoothed rtt p"
    using smoothed_between [of p rtt] by (auto simp: min_def smoothed_eq split: if_splits)
  then show ?thesis
    using smoothed_between [of p rtt] measure_fields [of now rtt p] by (simp add: Let_def) (simp add: smoothed_eq)
qed

theorem round_trip_smoothed_witness:
  "p_roundTripTime (measure_round_trip 1000 80 (zero_peer\<lparr>p_lastReceiveTime := 7, p_roundTripTime := 500\<rparr>)) \<le> 500"
  using round_trip_smoothed [of 1000 80 "zero_peer\<lparr>p_lastReceiveTime := 7, p_roundTripTime := 500\<rparr>"]
  by (simp add: Let_def)

end
