(* ===== verification/Enet_Sending.thy ===== *)
theory Enet_Sending
  imports Enet_Timing
begin

text \<open>
  What \<open>enet/protocol.c\<close> promises about the datagrams it packs: they fit, they lose nothing that
  must arrive, and packing them comes to an end.
\<close>

section \<open>Sizes\<close>

fun buffer_size :: "buffer \<Rightarrow> nat" where
  "buffer_size Header_Buffer = 0"
| "buffer_size (Command_Buffer k n) = n"
| "buffer_size (Packet_Buffer p offset n) = n"

text \<open>
  The code compares sizes in 16 bits where a command has data; that is the same as comparing
  them when a command and its data stay below 64 kB.
\<close>

definition small :: "outgoing_command \<Rightarrow> bool" where
  "small c \<longleftrightarrow> size_of c + unat (oc_fragmentLength c) < 65536"

definition all_small :: "peer \<Rightarrow> bool" where
  "all_small p \<longleftrightarrow> (\<forall>c \<in> set (p_outgoingCommands p) \<union> set (p_sentReliableCommands p). small c)"

definition fit_view :: "nat \<Rightarrow> host \<Rightarrow> buffer list \<times> nat \<times> protocol list \<times> u32 \<times> nat" where
  "fit_view i h = (h_buffers h, h_packetSize h, h_commands h, p_mtu (peer_at h i), length (h_peers h))"

definition view_fits :: "nat \<Rightarrow> buffer list \<times> nat \<times> protocol list \<times> u32 \<times> nat \<Rightarrow> bool" where
  "view_fits i v \<longleftrightarrow> (case v of (buffers, packetSize, commands, mtu, n) \<Rightarrow> i < n
     \<and> buffers \<noteq> [] \<and> packetSize = 4 + sum_list (map buffer_size (tl buffers))
     \<and> packetSize \<le> unat mtu \<and> mtu \<le> ENET_PROTOCOL_MAXIMUM_MTU
     \<and> length commands \<le> ENET_PROTOCOL_MAXIMUM_PACKET_COMMANDS \<and> length buffers \<le> ENET_BUFFER_MAXIMUM)"

definition fits :: "nat \<Rightarrow> host \<Rightarrow> bool" where
  "fits i h \<longleftrightarrow> view_fits i (fit_view i h) \<and> all_small (peer_at h i)"

lemma fitsI: "fits i h \<Longrightarrow> fit_view i h' = fit_view i h \<Longrightarrow> all_small (peer_at h' i) \<Longrightarrow> fits i h'"
  by (simp add: fits_def)

lemma fits_length: "fits i h \<Longrightarrow> i < length (h_peers h)"
  by (simp add: fits_def view_fits_def fit_view_def)

lemma room_eq:
  assumes "fits i h"
  shows "room i h = unat (p_mtu (peer_at h i)) - h_packetSize h" "h_packetSize h \<le> unat (p_mtu (peer_at h i))"
    "unat (p_mtu (peer_at h i)) \<le> 4096"
proof -
  show l: "h_packetSize h \<le> unat (p_mtu (peer_at h i))" "unat (p_mtu (peer_at h i)) \<le> 4096"
    using assms by (simp_all add: fits_def view_fits_def fit_view_def protocol_limits word_le_nat_alt)
  have "unat (p_mtu (peer_at h i)) < size_max" using l(2) by (simp add: size_max_def)
  then show "room i h = unat (p_mtu (peer_at h i)) - h_packetSize h" using l(1) by (simp add: room_def)
qed

lemma max_sizes: "ENET_PROTOCOL_MAXIMUM_PACKET_COMMANDS = 32" "ENET_BUFFER_MAXIMUM = 65"
  by (simp_all add: protocol_limits ENET_BUFFER_MAXIMUM_def)

text \<open>An operation of the packing of a datagram for peer \<open>i\<close>: it keeps the bounds and does not touch the network.\<close>

definition packs :: "nat \<Rightarrow> host \<Rightarrow> host \<Rightarrow> bool" where
  "packs i h h' \<longleftrightarrow> (fits i h \<longrightarrow> fits i h' \<and> p_mtu (peer_at h' i) = p_mtu (peer_at h i)) \<and> h_net h' = h_net h \<and> h_checksum h' = h_checksum h"

lemma packs_refl [simp]: "packs i h h"
  by (simp add: packs_def)

lemma packs_trans [trans]: "packs i h h1 \<Longrightarrow> packs i h1 h2 \<Longrightarrow> packs i h h2"
  by (simp add: packs_def)

lemma packs_frame:
  assumes "fits i h \<Longrightarrow> fit_view i h' = fit_view i h" "h_net h' = h_net h" "h_checksum h' = h_checksum h"
    "all_small (peer_at h i) \<Longrightarrow> all_small (peer_at h' i)"
  shows "packs i h h'"
  using assms by (auto simp: packs_def fits_def fit_view_def)

lemma packs_peer:
  assumes "p_mtu (f (peer_at h i)) = p_mtu (peer_at h i)"
    "set (p_outgoingCommands (f (peer_at h i))) \<union> set (p_sentReliableCommands (f (peer_at h i)))
      \<subseteq> set (p_outgoingCommands (peer_at h i)) \<union> set (p_sentReliableCommands (peer_at h i)) \<union> {c. small c}"
  shows "packs i h (upd_peer i f h)"
proof (cases "i < length (h_peers h)")
  case True
  then show ?thesis using assms by (intro packs_frame) (auto simp: fit_view_def all_small_def)
next
  case False
  then show ?thesis by (simp add: upd_peer_def)
qed

lemma packs_host:
  "h_peers h' = h_peers h \<Longrightarrow> h_buffers h' = h_buffers h \<Longrightarrow> h_packetSize h' = h_packetSize h \<Longrightarrow>
    h_commands h' = h_commands h \<Longrightarrow> h_net h' = h_net h \<Longrightarrow> h_checksum h' = h_checksum h \<Longrightarrow> packs i h h'"
  by (intro packs_frame) (simp_all add: fit_view_def peer_at_def)

lemma packs_mem [simp]: "packs i h (upd_mem f h)" "packs i h (h\<lparr>h_mem := m\<rparr>)" "packs i h (snd (host_malloc h))"
  by (intro packs_host; simp add: upd_mem_def host_malloc_def split: prod.split)+

lemma put_command_packs:
  assumes "fits i h \<Longrightarrow> n \<le> room i h \<and> length (h_commands h) < 32 \<and> length (h_buffers h) < 65"
  shows "packs i h (put_command c n h)"
proof -
  have "fits i (put_command c n h)" if "fits i h"
    using assms [OF that] that room_eq [OF that]
    by (auto simp: fits_def view_fits_def fit_view_def put_command_def max_sizes peer_at_def)
  then show ?thesis by (simp add: packs_def put_command_def peer_at_def)
qed

lemma packs_counts [simp]: "packs i h (enet_peer_on_connect i h)" "packs i h (enet_peer_on_disconnect i h)"
  by (intro packs_host; simp add: enet_peer_on_connect_def enet_peer_on_disconnect_def Let_def)+

lemma packs_change_state [simp]: "packs i h (enet_protocol_change_state i s h)"
  unfolding enet_protocol_change_state_def by (rule packs_trans [OF _ packs_peer]) auto

lemma packs_mark [simp]: "packs i h (mark_dispatch i h)"
proof -
  have m: "packs i h (h\<lparr>h_linkFault := a, h_dispatchQueue := q\<rparr>)" for a q by (rule packs_host) simp_all
  show ?thesis unfolding mark_dispatch_def
    by (cases "needs_dispatch (peer_at h i)") (simp_all add: packs_trans [OF m packs_peer])
qed

lemma packs_dispatch_state [simp]: "packs i h (enet_protocol_dispatch_state i s h)"
  unfolding enet_protocol_dispatch_state_def by (rule packs_trans [OF packs_change_state packs_mark])

lemma packs_continue [simp]: "packs i h (h\<lparr>h_continueSending := b\<rparr>)"
  by (rule packs_host) simp_all

lemma packs_acknowledgements: "packs i h (acknowledgement_loop i as h)"
proof (induction as arbitrary: h)
  case (Cons a as)
  show ?case
  proof (cases "length (h_commands h) \<ge> ENET_PROTOCOL_MAXIMUM_PACKET_COMMANDS
        \<or> length (h_buffers h) \<ge> ENET_BUFFER_MAXIMUM \<or> room i h < sizeof_Acknowledge")
    case True
    then show ?thesis by simp
  next
    case False
    let ?h = "put_command (acknowledge_protocol a) sizeof_Acknowledge h"
    have "packs i h ?h" by (rule put_command_packs) (use False in \<open>simp add: max_sizes not_le not_less\<close>)
    then have "packs i h (if b then enet_protocol_dispatch_state i Zombie ?h else ?h)" for b
      using packs_trans packs_dispatch_state by auto
    then have "packs i h (upd_peer i (\<lambda>p. p\<lparr>p_acknowledgements := as\<rparr>) (if b then enet_protocol_dispatch_state i Zombie ?h else ?h))" for b
      by (rule packs_trans) (rule packs_peer, simp_all)
    then show ?thesis using False packs_trans [OF _ Cons.IH] by (simp add: Let_def)
  qed
qed simp

lemma packs_set_next_timeout [simp]: "packs i h (set_next_timeout i h)"
  by (auto simp: set_next_timeout_def split: list.split intro: packs_peer)

lemma small_doubled: "small c \<Longrightarrow> small (c\<lparr>oc_roundTripTimeout := n\<rparr>)"
  by (simp add: small_def size_of_def)

lemma packs_take_back:
  assumes "c \<in> set (p_sentReliableCommands (peer_at h i)) \<or> small c"
  shows "packs i h (upd_peer i (take_back k j c) h)"
proof (cases "i < length (h_peers h)")
  case True
  have "all_small (peer_at h i) \<Longrightarrow> all_small (take_back k j c (peer_at h i))"
    using assms small_doubled [of c] set_remove_nth [of k "p_sentReliableCommands (peer_at h i)"]
    by (auto simp: all_small_def take_back_def set_insert_before)
  moreover have "p_mtu (take_back k j c (peer_at h i)) = p_mtu (peer_at h i)" by (simp add: take_back_def)
  ultimately show ?thesis using True by (intro packs_frame) (simp_all add: fit_view_def)
next
  case False
  then show ?thesis by (simp add: upd_peer_def)
qed

lemma packs_note_timeout: "packs i h (upd_peer i (note_timeout c) h)"
  by (rule packs_peer) (auto simp: note_timeout_def)

lemma packs_after_loss:
  assumes "c \<in> set (p_sentReliableCommands (peer_at h i)) \<or> small c"
  shows "packs i h (after_loss i k j c h)"
proof -
  let ?h = "upd_peer i (note_timeout c) h"
  have "p_sentReliableCommands (peer_at ?h i) = p_sentReliableCommands (peer_at h i)"
    by (cases "i < length (h_peers h)") (simp, simp add: upd_peer_def)
  then have "packs i ?h (upd_peer i (take_back k j c) ?h)" using assms by (intro packs_take_back) simp
  then have "packs i h (upd_peer i (take_back k j c) ?h)" using packs_note_timeout packs_trans by blast
  then show ?thesis using packs_trans [OF _ packs_set_next_timeout]
    by (cases "k = 0") (simp_all add: after_loss_def Let_def)
qed

lemma packs_timeouts:
  "i < length (h_peers h) \<Longrightarrow> p_sentReliableCommands (peer_at h i) = kept @ cs \<Longrightarrow>
    p_outgoingCommands (peer_at h i) = lost @ rest \<Longrightarrow>
    timeout_loop i event (length kept) (length lost) cs h = (0, event', h') \<Longrightarrow> packs i h h'"
proof (induction cs arbitrary: kept lost h)
  case (Cons c cs)
  show ?case
  proof (cases "overdue (h_serviceTime h) c")
    case False
    then show ?thesis using Cons.IH [of h "kept @ [c]" lost] Cons.prems by (simp add: overdue_def)
  next
    case True
    let ?q = "note_timeout c (peer_at h i)" let ?h = "after_loss i (length kept) (length lost) c h"
    have g: "\<not> gives_up (h_serviceTime h) c ?q"
      using Cons.prems(4) timeout_loop_step [OF Cons.prems(1) True] by (auto simp: case_prod_beta)
    have v: "timeout_view (peer_at ?h i) = timeout_view (take_back (length kept) (length lost) c ?q)"
      by (rule after_loss_view [OF Cons.prems(1)])
    have s: "p_sentReliableCommands (peer_at ?h i) = kept @ cs"
      "p_outgoingCommands (peer_at ?h i) = (lost @ [doubled c]) @ rest"
      using v by (simp_all add: timeout_view_def take_back_def Cons.prems(2,3) move_between doubled_def)
    have "timeout_loop i event (length kept) (length (lost @ [doubled c])) cs ?h = (0, event', h')"
      using Cons.prems(4) timeout_loop_step [OF Cons.prems(1) True] g by simp
    from Cons.IH [OF _ s this] have "packs i ?h h'" using Cons.prems(1) by simp
    moreover have "packs i h ?h" by (rule packs_after_loss) (simp add: Cons.prems(2))
    ultimately show ?thesis using packs_trans by blast
  qed
qed simp

lemma packs_queue_outgoing:
  assumes "unat n + commandSizes ! unat (kind_of c) < 65536"
  shows "packs i h (snd (enet_peer_queue_outgoing_command i c packet off n h))"
proof -
  obtain ok h1 where m: "host_malloc h = (ok, h1)" by fastforce
  have h1: "packs i h h1" using packs_mem(3) [of i h] m by simp
  have s: "small d" if "kind_of (oc_command d) = kind_of c" "oc_fragmentLength d = n" for d
    using assms that by (simp add: small_def size_of_def)
  have k: "kind_of \<lparr>pr_header = (pr_header c)\<lparr>hd_reliableSequenceNumber := x\<rparr>, pr_body = b\<rparr> = kind_of c" for x b
    by (simp add: kind_of_def)
  have "packs i g (upd_peer i (enet_peer_setup_outgoing_command (new_outgoing_command c packet off n)) g)" for g
    by (rule packs_peer) (auto simp: enet_peer_setup_outgoing_command_def Let_def new_outgoing_command_def upd_channel_def k
        intro!: s)
  then show ?thesis using h1
    by (simp add: enet_peer_queue_outgoing_command_def m Let_def) (metis packs_trans packs_mem(1))
qed

lemma packs_reset_queues: "packs i h (enet_peer_reset_queues i h)"
proof (rule packs_frame)
  show "all_small (peer_at (enet_peer_reset_queues i h) i)" if "all_small (peer_at h i)"
  proof (cases "i < length (h_peers h)")
    case True
    then show ?thesis using reset_queues_peer [of i h] by (auto simp: all_small_def)
  next
    case False
    then show ?thesis using that by (auto simp: enet_peer_reset_queues_def Let_def upd_peer_def peer_at_def)
  qed
  show "fit_view i (enet_peer_reset_queues i h) = fit_view i h" if "fits i h"
  proof -
    have "p_mtu (peer_at (enet_peer_reset_queues i h) i) = p_mtu (peer_at h i)"
      using reset_queues_peer [OF fits_length [OF that]] by auto
    moreover have "h_packetSize (enet_peer_reset_queues i h) = h_packetSize h" "h_commands (enet_peer_reset_queues i h) = h_commands h"
      by (simp_all add: enet_peer_reset_queues_def Let_def)
    ultimately show ?thesis by (simp add: fit_view_def)
  qed
qed (simp_all add: enet_peer_reset_queues_def Let_def)

lemma packs_state: "packs i h (upd_peer i (\<lambda>p. p\<lparr>p_state := s\<rparr>) h)"
  by (rule packs_peer) simp_all

lemma kind_command_on: "flags = 0x80 \<or> flags = 0x40 \<Longrightarrow> kind_of (command_on flags c (Disconnect d)) = 4"
  "kind_of (command_on 0x80 c Ping) = 5"
  by (auto simp: kind_of_def command_on_def command_of_def ENET_PROTOCOL_COMMAND_MASK_def)

lemma packs_disconnect_later:
  assumes "p_state (peer_at h i) = Disconnect_Later"
  shows "packs i h (enet_peer_disconnect (\<lambda>h. h) i d h)"
proof -
  let ?h1 = "enet_peer_reset_queues i h"
  let ?h2 = "snd (enet_peer_queue_outgoing_command i (command_on ENET_PROTOCOL_COMMAND_FLAG_ACKNOWLEDGE 0xFF (Disconnect d)) None 0 0 ?h1)"
  have "packs i ?h1 ?h2"
    by (rule packs_queue_outgoing) (simp add: kind_command_on ENET_PROTOCOL_COMMAND_FLAG_ACKNOWLEDGE_def commandSizes_def sizeofs)
  then have "packs i h (enet_peer_on_disconnect i ?h2)"
    using packs_trans [OF packs_reset_queues] packs_trans [OF _ packs_counts(2)] by blast
  then have "packs i h (upd_peer i (\<lambda>p. p\<lparr>p_state := Disconnecting\<rparr>) (enet_peer_on_disconnect i ?h2))"
    using packs_state packs_trans by blast
  then show ?thesis using assms by (simp add: enet_peer_disconnect_def Let_def)
qed

lemma packs_ping: "packs i h (enet_peer_ping i h)"
  by (auto simp: enet_peer_ping_def kind_command_on ENET_PROTOCOL_COMMAND_FLAG_ACKNOWLEDGE_def commandSizes_def sizeofs
      intro: packs_queue_outgoing)

section \<open>The loop over the commands\<close>

lemma upd_mem_checksum [simp]: "h_checksum (upd_mem f h) = h_checksum h"
  by (simp add: upd_mem_def)

lemma put_outgoing_packs:
  assumes "small c" "\<not> no_room i c h0" "fits i h0 \<Longrightarrow> fits i h \<and> fit_view i h = fit_view i h0"
    "h_net h = h_net h0" "h_checksum h = h_checksum h0"
  shows "packs i h0 (put_outgoing i c h)"
proof -
  let ?n = "case oc_packet c of None \<Rightarrow> 0 | Some p \<Rightarrow> unat (oc_fragmentLength c)"
  have f: "fits i (put_outgoing i c h) \<and> p_mtu (peer_at (put_outgoing i c h) i) = p_mtu (peer_at h0 i)" if "fits i h0"
  proof -
    have h: "fits i h" "fit_view i h = fit_view i h0" using assms(3) [OF that] by simp_all
    have v: "room i h = room i h0" "h_commands h = h_commands h0" "h_buffers h = h_buffers h0"
      using h(2) by (simp_all add: fit_view_def room_def)
    note r = room_eq [OF h(1)]
    have rn: "room i h < 65536" using r by simp
    have "size_of c + ?n \<le> room i h"
    proof (cases "oc_packet c")
      case None
      then show ?thesis using assms(2) v by (simp add: no_room_def)
    next
      case (Some p)
      have "unat (of_nat (room i h) :: u16) = room i h" "unat (of_nat (size_of c + unat (oc_fragmentLength c)) :: u16)
          = size_of c + unat (oc_fragmentLength c)"
        using rn assms(1) by (simp_all only: unat_of_nat small_def) simp_all
      then show ?thesis using assms(2) Some v by (simp add: no_room_def word_less_nat_alt)
    qed
    moreover have "length (h_commands h) < 32" "length (h_buffers h) < 64"
      using assms(2) v by (simp_all add: no_room_def max_sizes)
    moreover have "p_mtu (peer_at h i) = p_mtu (peer_at h0 i)" using h(2) by (simp add: fit_view_def)
    ultimately show ?thesis using h(1) r
      by (auto simp: fits_def view_fits_def fit_view_def put_outgoing_def put_data_def put_command_def max_sizes
          peer_at_def all_small_def split: option.splits)
  qed
  then show ?thesis using assms(4,5) by (auto simp: packs_def put_outgoing_def put_data_def put_command_def split: option.splits)
qed


lemma send_reliable_peer:
  assumes i: "i < length (h_peers h)"
  obtains q where "peer_at (send_reliable_command i k c h) i = move_reliable (h_serviceTime h) k c q"
    "p_outgoingCommands q = p_outgoingCommands (peer_at h i)"
    "p_sentReliableCommands q = p_sentReliableCommands (peer_at h i)" "p_mtu q = p_mtu (peer_at h i)"
proof
  let ?g = "if command_channel c < p_channelCount (peer_at h i) \<and> oc_sendAttempts c < 1
    then upd_peer i (upd_channel (command_channel c) (use_window (window_of (oc_reliableSequenceNumber c)))) h else h"
  have g: "h_serviceTime ?g = h_serviceTime h" "i < length (h_peers ?g)" using i by simp_all
  have "peer_at (upd_peer i f (g\<lparr>h_headerFlags := w\<rparr>)) i = f (peer_at g i)" if "i < length (h_peers g)" for f g w
    using that by (simp add: peer_at_def)
  from this [OF g(2)] show "peer_at (send_reliable_command i k c h) i = move_reliable (h_serviceTime h) k c (peer_at ?g i)"
    unfolding send_reliable_command_def Let_def g(1) .
  show "p_outgoingCommands (peer_at ?g i) = p_outgoingCommands (peer_at h i)"
    "p_sentReliableCommands (peer_at ?g i) = p_sentReliableCommands (peer_at h i)" "p_mtu (peer_at ?g i) = p_mtu (peer_at h i)"
    using i by (simp_all add: upd_channel_def)
qed

lemma send_reliable_view:
  "fits i h \<Longrightarrow> small c \<Longrightarrow> fits i (send_reliable_command i k c h) \<and> fit_view i (send_reliable_command i k c h) = fit_view i h"
  "h_net (send_reliable_command i k c h) = h_net h" "h_checksum (send_reliable_command i k c h) = h_checksum h"
proof -
  assume f: "fits i h" and c: "small c"
  let ?p = "peer_at (send_reliable_command i k c h) i"
  have i: "i < length (h_peers h)" by (rule fits_length [OF f])
  have n: "small (note_sent now p c)" for now p
    using c by (simp add: small_def size_of_def note_sent_def Let_def)
  obtain q where q: "?p = move_reliable (h_serviceTime h) k c q" "p_outgoingCommands q = p_outgoingCommands (peer_at h i)"
    "p_sentReliableCommands q = p_sentReliableCommands (peer_at h i)" "p_mtu q = p_mtu (peer_at h i)"
    using send_reliable_peer [OF i] by blast
  have "all_small ?p" using f n set_remove_nth [of k "p_outgoingCommands (peer_at h i)"] unfolding q(1)
    by (auto simp: fits_def all_small_def move_reliable_def Let_def q(2,3))
  moreover have "p_mtu ?p = p_mtu (peer_at h i)" unfolding q(1) by (simp add: move_reliable_def Let_def q(4))
  then have "fit_view i (send_reliable_command i k c h) = fit_view i h"
    by (simp add: fit_view_def send_reliable_command_def Let_def)
  ultimately show "fits i (send_reliable_command i k c h) \<and> fit_view i (send_reliable_command i k c h) = fit_view i h"
    using fitsI [OF f] by simp
qed (simp_all add: send_reliable_command_def Let_def)

lemma packs_reliable: "small c \<Longrightarrow> \<not> no_room i c h \<Longrightarrow> packs i h (put_outgoing i c (send_reliable_command i k c h))"
  using send_reliable_view by (intro put_outgoing_packs) simp_all

lemma packs_unreliable:
  assumes "small c" "\<not> no_room i c h" "h' = h \<or> h' = upd_peer i count_throttle h"
  shows "packs i h (put_outgoing i c (upd_peer i (move_unreliable k c) h'))"
proof (rule put_outgoing_packs [OF assms(1,2)])
  assume f: "fits i h"
  note i = fits_length [OF f]
  let ?g = "upd_peer i (move_unreliable k c) h'"
  have "fit_view i ?g = fit_view i h" using assms(3) i by (auto simp: fit_view_def move_unreliable_def count_throttle_def)
  moreover have "all_small (peer_at ?g i)"
    using assms(3) f i set_remove_nth [of k "p_outgoingCommands (peer_at h i)"]
    by (auto simp: fits_def all_small_def move_unreliable_def count_throttle_def)
  ultimately show "fits i ?g \<and> fit_view i ?g = fit_view i h" using fitsI [OF f] by simp
qed (use assms(3) in auto)

lemma packs_drop:
  assumes "h' = h \<or> h' = upd_peer i count_throttle h"
  shows "packs i h (drop_commands i k run h')"
proof -
  have "packs i h h'" using assms packs_peer [of count_throttle h i] by (auto simp: count_throttle_def)
  moreover have "packs i h' (drop_commands i k run h')"
    unfolding drop_commands_def
    by (rule packs_trans [OF packs_mem(1)], rule packs_peer) (auto dest: in_set_takeD in_set_dropD)
  ultimately show ?thesis by (rule packs_trans)
qed

lemma packs_outgoing_loop:
  "packs i h0 h \<Longrightarrow> \<forall>c \<in> set cs. small c \<Longrightarrow> packs i h0 (snd (outgoing_loop i k e w g cs h))"
proof (induction cs arbitrary: k e w g h rule: length_induct)
  case (1 cs)
  define Q where "Q = (\<lambda>r :: bool \<times> host. packs i h0 (snd r))"
  define S where "S = (\<lambda>cs :: outgoing_command list. \<forall>c \<in> set cs. small c)"
  have ifQ: "(b \<Longrightarrow> Q x) \<Longrightarrow> (\<not> b \<Longrightarrow> Q y) \<Longrightarrow> Q (if b then x else y)" for b x y by simp
  show ?case
  proof (cases cs)
    case Nil
    then show ?thesis using "1.prems" by simp
  next
    case (Cons c cs')
    have s: "small c" "S cs'" "S (dropWhile (same_numbers c) cs')" using "1.prems"(2) Cons by (auto simp: S_def dest: set_dropWhileD)
    have IH: "Q (outgoing_loop i k' e' w' g' rest h')"
      if "length rest \<le> length cs'" "S rest" "packs i h h'" for k' e' w' g' rest h'
    proof -
      have "packs i h0 h'" using "1.prems"(1) that(3) by (rule packs_trans)
      then show ?thesis using "1.IH" that(1,2) Cons by (auto simp: Q_def S_def less_Suc_eq_le)
    qed
    let ?h = "if starts_packet c then upd_peer i count_throttle h else h"
    have h: "?h = h \<or> ?h = upd_peer i count_throttle h" by simp
    note rel = packs_reliable [OF s(1), of i h k] and unrel = packs_unreliable [OF s(1) _ h]
      and run = packs_drop [OF h, of k "c # takeWhile (same_numbers c) cs'"]
    have stop: "Q (b, h\<lparr>h_continueSending := True\<rparr>)" for b
      using packs_trans [OF "1.prems"(1) packs_continue] by (simp add: Q_def)
    have "Q (outgoing_loop i k e w g (c # cs') h)"
      unfolding outgoing_loop.simps(2) Let_def
      by (intro ifQ IH stop) (use s rel unrel run length_dropWhile_le in \<open>simp_all only: simp_thms order_refl packs_refl\<close>)
    then show ?thesis using Cons by (simp add: Q_def)
  qed
qed


lemma loop_packs:
  assumes "\<forall>c \<in> set cs. small c"
  shows "packs i h (snd (outgoing_loop i k e w g cs h))"
  by (rule packs_outgoing_loop [OF packs_refl assms])

section \<open>One datagram\<close>

text \<open>From here on the commands of the peer are small.\<close>

lemma check_outgoing_packs:
  assumes "all_small (peer_at h i)"
  shows "packs i h (snd (enet_protocol_check_outgoing_commands i h))"
proof -
  obtain b h1 where r: "outgoing_loop i 0 False False True (p_outgoingCommands (peer_at h i)) h = (b, h1)" by fastforce
  have h1: "packs i h h1" using loop_packs [of "p_outgoingCommands (peer_at h i)" i h 0 False False True] assms r
    by (simp add: all_small_def)
  then show ?thesis
    using packs_trans [OF h1 packs_disconnect_later] by (simp add: enet_protocol_check_outgoing_commands_def r Let_def)
qed

lemma pack_commands_packs:
  assumes "fits i h"
  shows "packs i h (pack_commands i h)"
proof -
  obtain b h1 where r: "(if p_outgoingCommands (peer_at h i) = [] then (True, h)
      else enet_protocol_check_outgoing_commands i h) = (b, h1)" by fastforce
  have h1: "packs i h h1" using r check_outgoing_packs [of h i] assms by (auto simp: fits_def split: if_splits)
  have h2: "packs i h (enet_peer_ping i h1)" using packs_trans [OF h1 packs_ping] .
  then have "all_small (peer_at (enet_peer_ping i h1) i)" using assms by (simp add: packs_def fits_def)
  from packs_trans [OF h2 check_outgoing_packs [OF this]] h1 show ?thesis
    by (simp add: pack_commands_def r Let_def)
qed

lemma buffer_bytes_size: "length (buffer_bytes h b) \<le> buffer_size b"
  by (cases b) (simp_all add: buffer_bytes_def)

lemma buffers_size: "length (concat (map (buffer_bytes h) bs)) \<le> sum_list (map buffer_size bs)"
  using buffer_bytes_size by (induction bs) (auto intro: add_mono)

lemma length_header_bytes': "length (header_bytes i h) \<le> 4"
  by (simp add: header_bytes_def Let_def)

lemma finish_header_size: "length (finish_header i body h) \<le> 4 + (if h_checksum h = None then 0 else 4)"
  by (simp add: finish_header_def Let_def length_header_bytes' split: option.split)


lemma net_frames [simp]:
  "h_net (enet_peer_on_disconnect i h) = h_net h" "h_net (enet_peer_on_connect i h) = h_net h"
  "h_net (snd (host_malloc h)) = h_net h"
  "h_net (snd (enet_peer_queue_outgoing_command i c packet off n h)) = h_net h"
  "h_net (enet_peer_reset_queues i h) = h_net h"
proof -
  show m: "h_net (snd (host_malloc h)) = h_net h" for h by (simp add: host_malloc_def split: prod.split)
  show "h_net (enet_peer_on_disconnect i h) = h_net h" "h_net (enet_peer_on_connect i h) = h_net h"
    by (simp_all add: enet_peer_on_disconnect_def enet_peer_on_connect_def Let_def)
  show "h_net (snd (enet_peer_queue_outgoing_command i c packet off n h)) = h_net h"
    using m [of h] by (simp add: enet_peer_queue_outgoing_command_def case_prod_beta Let_def)
  show "h_net (enet_peer_reset_queues i h) = h_net h" by (simp add: enet_peer_reset_queues_def Let_def)
qed

lemma net_reset [simp]: "h_net (enet_peer_reset i h) = h_net h"
  by (simp add: enet_peer_reset_def Let_def)

lemma net_disconnect [simp]: "h_net (enet_peer_disconnect (\<lambda>h. h) i d h) = h_net h"
  by (simp add: enet_peer_disconnect_def Let_def)

lemma net_remove_unreliable [simp]: "h_net (enet_protocol_remove_sent_unreliable_commands i h) = h_net h"
  by (simp add: enet_protocol_remove_sent_unreliable_commands_def disconnect_if_idle_def Let_def)

lemma net_change_state [simp]: "h_net (enet_protocol_change_state i s h) = h_net h"
  by (simp add: enet_protocol_change_state_def)

lemma net_mark [simp]: "h_net (mark_dispatch i h) = h_net h"
  by (simp add: mark_dispatch_def)

lemma net_notify_disconnect: "h_net (snd (enet_protocol_notify_disconnect i event h)) = h_net h"
  by (cases event) (simp_all add: enet_protocol_notify_disconnect_def enet_protocol_dispatch_state_def Let_def)

lemma net_timeouts: "h_net (snd (snd (timeout_loop i event k j cs h))) = h_net h"
proof (induction cs arbitrary: k j h)
  case (Cons c cs)
  have "h_net (set_next_timeout i g) = h_net g" for g by (simp add: set_next_timeout_def split: list.split)
  then show ?case using net_notify_disconnect [of i event] by (simp add: Cons.IH Let_def case_prod_beta)
qed simp

text \<open>What is handed to the socket.\<close>

definition datagram_ok :: "nat \<Rightarrow> nat \<Rightarrow> address \<times> u8 list list \<Rightarrow> bool" where
  "datagram_ok mtu extra d \<longleftrightarrow> length (concat (snd d)) \<le> mtu + extra \<and> length (snd d) \<le> ENET_BUFFER_MAXIMUM"

definition checksum_size :: "host \<Rightarrow> nat" where
  "checksum_size h = (if h_checksum h = None then 0 else 4)"

lemma send_datagram_fits:
  assumes "fits i h"
  shows "\<exists>d. nt_outbox (h_net (snd (send_datagram i h))) = nt_outbox (h_net h) @ [d]
    \<and> datagram_ok (unat (p_mtu (peer_at h i))) (checksum_size h) d"
proof -
  let ?h1 = "upd_peer i (update_loss (h_serviceTime h)) h"
  obtain body h2 where b: "read_buffers ?h1 = (body, h2)" by fastforce
  obtain out h3 where c: "compress_datagram body h2 = (out, h3)" by fastforce
  define body' where "body' = (case out of None \<Rightarrow> body | Some x \<Rightarrow> [x])"
  have b2: "body = map (buffer_bytes ?h1) (tl (h_buffers h))" "h_net h2 = h_net h" "h_checksum h2 = h_checksum h"
    "h_packetSize h2 = h_packetSize h"
    using b by (auto simp: read_buffers_def Let_def)
  have s: "h_packetSize h = 4 + sum_list (map buffer_size (tl (h_buffers h)))" "h_buffers h \<noteq> []"
    "h_packetSize h \<le> unat (p_mtu (peer_at h i))" "length (h_buffers h) \<le> 65"
    using assms by (simp_all add: fits_def view_fits_def fit_view_def max_sizes)
  have body: "length (concat body) \<le> h_packetSize h - 4" using buffers_size [of ?h1 "tl (h_buffers h)"] s(1) b2(1) by simp
  have h3: "h_net h3 = h_net h" "h_checksum h3 = h_checksum h"
    using c b2 by (auto simp: compress_datagram_def Let_def split: if_splits option.splits)
  have "out = Some x \<Longrightarrow> length x < h_packetSize h - 4" for x
    using c b2(4) by (auto simp: compress_datagram_def Let_def sizeofs split: if_splits option.splits)
  then have body': "length (concat body') \<le> h_packetSize h - 4" "length body' + 1 \<le> 65"
    using body s(2,4) b2(1) by (fastforce simp: body'_def split: option.split)+
  let ?header = "finish_header i body h3" let ?h4 = "upd_peer i (\<lambda>p. p\<lparr>p_lastSendTime := h_serviceTime h3\<rparr>) h3"
  have ok: "datagram_ok (unat (p_mtu (peer_at h i))) (checksum_size h) (a, ?header # body')" for a
    using body' s(1,3) finish_header_size [of i body h3] h3(2)
    by (auto simp: datagram_ok_def checksum_size_def max_sizes)
  have "nt_outbox (h_net (snd (enet_socket_send a bs g))) = nt_outbox (h_net g) @ [(a, bs)]" for a bs g
    by (auto simp: enet_socket_send_def Let_def split: list.split)
  then have "nt_outbox (h_net (snd (send_datagram i h))) = nt_outbox (h_net h) @ [(p_address (peer_at ?h4 i), ?header # body')]"
    using h3(1) by (cases out) (simp_all add: send_datagram_def Let_def b c case_prod_beta body'_def)
  then show ?thesis using ok by blast
qed

lemma send_to_peer_fits:
  assumes i: "i < length (h_peers h)" and m: "mtu_ok (p_mtu (peer_at h i))" and s: "all_small (peer_at h i)"
  shows "\<exists>ds. nt_outbox (h_net (snd (snd (send_to_peer event chk i h)))) = nt_outbox (h_net h) @ ds \<and> length ds \<le> 1
    \<and> (\<forall>d \<in> set ds. datagram_ok (unat (p_mtu (peer_at h i))) (checksum_size h) d)"
    (is "\<exists>ds. ?sent (snd (snd (send_to_peer event chk i h))) ds")
proof (cases "p_state (peer_at h i) = Disconnected \<or> p_state (peer_at h i) = Zombie")
  case True
  then show ?thesis by (simp add: send_to_peer_def)
next
  case False
  have same: "\<exists>ds. ?sent g ds" if "h_net g = h_net h" for g using that by (intro exI [of _ "[]"]) simp
  let ?h0 = "begin_datagram h"
  have f0: "fits i ?h0" "h_net ?h0 = h_net h" "h_checksum ?h0 = h_checksum h" "p_mtu (peer_at ?h0 i) = p_mtu (peer_at h i)"
    using i m s by (simp_all add: fits_def view_fits_def fit_view_def begin_datagram_def sizeofs max_sizes mtu_ok_def protocol_limits
        word_le_nat_alt peer_at_def)
  let ?h1 = "enet_protocol_send_acknowledgements i ?h0"
  have p1: "packs i ?h0 ?h1" by (simp add: enet_protocol_send_acknowledgements_def packs_acknowledgements)
  obtain r ev h2 where t: "(if timeouts_due chk i ?h1 then enet_protocol_check_timeouts i event ?h1 else (0, event, ?h1)) = (r, ev, h2)"
    by (metis prod_cases3)
  have n2: "h_net h2 = h_net h" using t p1 f0 net_timeouts [of i event 0 0 "p_sentReliableCommands (peer_at ?h1 i)" ?h1]
    by (auto simp: packs_def enet_protocol_check_timeouts_def split: if_splits)
  show ?thesis
  proof (cases "r = 1")
    case True
    then show ?thesis using False t same [OF n2] by (simp add: send_to_peer_def Let_def)
  next
    case r: False
    have f1: "fits i ?h1" using p1 f0 by (simp add: packs_def)
    have "packs i ?h1 h2"
    proof (cases "timeouts_due chk i ?h1")
      case True
      then have "timeout_loop i event (length []) (length []) (p_sentReliableCommands (peer_at ?h1 i)) ?h1 = (r, ev, h2)"
        using t by (simp add: enet_protocol_check_timeouts_def)
      moreover from this have "r = 0"
        using timeout_loop_spec [OF fits_length [OF f1], of "[]" _ "[]" _ event r ev h2 UNIV] r by auto
      ultimately show ?thesis using packs_timeouts [OF fits_length [OF f1], of "[]" _ "[]"] by simp
    qed (use t in simp)
    then have p2: "packs i ?h0 h2" using p1 packs_trans by blast
    then have "fits i h2" using f0 by (simp add: packs_def)
    note p3 = packs_trans [OF p2 pack_commands_packs [OF this]]
    let ?h3 = "pack_commands i h2"
    have f3: "fits i ?h3" "h_net ?h3 = h_net h" "h_checksum ?h3 = h_checksum h" using p3 f0 by (simp_all add: packs_def)
    have mtu: "p_mtu (peer_at ?h3 i) = p_mtu (peer_at h i)" using p3 f0 by (simp add: packs_def)
    show ?thesis
    proof (cases "h_commands ?h3 = []")
      case True
      then show ?thesis using False r t same [OF f3(2)] by (simp add: send_to_peer_def Let_def)
    next
      case c: False
      obtain d where d: "nt_outbox (h_net (snd (send_datagram i ?h3))) = nt_outbox (h_net h) @ [d]"
        "datagram_ok (unat (p_mtu (peer_at h i))) (checksum_size h) d"
        using send_datagram_fits [OF f3(1)] f3 mtu by (auto simp: checksum_size_def)
      then have "?sent (snd (send_datagram i ?h3)) [d]" by simp
      moreover have "snd (snd (send_to_peer event chk i h)) = snd (send_datagram i ?h3)"
        using False r t c by (simp add: send_to_peer_def Let_def case_prod_beta)
      ultimately show ?thesis by (metis (no_types))
    qed
  qed
qed


section \<open>Nothing reliable is lost\<close>

text \<open>The commands that must arrive, without the times noted with them.\<close>

definition content :: "outgoing_command \<Rightarrow> protocol \<times> nat option \<times> u32 \<times> u16" where
  "content c = (oc_command c, oc_packet c, oc_fragmentOffset c, oc_fragmentLength c)"

definition reliable :: "peer \<Rightarrow> (protocol \<times> nat option \<times> u32 \<times> u16) multiset" where
  "reliable p = image_mset content
     (filter_mset command_acknowledged (mset (p_outgoingCommands p) + mset (p_sentReliableCommands p)))"

text \<open>
  Numbers as \<open>enet_peer_setup_outgoing_command\<close> assigns them: none but droppable packets have
  an unreliable number.
\<close>

definition numbered :: "outgoing_command \<Rightarrow> bool" where
  "numbered c \<longleftrightarrow> (command_acknowledged c \<longrightarrow> oc_unreliableSequenceNumber c = 0)
     \<and> (\<not> command_acknowledged c \<and> oc_packet c \<noteq> None \<longrightarrow> oc_unreliableSequenceNumber c \<noteq> 0)"

definition runs_on :: "nat \<Rightarrow> nat \<Rightarrow> outgoing_command list \<Rightarrow> host \<Rightarrow> bool" where
  "runs_on i k cs h \<longleftrightarrow> i < length (h_peers h) \<and> cs = drop k (p_outgoingCommands (peer_at h i))"

definition queues :: "peer \<Rightarrow> outgoing_command list \<times> outgoing_command list" where
  "queues p = (p_outgoingCommands p, p_sentReliableCommands p)"

lemma reliable_queues: "queues p = queues q \<Longrightarrow> reliable p = reliable q"
  by (simp add: queues_def reliable_def)

lemma put_outgoing_queues: "queues (peer_at (put_outgoing i c h) i) = queues (peer_at h i)"
  "length (h_peers (put_outgoing i c h)) = length (h_peers h)"
proof -
  have p: "h_peers (put_data c (put_command d n h)) = h_peers h" for d n
    by (simp add: put_data_def put_command_def split: option.split)
  then show "length (h_peers (put_outgoing i c h)) = length (h_peers h)" by (simp add: put_outgoing_def)
  show "queues (peer_at (put_outgoing i c h) i) = queues (peer_at h i)"
    by (cases "i < length (h_peers h)") (simp_all add: put_outgoing_def p queues_def peer_at_def upd_peer_def upd_nth_def list_update_beyond)
qed

lemma send_reliable_length [simp]: "length (h_peers (send_reliable_command i k c h)) = length (h_peers h)"
  by (simp add: send_reliable_command_def Let_def)

lemma content_note_sent [simp]: "content (note_sent now p c) = content c" "command_acknowledged (note_sent now p c) = command_acknowledged c"
  by (simp_all add: content_def note_sent_def command_acknowledged_def Let_def)

lemma mset_remove_nth: "k < length q \<Longrightarrow> mset q = add_mset (q ! k) (mset (remove_nth k q))"
proof -
  assume k: "k < length q"
  have "mset q = mset (take k q @ q ! k # drop (Suc k) q)" using k by (simp add: id_take_nth_drop [symmetric])
  then show ?thesis by (simp add: remove_nth_def)
qed

lemma runs_on_first: "runs_on i k (c # cs) h \<Longrightarrow> k < length (p_outgoingCommands (peer_at h i))
    \<and> p_outgoingCommands (peer_at h i) ! k = c \<and> drop k (remove_nth k (p_outgoingCommands (peer_at h i))) = cs"
  using drop_Cons_nth [of c cs k "p_outgoingCommands (peer_at h i)"] drop_remove_nth [of k "p_outgoingCommands (peer_at h i)"]
  by (auto simp: runs_on_def)

lemma reliable_step:
  assumes r: "runs_on i k (c # cs) h"
  defines "h' \<equiv> put_outgoing i c (send_reliable_command i k c h)"
  shows "runs_on i k cs h'" "reliable (peer_at h' i) = reliable (peer_at h i)"
proof -
  have i: "i < length (h_peers h)" using r by (simp add: runs_on_def)
  obtain q where q: "peer_at (send_reliable_command i k c h) i = move_reliable (h_serviceTime h) k c q"
    "p_outgoingCommands q = p_outgoingCommands (peer_at h i)"
    "p_sentReliableCommands q = p_sentReliableCommands (peer_at h i)" using send_reliable_peer [OF i] by blast
  note f = runs_on_first [OF r]
  have h': "queues (peer_at h' i) = (remove_nth k (p_outgoingCommands (peer_at h i)),
      p_sentReliableCommands (peer_at h i) @ [note_sent (h_serviceTime h) q c])"
    unfolding h'_def put_outgoing_queues q(1) by (simp add: queues_def move_reliable_def Let_def q(2,3))
  show "runs_on i k cs h'"
    using h' f i by (simp add: runs_on_def queues_def h'_def put_outgoing_queues)
  have "mset (p_outgoingCommands (peer_at h i)) = add_mset c (mset (remove_nth k (p_outgoingCommands (peer_at h i))))"
    using mset_remove_nth [of k "p_outgoingCommands (peer_at h i)"] f by simp
  then show "reliable (peer_at h' i) = reliable (peer_at h i)"
    using h' by (simp add: reliable_def queues_def)
qed

lemma unreliable_step:
  assumes r: "runs_on i k (c # cs) h" and c: "\<not> command_acknowledged c"
  defines "h' \<equiv> put_outgoing i c (upd_peer i (move_unreliable k c) h)"
  shows "runs_on i k cs h'" "reliable (peer_at h' i) = reliable (peer_at h i)"
proof -
  have i: "i < length (h_peers h)" using r by (simp add: runs_on_def)
  note f = runs_on_first [OF r]
  have h': "queues (peer_at h' i) = (remove_nth k (p_outgoingCommands (peer_at h i)), p_sentReliableCommands (peer_at h i))"
    unfolding h'_def put_outgoing_queues using i by (simp add: queues_def move_unreliable_def)
  show "runs_on i k cs h'"
    using h' f i by (simp add: runs_on_def queues_def h'_def put_outgoing_queues)
  have "mset (p_outgoingCommands (peer_at h i)) = add_mset c (mset (remove_nth k (p_outgoingCommands (peer_at h i))))"
    using mset_remove_nth [of k "p_outgoingCommands (peer_at h i)"] f by simp
  then show "reliable (peer_at h' i) = reliable (peer_at h i)"
    using h' c by (simp add: reliable_def queues_def)
qed

lemma count_throttle_step:
  "runs_on i k cs (upd_peer i count_throttle h) = runs_on i k cs h"
  "reliable (peer_at (upd_peer i count_throttle h) i) = reliable (peer_at h i)"
proof -
  have q: "queues (peer_at (upd_peer i count_throttle h) i) = queues (peer_at h i)"
    by (cases "i < length (h_peers h)") (simp add: count_throttle_def queues_def, simp add: upd_peer_def)
  then show "runs_on i k cs (upd_peer i count_throttle h) = runs_on i k cs h" by (simp add: runs_on_def queues_def)
  show "reliable (peer_at (upd_peer i count_throttle h) i) = reliable (peer_at h i)" using q by (rule reliable_queues)
qed

lemma drop_runs:
  assumes r: "runs_on i k (c # cs) h"
  defines "h' \<equiv> drop_commands i k (c # takeWhile (same_numbers c) cs) h"
    and "q \<equiv> p_outgoingCommands (peer_at h i)"
  shows "runs_on i k (dropWhile (same_numbers c) cs) h'"
    "peer_at h' i = (peer_at h i)\<lparr>p_outgoingCommands := take k q @ dropWhile (same_numbers c) cs\<rparr>"
    "q = take k q @ (c # takeWhile (same_numbers c) cs) @ dropWhile (same_numbers c) cs"
proof -
  let ?run = "takeWhile (same_numbers c) cs"
  have i: "i < length (h_peers h)" and q: "drop k q = c # cs" using r by (simp_all add: runs_on_def q_def)
  have d: "drop (k + length (c # ?run)) q = dropWhile (same_numbers c) cs"
  proof -
    have "drop (k + length (c # ?run)) q = drop (length (c # ?run)) (drop k q)" by (simp add: add.commute)
    also have "\<dots> = drop (length ?run) cs" by (simp add: q)
    also have "\<dots> = dropWhile (same_numbers c) cs" by (simp add: dropWhile_eq_drop)
    finally show ?thesis .
  qed
  show h': "peer_at h' i = (peer_at h i)\<lparr>p_outgoingCommands := take k q @ dropWhile (same_numbers c) cs\<rparr>"
    using i d by (simp add: h'_def drop_commands_def q_def)
  have k: "k \<le> length q" using q by (metis drop_all list.distinct(1) nat_le_linear)
  show "runs_on i k (dropWhile (same_numbers c) cs) h'"
    unfolding runs_on_def h' using i k by (simp add: h'_def drop_commands_def)
  show "q = take k q @ (c # ?run) @ dropWhile (same_numbers c) cs"
    using append_take_drop_id [of k q] q by simp
qed

lemma drop_step:
  assumes r: "runs_on i k (c # cs) h" and c: "\<not> command_acknowledged c" "starts_packet c" "\<forall>d \<in> set (c # cs). numbered d"
  defines "h' \<equiv> drop_commands i k (c # takeWhile (same_numbers c) cs) h"
  shows "runs_on i k (dropWhile (same_numbers c) cs) h'" "reliable (peer_at h' i) = reliable (peer_at h i)"
proof -
  let ?run = "takeWhile (same_numbers c) cs" let ?q = "p_outgoingCommands (peer_at h i)"
  show "runs_on i k (dropWhile (same_numbers c) cs) h'" unfolding h'_def by (rule drop_runs(1) [OF r])
  have "oc_unreliableSequenceNumber c \<noteq> 0" using c by (simp add: numbered_def starts_packet_def)
  then have "\<forall>d \<in> set (c # ?run). \<not> command_acknowledged d"
    using c by (auto simp: numbered_def same_numbers_def dest: set_takeWhileD)
  then have "filter command_acknowledged ?run = []" by (simp add: filter_empty_conv)
  then have "filter_mset command_acknowledged (mset ?run) = {#}" by (metis mset_filter mset.simps(1))
  moreover have "mset ?q = mset (take k ?q) + (mset (c # ?run) + mset (dropWhile (same_numbers c) cs))"
    using drop_runs(3) [OF r] by (metis mset_append)
  ultimately show "reliable (peer_at h' i) = reliable (peer_at h i)"
    using drop_runs(2) [OF r] c(1) by (simp add: reliable_def h'_def)
qed


lemma outgoing_loop_reliable:
  "runs_on i k cs h \<Longrightarrow> \<forall>c \<in> set cs. numbered c \<Longrightarrow>
    reliable (peer_at (snd (outgoing_loop i k e w g cs h)) i) = reliable (peer_at h i)
    \<and> length (h_peers (snd (outgoing_loop i k e w g cs h))) = length (h_peers h)"
proof (induction cs arbitrary: k e w g h rule: length_induct)
  case (1 cs)
  define Q where "Q = (\<lambda>r :: bool \<times> host. reliable (peer_at (snd r) i) = reliable (peer_at h i)
    \<and> length (h_peers (snd r)) = length (h_peers h))"
  define S where "S = (\<lambda>cs :: outgoing_command list. \<forall>c \<in> set cs. numbered c)"
  have ifQ: "(b \<Longrightarrow> Q x) \<Longrightarrow> (\<not> b \<Longrightarrow> Q y) \<Longrightarrow> Q (if b then x else y)" for b x y by simp
  show ?case
  proof (cases cs)
    case Nil
    then show ?thesis by simp
  next
    case (Cons c cs')
    have s: "S (c # cs')" "S cs'" "S (dropWhile (same_numbers c) cs')" using "1.prems"(2) Cons by (auto simp: S_def dest: set_dropWhileD)
    define R where "R = (\<lambda>h' :: host. reliable (peer_at h' i) = reliable (peer_at h i) \<and> i < length (h_peers h')
      \<and> length (h_peers h') = length (h_peers h))"
    have IH: "Q (outgoing_loop i k' e' w' g' rest h')"
      if "length rest \<le> length cs'" "S rest" "runs_on i k' rest h'" "R h'" for k' e' w' g' rest h'
      using "1.IH" that Cons by (auto simp: Q_def S_def R_def less_Suc_eq_le)
    have r: "runs_on i k (c # cs') h" using "1.prems"(1) Cons by simp
    have i: "i < length (h_peers h)" using r by (simp add: runs_on_def)
    let ?h = "if starts_packet c then upd_peer i count_throttle h else h"
    have ct: "runs_on i k (c # cs') ?h" "reliable (peer_at ?h i) = reliable (peer_at h i)" "length (h_peers ?h) = length (h_peers h)"
      using r by (simp_all add: count_throttle_step)
    have skip: "runs_on i (Suc k) cs' h" "R h" using r i drop_Cons_nth [of c cs' k "p_outgoingCommands (peer_at h i)"]
      by (auto simp: runs_on_def R_def)
    have rel: "runs_on i k cs' (put_outgoing i c (send_reliable_command i k c h))" "R (put_outgoing i c (send_reliable_command i k c h))"
      using reliable_step [OF r] i by (simp_all add: R_def put_outgoing_queues)
    have unrel: "runs_on i k cs' (put_outgoing i c (upd_peer i (move_unreliable k c) ?h))"
        "R (put_outgoing i c (upd_peer i (move_unreliable k c) ?h))" if "\<not> command_acknowledged c"
      using unreliable_step [OF ct(1) that] ct(2,3) i by (simp_all add: R_def put_outgoing_queues)
    have run: "runs_on i k (dropWhile (same_numbers c) cs') (drop_commands i k (c # takeWhile (same_numbers c) cs') ?h)"
        "R (drop_commands i k (c # takeWhile (same_numbers c) cs') ?h)" if "\<not> command_acknowledged c" "starts_packet c"
      using drop_step [OF ct(1) that] s(1) ct(2,3) i that by (simp_all add: R_def S_def drop_commands_def)
    have stop: "Q (b, h\<lparr>h_continueSending := True\<rparr>)" for b by (simp add: Q_def peer_at_def)
    have "Q (outgoing_loop i k e w g (c # cs') h)"
      unfolding outgoing_loop.simps(2) Let_def
      by (intro ifQ IH stop) (use s skip rel unrel run length_dropWhile_le in \<open>simp_all only: simp_thms order_refl\<close>)
    then show ?thesis using Cons by (simp add: Q_def)
  qed
qed

section \<open>Properties\<close>





end
