(* ===== verification/Enet_Progress.thy ===== *)
theory Enet_Progress
  imports Enet_Sending
begin

text \<open>
  Sending comes to an end: the loop of \<open>enet_protocol_send_outgoing_commands\<close> goes on as long as
  some datagram was full, and every full datagram takes something off the queues.
\<close>

section \<open>What a round for one peer may touch\<close>

definition only :: "nat \<Rightarrow> host \<Rightarrow> host \<Rightarrow> bool" where
  "only i h h' \<longleftrightarrow> length (h_peers h') = length (h_peers h) \<and> (\<forall>j. j \<noteq> i \<longrightarrow> peer_at h' j = peer_at h j)
     \<and> h_serviceTime h' = h_serviceTime h \<and> h_hung h' = h_hung h \<and> h_mtu h' = h_mtu h"

lemma only_refl [simp]: "only i h h"
  by (simp add: only_def)

lemma only_trans [trans]: "only i h h1 \<Longrightarrow> only i h1 h2 \<Longrightarrow> only i h h2"
  by (simp add: only_def)

lemma only_host: "h_peers h' = h_peers h \<Longrightarrow> h_serviceTime h' = h_serviceTime h \<Longrightarrow> h_hung h' = h_hung h \<Longrightarrow>
    h_mtu h' = h_mtu h \<Longrightarrow> only i h h'"
  by (simp add: only_def peer_at_def)

lemma only_peer [simp]: "only i h (upd_peer i f h)"
  by (simp add: only_def)

lemma only_mem [simp]: "only i h (upd_mem f h)" "only i h (h\<lparr>h_mem := m\<rparr>)" "only i h (snd (host_malloc h))"
  by (rule only_host; simp add: upd_mem_def host_malloc_def split: prod.split)+

lemma only_counts [simp]: "only i h (enet_peer_on_connect i h)" "only i h (enet_peer_on_disconnect i h)"
  by (rule only_host; simp add: enet_peer_on_connect_def enet_peer_on_disconnect_def Let_def)+

lemma only_change_state [simp]: "only i h (enet_protocol_change_state i s h)"
  unfolding enet_protocol_change_state_def by (rule only_trans [OF _ only_peer]) simp

lemma only_mark [simp]: "only i h (mark_dispatch i h)"
proof -
  have m: "only i h (h\<lparr>h_linkFault := a, h_dispatchQueue := q\<rparr>)" for a q by (rule only_host) simp_all
  show ?thesis using only_trans [OF m only_peer] by (simp add: mark_dispatch_def)
qed

lemma only_dispatch_state [simp]: "only i h (enet_protocol_dispatch_state i s h)"
  unfolding enet_protocol_dispatch_state_def by (rule only_trans [OF only_change_state only_mark])

lemma only_queue_outgoing [simp]: "only i h (snd (enet_peer_queue_outgoing_command i c packet off n h))"
proof -
  obtain ok h1 where m: "host_malloc h = (ok, h1)" by fastforce
  have "only i h h1" using only_mem(3) [of i h] m by simp
  then show ?thesis
    by (simp add: enet_peer_queue_outgoing_command_def m Let_def) (metis only_trans only_mem(1) only_peer)
qed

lemma only_reset_queues [simp]: "only i h (enet_peer_reset_queues i h)"
proof (rule reset_queues_eq [of i h])
  fix m q g
  assume e: "enet_peer_reset_queues i h = upd_peer i (\<lambda>p. p\<lparr>p_flags := g (p_flags p), p_acknowledgements := [],
       p_sentReliableCommands := [], p_sentUnreliableCommands := [], p_outgoingCommands := [],
       p_dispatchedCommands := [], p_channels := [], p_channelCount := 0\<rparr>)
       (h\<lparr>h_dispatchQueue := q, h_mem := m\<rparr>)"
  have "only i h (h\<lparr>h_dispatchQueue := q, h_mem := m\<rparr>)" by (rule only_host) simp_all
  then show ?thesis unfolding e by (rule only_trans) simp
qed

lemma only_reset [simp]: "only i h (enet_peer_reset i h)"
proof -
  let ?d = "enet_peer_on_disconnect i h"
  have "only i h (upd_peer i (reset_fields ?d) ?d)" by (rule only_trans [OF only_counts(2) only_peer])
  then show ?thesis unfolding enet_peer_reset_def Let_def by (rule only_trans) simp
qed

lemma only_disconnect [simp]: "only i h (enet_peer_disconnect (\<lambda>h. h) i d h)"
proof -
  have q: "only i h (snd (enet_peer_queue_outgoing_command i c None 0 0 (enet_peer_reset_queues i h)))" for c
    by (rule only_trans [OF only_reset_queues only_queue_outgoing])
  show ?thesis
    using only_trans [OF only_trans [OF q only_counts(2)] only_peer] only_trans [OF q only_reset]
    by (simp add: enet_peer_disconnect_def Let_def)
qed

lemma only_ping [simp]: "only i h (enet_peer_ping i h)"
  by (simp add: enet_peer_ping_def)

lemma only_put_command [simp]: "only i h (put_command c n h)"
  by (rule only_host) (simp_all add: put_command_def)

lemma only_continue [simp]: "only i h (h\<lparr>h_continueSending := b\<rparr>)"
  by (rule only_host) simp_all

lemma only_put_outgoing [simp]: "only i h (put_outgoing i c h)"
proof -
  have "only i g (put_data c g)" for g
    by (cases "oc_packet c") (simp_all add: put_data_def only_host upd_mem_def)
  then show ?thesis
    unfolding put_outgoing_def using only_trans [OF only_trans [OF only_put_command]] only_peer by blast
qed

lemma only_send_reliable [simp]: "only i h (send_reliable_command i k c h)"
proof -
  have s: "only i g (upd_peer i f (g\<lparr>h_headerFlags := w\<rparr>))" for f w g
    by (rule only_trans [OF only_host only_peer]) simp_all
  have "only i h (if b then upd_peer i f h else h)" for b f by simp
  from only_trans [OF this s] show ?thesis unfolding send_reliable_command_def Let_def .
qed

lemma only_drop [simp]: "only i h (drop_commands i k run h)"
  unfolding drop_commands_def by (rule only_trans [OF only_mem(1) only_peer])

lemma only_set_next_timeout [simp]: "only i h (set_next_timeout i h)"
  by (simp add: set_next_timeout_def split: list.split)

section \<open>How much there is to send\<close>

text \<open>
  A command that waits for an acknowledgement and is overdue can come back into the queue, a ping
  and a disconnect can join it; the numbers leave room for them.
\<close>

definition weight :: "outgoing_command \<Rightarrow> nat" where
  "weight c = (if command_acknowledged c then 1 else 2)"

definition pending :: "u32 \<Rightarrow> peer \<Rightarrow> nat" where
  "pending now p = 2 * length (p_acknowledgements p) + sum_list (map weight (p_outgoingCommands p))
     + 4 * length (filter (overdue now) (p_sentReliableCommands p))
     + (if p_sentReliableCommands p = [] then 2 else 0) + of_bool (p_state p = Disconnect_Later)"

lemma sum_weights_le: "sum_list (map weight cs) \<le> 2 * length cs"
  by (induction cs) (simp_all add: weight_def)

lemma pending_le_work: "pending now p \<le> send_work p"
proof -
  have "length (filter (overdue now) (p_sentReliableCommands p)) \<le> length (p_sentReliableCommands p)"
    by (rule length_filter_le)
  then have "pending now p \<le> 2 * length (p_acknowledgements p) + 2 * length (p_outgoingCommands p)
      + 4 * length (p_sentReliableCommands p) + 2 + 1"
    unfolding pending_def using sum_weights_le [of "p_outgoingCommands p"]
    by (intro add_mono mult_le_mono) simp_all
  then show ?thesis by (simp add: send_work_def)
qed

text \<open>Every command fits into a datagram, and a command that was sent is not overdue at once.\<close>

definition sendable :: "peer \<Rightarrow> bool" where
  "sendable p \<longleftrightarrow> mtu_ok (p_mtu p) \<and> p_channelCount p \<le> 255 \<and> p_roundTripTime p + 4 * p_roundTripTimeVariance p \<noteq> 0
     \<and> (\<forall>c \<in> set (p_outgoingCommands p) \<union> set (p_sentReliableCommands p). alone (p_mtu p) c)"

lemma sendable_small: "sendable p \<Longrightarrow> all_small p"
proof -
  assume s: "sendable p"
  then have "unat (p_mtu p) \<le> 4096" using mtu_bounds by (simp add: sendable_def)
  moreover have "alone (p_mtu p) c" if "c \<in> set (p_outgoingCommands p) \<union> set (p_sentReliableCommands p)" for c
    using s that by (simp add: sendable_def)
  ultimately show ?thesis unfolding all_small_def small_def by (fastforce simp: alone_def)
qed

section \<open>One step of packing\<close>

definition ready :: "nat \<Rightarrow> host \<Rightarrow> bool" where
  "ready i h \<longleftrightarrow> fits i h \<and> sendable (peer_at h i) \<and> (h_commands h = [] \<longrightarrow> length (h_buffers h) = 1)"

text \<open>
  What a step puts into the datagram is paid for: a command costs at least one, two as long as no
  reliable command is on its way, and the first reliable one costs two more.
\<close>

definition paid :: "nat \<Rightarrow> host \<Rightarrow> host \<Rightarrow> bool" where
  "paid i h h' \<longleftrightarrow>
    (let p = peer_at h i; q = peer_at h' i; now = h_serviceTime h;
         n = length (h_commands h); m = length (h_commands h')
     in n \<le> m \<and>
        (if p_sentReliableCommands q = [] then p_sentReliableCommands p = [] \<and> pending now q + 2 * m \<le> pending now p + 2 * n
         else pending now q + m + (if p_sentReliableCommands p = [] then 2 else 0) \<le> pending now p + n))"

lemma paid_refl [simp]: "paid i h h"
  by (simp add: paid_def)

lemma paid_trans:
  assumes "paid i h h1" "paid i h1 h2" "h_serviceTime h1 = h_serviceTime h"
  shows "paid i h h2"
  using assms by (auto simp: paid_def Let_def split: if_splits)

definition progresses :: "nat \<Rightarrow> host \<Rightarrow> host \<Rightarrow> bool" where
  "progresses i h h' \<longleftrightarrow> only i h h' \<and> (ready i h \<longrightarrow> ready i h' \<and> paid i h h'
     \<and> (h_continueSending h' \<longrightarrow> h_continueSending h \<or> h_commands h' \<noteq> []))"

lemma progress_refl [simp]: "progresses i h h"
  by (simp add: progresses_def)

lemma progress_trans:
  assumes "progresses i h h1" "progresses i h1 h2"
  shows "progresses i h h2"
proof -
  have "ready i h2 \<and> paid i h h2 \<and> (h_continueSending h2 \<longrightarrow> h_continueSending h \<or> h_commands h2 \<noteq> [])" if "ready i h"
  proof -
    have 1: "ready i h1" "paid i h h1" "h_continueSending h1 \<longrightarrow> h_continueSending h \<or> h_commands h1 \<noteq> []"
      "h_serviceTime h1 = h_serviceTime h" using assms(1) that by (simp_all add: progresses_def only_def)
    have 2: "ready i h2" "paid i h1 h2" "h_continueSending h2 \<longrightarrow> h_continueSending h1 \<or> h_commands h2 \<noteq> []"
      using assms(2) 1 by (simp_all add: progresses_def)
    have "h_commands h1 \<noteq> [] \<longrightarrow> h_commands h2 \<noteq> []" using 2(2) by (auto simp: paid_def Let_def)
    then show ?thesis using paid_trans [OF 1(2) 2(2) 1(4)] 1 2 by blast
  qed
  moreover have "only i h h2" using assms by (auto simp: progresses_def intro: only_trans)
  ultimately show ?thesis by (simp add: progresses_def)
qed

text \<open>Where there is no room for a command that fits alone, something was put before it.\<close>

lemma no_room_nonempty:
  assumes "ready i h" "no_room i c h" "alone (p_mtu (peer_at h i)) c"
  shows "h_commands h \<noteq> []"
proof
  assume e: "h_commands h = []"
  then have b: "length (h_buffers h) = 1" and f: "fits i h" using assms(1) by (simp_all add: ready_def)
  have "h_packetSize h = 4"
    using f b by (cases "h_buffers h") (simp_all add: fits_def view_fits_def fit_view_def)
  then have r: "room i h = unat (p_mtu (peer_at h i)) - 4" "room i h < 65536" using room_eq [OF f] by simp_all
  have s: "size_of c + unat (oc_fragmentLength c) \<le> room i h" using assms(3) r(1) by (simp add: alone_def)
  have "unat (of_nat (room i h) :: u16) = room i h" "unat (of_nat (size_of c + unat (oc_fragmentLength c)) :: u16)
      = size_of c + unat (oc_fragmentLength c)"
    using s r(2) by (simp_all only: unat_of_nat) simp_all
  then show False using assms(2) s e b by (simp add: no_room_def max_sizes word_less_nat_alt)
qed

section \<open>The steps of the loop over the commands\<close>

definition timeout_of :: "peer \<Rightarrow> u32" where
  "timeout_of p = p_roundTripTime p + 4 * p_roundTripTimeVariance p"

definition send_view :: "peer \<Rightarrow> acknowledgement list \<times> outgoing_command list \<times> outgoing_command list \<times> peer_state \<times> u32 \<times> u32 \<times> nat" where
  "send_view p = (p_acknowledgements p, p_outgoingCommands p, p_sentReliableCommands p, p_state p, p_mtu p, timeout_of p, p_channelCount p)"

lemma send_view_same:
  assumes "send_view p = send_view q"
  shows "pending now p = pending now q" "sendable p = sendable q"
  using assms by (simp_all add: send_view_def pending_def sendable_def timeout_of_def)

lemma sum_weights_remove: "k < length q \<Longrightarrow> sum_list (map weight q) = weight (q ! k) + sum_list (map weight (remove_nth k q))"
proof -
  assume "k < length q"
  then have "image_mset weight (mset q) = add_mset (weight (q ! k)) (image_mset weight (mset (remove_nth k q)))"
    using mset_remove_nth [of k q] by simp
  then have "sum_mset (image_mset weight (mset q)) = weight (q ! k) + sum_mset (image_mset weight (mset (remove_nth k q)))"
    by simp
  then show ?thesis by (simp flip: sum_mset_sum_list)
qed

lemma put_outgoing_view:
  "send_view (peer_at (put_outgoing i c h) i) = send_view (peer_at h i)"
  "h_commands (put_outgoing i c h) = h_commands h @ [oc_command c]"
  "h_continueSending (put_outgoing i c h) = h_continueSending h"
proof -
  let ?g = "put_data c (put_command (oc_command c) (size_of c) h)"
  have p: "h_peers ?g = h_peers h" "h_commands ?g = h_commands h @ [oc_command c]" "h_continueSending ?g = h_continueSending h"
    by (simp_all add: put_data_def put_command_def upd_mem_def split: option.split)
  then show "h_commands (put_outgoing i c h) = h_commands h @ [oc_command c]"
    "h_continueSending (put_outgoing i c h) = h_continueSending h" by (simp_all add: put_outgoing_def upd_peer_def)
  have "peer_at ?g i = peer_at h i" using p(1) by (simp add: peer_at_def)
  then show "send_view (peer_at (put_outgoing i c h) i) = send_view (peer_at h i)"
    by (cases "i < length (h_peers h)")
      (simp_all add: put_outgoing_def p(1) send_view_def timeout_of_def upd_peer_def upd_nth_def list_update_beyond peer_at_def)
qed

lemma note_sent_quiet: "timeout_of p \<noteq> 0 \<Longrightarrow> \<not> overdue now (note_sent now p c)"
  by (simp add: overdue_def note_sent_def Let_def timeout_of_def ENET_TIME_DIFFERENCE_def word_gt_0)

lemma note_sent_alone [simp]: "alone m (note_sent now p c) = alone m c"
  by (simp add: alone_def size_of_def note_sent_def Let_def)

lemma send_reliable_pays:
  assumes i: "i < length (h_peers h)"
  obtains q where "timeout_of q = timeout_of (peer_at h i)"
    "send_view (peer_at (send_reliable_command i k c h) i) = (p_acknowledgements (peer_at h i),
       remove_nth k (p_outgoingCommands (peer_at h i)),
       p_sentReliableCommands (peer_at h i) @ [note_sent (h_serviceTime h) q c],
       p_state (peer_at h i), p_mtu (peer_at h i), timeout_of (peer_at h i), p_channelCount (peer_at h i))"
    "h_commands (send_reliable_command i k c h) = h_commands h"
    "h_continueSending (send_reliable_command i k c h) = h_continueSending h"
proof
  let ?g = "if command_channel c < p_channelCount (peer_at h i) \<and> oc_sendAttempts c < 1
    then upd_peer i (upd_channel (command_channel c) (use_window (window_of (oc_reliableSequenceNumber c)))) h else h"
  have g: "h_serviceTime ?g = h_serviceTime h" "i < length (h_peers ?g)" using i by simp_all
  have "peer_at (upd_peer i f (g\<lparr>h_headerFlags := w\<rparr>)) i = f (peer_at g i)" if "i < length (h_peers g)" for f g w
    using that by (simp add: peer_at_def)
  from this [OF g(2)] have p: "peer_at (send_reliable_command i k c h) i = move_reliable (h_serviceTime h) k c (peer_at ?g i)"
    unfolding send_reliable_command_def Let_def g(1) .
  have v: "send_view (peer_at ?g i) = send_view (peer_at h i)"
    using i by (simp add: send_view_def upd_channel_def timeout_of_def)
  then show "timeout_of (peer_at ?g i) = timeout_of (peer_at h i)" by (simp add: send_view_def)
  show "send_view (peer_at (send_reliable_command i k c h) i) = (p_acknowledgements (peer_at h i),
       remove_nth k (p_outgoingCommands (peer_at h i)),
       p_sentReliableCommands (peer_at h i) @ [note_sent (h_serviceTime h) (peer_at ?g i) c],
       p_state (peer_at h i), p_mtu (peer_at h i), timeout_of (peer_at h i), p_channelCount (peer_at h i))"
    unfolding p using v by (simp add: send_view_def move_reliable_def Let_def timeout_of_def)
qed (simp_all add: send_reliable_command_def Let_def)

lemma progress_reliable:
  assumes r: "runs_on i k (c # cs) h" and room: "\<not> no_room i c h" and c: "command_acknowledged c"
  defines "h' \<equiv> put_outgoing i c (send_reliable_command i k c h)"
  shows "progresses i h h'" "ready i h \<Longrightarrow> p_sentReliableCommands (peer_at h' i) \<noteq> []"
proof -
  have i: "i < length (h_peers h)" using r by (simp add: runs_on_def)
  note f = runs_on_first [OF r]
  let ?p = "peer_at h i"
  obtain q where q: "timeout_of q = timeout_of ?p"
    "send_view (peer_at (send_reliable_command i k c h) i) = (p_acknowledgements ?p, remove_nth k (p_outgoingCommands ?p),
       p_sentReliableCommands ?p @ [note_sent (h_serviceTime h) q c], p_state ?p, p_mtu ?p, timeout_of ?p, p_channelCount ?p)"
    "h_commands (send_reliable_command i k c h) = h_commands h"
    "h_continueSending (send_reliable_command i k c h) = h_continueSending h"
    using send_reliable_pays [OF i] by metis
  have v: "send_view (peer_at h' i) = (p_acknowledgements ?p, remove_nth k (p_outgoingCommands ?p),
       p_sentReliableCommands ?p @ [note_sent (h_serviceTime h) q c], p_state ?p, p_mtu ?p, timeout_of ?p, p_channelCount ?p)"
    and h': "h_commands h' = h_commands h @ [oc_command c]" "h_continueSending h' = h_continueSending h"
    by (simp_all add: h'_def put_outgoing_view q)
  have o: "only i h h'" unfolding h'_def by (rule only_trans [OF only_send_reliable only_put_outgoing])
  have "ready i h' \<and> paid i h h'" if a: "ready i h"
  proof -
    have s: "sendable ?p" and fit: "fits i h" using a by (simp_all add: ready_def)
    have "c \<in> set (p_outgoingCommands ?p)" using f by (metis nth_mem)
    then have al: "alone (p_mtu ?p) c" using s by (simp add: sendable_def)
    have sm: "small c" using sendable_small [OF s] \<open>c \<in> set _\<close> by (simp add: all_small_def)
    have "sendable (peer_at h' i)"
      using s v al set_remove_nth [of k "p_outgoingCommands ?p"]
      by (auto simp: sendable_def send_view_def timeout_of_def)
    moreover have "fits i h'" using packs_reliable [OF sm room, of k] fit by (simp add: packs_def h'_def)
    moreover have "\<not> overdue (h_serviceTime h) (note_sent (h_serviceTime h) q c)"
      using note_sent_quiet q(1) s by (simp add: sendable_def timeout_of_def)
    then have "pending (h_serviceTime h) (peer_at h' i) + 1 + (if p_sentReliableCommands ?p = [] then 2 else 0)
        = pending (h_serviceTime h) ?p"
      using v sum_weights_remove [of k "p_outgoingCommands ?p"] f c
      by (simp add: pending_def send_view_def weight_def)
    moreover have "p_sentReliableCommands (peer_at h' i) \<noteq> []" using v by (simp add: send_view_def)
    ultimately show ?thesis using h' by (simp add: ready_def paid_def Let_def)
  qed
  then show "progresses i h h'" using o h' by (simp add: progresses_def)
  show "p_sentReliableCommands (peer_at h' i) \<noteq> []" using v by (simp add: send_view_def)
qed

lemma count_throttle_view:
  assumes "h' = h \<or> h' = upd_peer i count_throttle h"
  shows "send_view (peer_at h' i) = send_view (peer_at h i)" "h_commands h' = h_commands h"
    "h_continueSending h' = h_continueSending h" "only i h h'" "runs_on i k cs h' = runs_on i k cs h"
proof -
  show "send_view (peer_at h' i) = send_view (peer_at h i)"
    using assms by (cases "i < length (h_peers h)")
      (auto simp: send_view_def count_throttle_def timeout_of_def, auto simp: upd_peer_def)
  show "h_commands h' = h_commands h" "h_continueSending h' = h_continueSending h"
    using assms by (auto simp: upd_peer_def)
  show "only i h h'" "runs_on i k cs h' = runs_on i k cs h" using assms by (auto simp: count_throttle_step)
qed

lemma progress_unreliable:
  assumes r: "runs_on i k (c # cs) h" and room: "\<not> no_room i c h" and c: "\<not> command_acknowledged c"
    and g: "g = h \<or> g = upd_peer i count_throttle h"
  defines "h' \<equiv> put_outgoing i c (upd_peer i (move_unreliable k c) g)"
  shows "progresses i h h'" "h_commands h' \<noteq> []" "runs_on i k cs h'"
proof -
  have i: "i < length (h_peers h)" using r by (simp add: runs_on_def)
  then have ig: "i < length (h_peers g)" using g by auto
  note t = count_throttle_view [OF g]
  note f = runs_on_first [OF r]
  let ?p = "peer_at h i"
  have v: "send_view (peer_at h' i) = (p_acknowledgements ?p, remove_nth k (p_outgoingCommands ?p),
       p_sentReliableCommands ?p, p_state ?p, p_mtu ?p, timeout_of ?p, p_channelCount ?p)"
    unfolding h'_def put_outgoing_view using ig t(1) by (simp add: send_view_def move_unreliable_def timeout_of_def)
  have h': "h_commands h' = h_commands h @ [oc_command c]" "h_continueSending h' = h_continueSending h"
    using t(2,3) by (simp_all add: h'_def put_outgoing_view)
  have o: "only i h h'" unfolding h'_def using only_trans [OF only_trans [OF t(4) only_peer] only_put_outgoing] .
  have "ready i h' \<and> paid i h h'" if a: "ready i h"
  proof -
    have s: "sendable ?p" and fit: "fits i h" using a by (simp_all add: ready_def)
    have "c \<in> set (p_outgoingCommands ?p)" using f by (metis nth_mem)
    then have sm: "small c" using sendable_small [OF s] by (simp add: all_small_def)
    have "sendable (peer_at h' i)"
      using s v set_remove_nth [of k "p_outgoingCommands ?p"] by (auto simp: sendable_def send_view_def timeout_of_def)
    moreover have "fits i h'" using packs_unreliable [OF sm room g, of k] fit by (simp add: packs_def h'_def)
    moreover have "pending (h_serviceTime h) (peer_at h' i) + 2 = pending (h_serviceTime h) ?p"
      using v sum_weights_remove [of k "p_outgoingCommands ?p"] f c by (simp add: pending_def send_view_def weight_def)
    moreover have "p_sentReliableCommands (peer_at h' i) = p_sentReliableCommands ?p" using v by (simp add: send_view_def)
    ultimately show ?thesis using h' by (simp add: ready_def paid_def Let_def)
  qed
  then show "progresses i h h'" using o h' by (simp add: progresses_def)
  show "h_commands h' \<noteq> []" using h' by simp
  show "runs_on i k cs h'" unfolding h'_def
    by (rule unreliable_step(1) [OF _ c]) (use r t(5) in simp)
qed

lemma progress_drop:
  assumes r: "runs_on i k (c # cs) h" and c: "\<not> command_acknowledged c"
    and g: "g = h \<or> g = upd_peer i count_throttle h"
  defines "h' \<equiv> drop_commands i k (c # takeWhile (same_numbers c) cs) g"
  shows "progresses i h h'" "pending now (peer_at h' i) < pending now (peer_at h i)"
    "runs_on i k (dropWhile (same_numbers c) cs) h'"
proof -
  note t = count_throttle_view [OF g]
  have rg: "runs_on i k (c # cs) g" using r t(5) by simp
  note d = drop_runs [OF rg]
  let ?p = "peer_at h i" let ?run = "takeWhile (same_numbers c) cs" let ?q = "p_outgoingCommands (peer_at h i)"
  have q: "p_outgoingCommands (peer_at g i) = ?q" using t(1) by (simp add: send_view_def)
  have v: "send_view (peer_at h' i) = (p_acknowledgements ?p, take k ?q @ dropWhile (same_numbers c) cs,
       p_sentReliableCommands ?p, p_state ?p, p_mtu ?p, timeout_of ?p, p_channelCount ?p)"
    unfolding h'_def d(2) using t(1) by (simp add: send_view_def timeout_of_def)
  have e: "?q = take k ?q @ (c # ?run) @ dropWhile (same_numbers c) cs" using d(3) unfolding q .
  have "sum_list (map weight cs) = sum_list (map weight ?run) + sum_list (map weight (dropWhile (same_numbers c) cs))"
    by (metis takeWhile_dropWhile_id map_append sum_list_append)
  then have "sum_list (map weight ?q) = sum_list (map weight (take k ?q @ dropWhile (same_numbers c) cs)) + 2
      + sum_list (map weight ?run)"
    using arg_cong [OF e, of "\<lambda>q. sum_list (map weight q)"] c by (simp add: weight_def)
  then show l: "pending now (peer_at h' i) < pending now ?p" for now
    using v by (simp add: pending_def send_view_def)
  have h': "h_commands h' = h_commands h" "h_continueSending h' = h_continueSending h" "h_buffers h' = h_buffers h"
    using t(2,3) g by (auto simp: h'_def drop_commands_def upd_peer_def upd_mem_def)
  have "only i h h'" unfolding h'_def by (rule only_trans [OF t(4) only_drop])
  moreover have "ready i h'" if a: "ready i h"
  proof -
    have "set (take k ?q @ dropWhile (same_numbers c) cs) \<subseteq> set ?q" by (subst (2) e) (auto dest: set_dropWhileD)
    then have "sendable (peer_at h' i)"
      using a v by (auto simp: ready_def sendable_def send_view_def timeout_of_def)
    moreover have "fits i h'" using packs_drop [OF g] a by (simp add: packs_def h'_def ready_def)
    ultimately show ?thesis using a h' by (simp add: ready_def)
  qed
  moreover have "paid i h h'"
    using l [of "h_serviceTime h"] v h' by (auto simp: paid_def Let_def send_view_def)
  ultimately show "progresses i h h'" using h' by (simp add: progresses_def)
  show "runs_on i k (dropWhile (same_numbers c) cs) h'" using d(1) by (simp add: h'_def)
qed

text \<open>Something was sent or dropped.\<close>

definition moved :: "nat \<Rightarrow> host \<Rightarrow> host \<Rightarrow> bool" where
  "moved i h h' \<longleftrightarrow> p_sentReliableCommands (peer_at h' i) \<noteq> [] \<or> h_commands h' \<noteq> []
     \<or> pending (h_serviceTime h) (peer_at h' i) < pending (h_serviceTime h) (peer_at h i)"

lemma moved_progress:
  assumes "moved i h h1" "progresses i h h1" "progresses i h1 h2" "ready i h"
  shows "moved i h h2"
proof -
  have r: "ready i h1" "h_serviceTime h1 = h_serviceTime h" using assms(2,4) by (simp_all add: progresses_def only_def)
  then have p: "paid i h1 h2" using assms(3) by (simp add: progresses_def)
  have "pending (h_serviceTime h) (peer_at h2 i) \<le> pending (h_serviceTime h) (peer_at h1 i)"
    "h_commands h1 \<noteq> [] \<longrightarrow> h_commands h2 \<noteq> []"
    "p_sentReliableCommands (peer_at h1 i) \<noteq> [] \<longrightarrow> p_sentReliableCommands (peer_at h2 i) \<noteq> []"
    using p r(2) by (auto simp: paid_def Let_def split: if_splits)
  then show ?thesis using assms(1) by (auto simp: moved_def)
qed

text \<open>A command the windows do not hold back.\<close>

definition insistent :: "peer \<Rightarrow> outgoing_command \<Rightarrow> bool" where
  "insistent p c \<longleftrightarrow> command_acknowledged c \<and> oc_packet c = None \<and> \<not> command_channel c < p_channelCount p"

definition loop_result :: "nat \<Rightarrow> outgoing_command list \<Rightarrow> host \<Rightarrow> host \<Rightarrow> bool" where
  "loop_result i cs h h' \<longleftrightarrow> progresses i h h' \<and> (ready i h \<and> (\<exists>c \<in> set cs. insistent (peer_at h i) c) \<longrightarrow> moved i h h')"

lemma loop_result_step:
  assumes "progresses i h h1" "ready i h \<Longrightarrow> moved i h h1" "loop_result i cs' h1 h2"
  shows "loop_result i cs h h2"
  using assms progress_trans moved_progress by (auto simp: loop_result_def)

lemma loop_result_skip:
  assumes "loop_result i cs h h'" "\<not> insistent (peer_at h i) c"
  shows "loop_result i (c # cs) h h'"
  using assms by (simp add: loop_result_def)

lemma loop_result_stop:
  assumes "runs_on i k (c # cs) h" "no_room i c h"
  shows "loop_result i (c # cs) h (h\<lparr>h_continueSending := True\<rparr>)"
proof -
  let ?h = "h\<lparr>h_continueSending := True\<rparr>"
  have "h_commands h \<noteq> []" if "ready i h"
  proof -
    have "c \<in> set (p_outgoingCommands (peer_at h i))" using runs_on_first [OF assms(1)] by (metis nth_mem)
    then show ?thesis using no_room_nonempty [OF that assms(2)] that by (simp add: ready_def sendable_def)
  qed
  moreover have "peer_at ?h i = peer_at h i" by (simp add: peer_at_def)
  moreover have "ready i h \<Longrightarrow> ready i ?h"
    using packs_continue [of i h True] \<open>peer_at ?h i = _\<close> by (simp add: ready_def packs_def)
  ultimately show ?thesis by (simp add: loop_result_def progresses_def paid_def moved_def)
qed

lemma outgoing_loop_progress:
  "runs_on i k cs h \<Longrightarrow> loop_result i cs h (snd (outgoing_loop i k e w g cs h))"
proof (induction cs arbitrary: k e w g h rule: length_induct)
  case (1 cs)
  define Q where "Q = (\<lambda>r :: bool \<times> host. loop_result i cs h (snd r))"
  have ifQ: "(b \<Longrightarrow> Q x) \<Longrightarrow> (\<not> b \<Longrightarrow> Q y) \<Longrightarrow> Q (if b then x else y)" for b x y by simp
  show ?case
  proof (cases cs)
    case Nil
    then show ?thesis by (simp add: loop_result_def)
  next
    case (Cons c cs')
    have r: "runs_on i k (c # cs') h" using "1.prems" Cons by simp
    have IH: "loop_result i rest h' (snd (outgoing_loop i k' e' w' g' rest h'))"
      if "length rest \<le> length cs'" "runs_on i k' rest h'" for k' e' w' g' rest h'
      using "1.IH" that Cons by (simp add: less_Suc_eq_le)
    let ?h = "if starts_packet c then upd_peer i count_throttle h else h"
    have g: "?h = h \<or> ?h = upd_peer i count_throttle h" by simp
    have "runs_on i (Suc k) cs' h"
      using r drop_Cons_nth [of c cs' k "p_outgoingCommands (peer_at h i)"] by (auto simp: runs_on_def)
    then have skip: "Q (outgoing_loop i (Suc k) e' w' g' cs' h)" if "\<not> insistent (peer_at h i) c" for e' w' g'
      unfolding Q_def Cons using loop_result_skip [OF IH that] by simp
    have rel: "Q (outgoing_loop i k e' w' g' cs' (put_outgoing i c (send_reliable_command i k c h)))"
      if "\<not> no_room i c h" "command_acknowledged c" for e' w' g'
      unfolding Q_def
      by (rule loop_result_step [OF progress_reliable(1) [OF r that] _ IH])
        (use progress_reliable(2) [OF r that] reliable_step(1) [OF r] in \<open>simp_all add: moved_def\<close>)
    have unrel: "Q (outgoing_loop i k e' w' g' cs' (put_outgoing i c (upd_peer i (move_unreliable k c) ?h)))"
      if "\<not> no_room i c h" "\<not> command_acknowledged c" for e' w' g'
      unfolding Q_def
      by (rule loop_result_step [OF progress_unreliable(1) [OF r that g] _ IH])
        (use progress_unreliable(2,3) [OF r that g] in \<open>simp_all only: moved_def simp_thms order_refl\<close>)
    have run: "Q (outgoing_loop i k e' w' g' (dropWhile (same_numbers c) cs')
        (drop_commands i k (c # takeWhile (same_numbers c) cs') ?h))" if "\<not> command_acknowledged c" for e' w' g'
      unfolding Q_def
      by (rule loop_result_step [OF progress_drop(1) [OF r that g] _ IH])
        (use progress_drop(2,3) [OF r that g] length_dropWhile_le in \<open>simp_all only: moved_def simp_thms order_refl\<close>)
    have stop: "Q (b, h\<lparr>h_continueSending := True\<rparr>)" if "no_room i c h" for b
      unfolding Q_def Cons using loop_result_stop [OF r that] by simp
    have "Q (outgoing_loop i k e w g (c # cs') h)"
      unfolding outgoing_loop.simps(2) Let_def
      by (intro ifQ skip rel unrel run stop) (simp_all add: insistent_def)
    then show ?thesis using Cons by (simp add: Q_def)
  qed
qed

section \<open>Commands the library adds\<close>

lemma setup_view:
  "\<exists>d. send_view (enet_peer_setup_outgoing_command c p) = (p_acknowledgements p, p_outgoingCommands p @ [d],
      p_sentReliableCommands p, p_state p, p_mtu p, timeout_of p, p_channelCount p)
    \<and> hd_command (pr_header (oc_command d)) = hd_command (pr_header (oc_command c))
    \<and> hd_channelID (pr_header (oc_command d)) = hd_channelID (pr_header (oc_command c))
    \<and> oc_packet d = oc_packet c \<and> oc_fragmentLength d = oc_fragmentLength c"
  by (simp add: enet_peer_setup_outgoing_command_def Let_def send_view_def timeout_of_def upd_channel_def)

text \<open>Pings and disconnects: reliable, without data, on no channel.\<close>

definition bare :: "outgoing_command \<Rightarrow> bool" where
  "bare d \<longleftrightarrow> command_acknowledged d \<and> oc_packet d = None \<and> command_channel d = 255 \<and> size_of d \<le> 8
     \<and> oc_fragmentLength d = 0"

lemma bare_facts: "bare d \<Longrightarrow> weight d = 1" "bare d \<Longrightarrow> mtu_ok m \<Longrightarrow> alone m d"
  "bare d \<Longrightarrow> p_channelCount p \<le> 255 \<Longrightarrow> insistent p d"
  using mtu_bounds [of m] by (simp_all add: bare_def weight_def alone_def insistent_def)

definition bare_protocol :: "protocol \<Rightarrow> bool" where
  "bare_protocol c \<longleftrightarrow> is_acknowledged c \<and> hd_channelID (pr_header c) = 0xFF \<and> commandSizes ! unat (kind_of c) \<le> 8"

lemma bare_protocols:
  "bare_protocol (command_on ENET_PROTOCOL_COMMAND_FLAG_ACKNOWLEDGE 0xFF Ping)"
  "bare_protocol (command_on ENET_PROTOCOL_COMMAND_FLAG_ACKNOWLEDGE 0xFF (Disconnect e))"
  by (simp_all add: bare_protocol_def command_on_def is_acknowledged_def kind_of_def command_of_def
      ENET_PROTOCOL_COMMAND_MASK_def ENET_PROTOCOL_COMMAND_FLAG_ACKNOWLEDGE_def commandSizes_def sizeofs)

lemma queue_bare:
  assumes "i < length (h_peers h)" "bare_protocol c"
  shows "\<exists>d. send_view (peer_at (snd (enet_peer_queue_outgoing_command i c None 0 0 h)) i)
      = (p_acknowledgements (peer_at h i), p_outgoingCommands (peer_at h i) @ d, p_sentReliableCommands (peer_at h i),
         p_state (peer_at h i), p_mtu (peer_at h i), timeout_of (peer_at h i), p_channelCount (peer_at h i))
    \<and> (d = [] \<or> (\<exists>x. d = [x] \<and> bare x))"
    "h_commands (snd (enet_peer_queue_outgoing_command i c None 0 0 h)) = h_commands h"
    "h_buffers (snd (enet_peer_queue_outgoing_command i c None 0 0 h)) = h_buffers h"
    "h_continueSending (snd (enet_peer_queue_outgoing_command i c None 0 0 h)) = h_continueSending h"
    "p_channelCount (peer_at (snd (enet_peer_queue_outgoing_command i c None 0 0 h)) i) = p_channelCount (peer_at h i)"
proof -
  let ?c = "new_outgoing_command c None 0 0"
  have b: "bare d" if "hd_command (pr_header (oc_command d)) = hd_command (pr_header (oc_command ?c))"
    "hd_channelID (pr_header (oc_command d)) = hd_channelID (pr_header (oc_command ?c))"
    "oc_packet d = oc_packet ?c" "oc_fragmentLength d = oc_fragmentLength ?c" for d
    using assms(2) that by (simp add: bare_def bare_protocol_def command_acknowledged_def is_acknowledged_def
        command_channel_def size_of_def kind_of_def new_outgoing_command_def)
  obtain ok h1 where m: "host_malloc h = (ok, h1)" by fastforce
  have h1: "h_peers h1 = h_peers h" "h_commands h1 = h_commands h" "h_buffers h1 = h_buffers h"
    "h_continueSending h1 = h_continueSending h"
    using m by (auto simp: host_malloc_def split: prod.splits)
  have p: "peer_at (upd_mem f h1) i = peer_at h i" for f using h1 by (simp add: peer_at_def upd_mem_def)
  have l: "i < length (h_peers (upd_mem f h1))" for f using assms(1) h1 by (simp add: upd_mem_def)
  have p1: "peer_at h1 i = peer_at h i" using h1 by (simp add: peer_at_def)
  show "h_commands (snd (enet_peer_queue_outgoing_command i c None 0 0 h)) = h_commands h"
    "h_buffers (snd (enet_peer_queue_outgoing_command i c None 0 0 h)) = h_buffers h"
    "h_continueSending (snd (enet_peer_queue_outgoing_command i c None 0 0 h)) = h_continueSending h"
    "p_channelCount (peer_at (snd (enet_peer_queue_outgoing_command i c None 0 0 h)) i) = p_channelCount (peer_at h i)"
    using h1 p p1 l by (simp_all add: enet_peer_queue_outgoing_command_def m upd_peer_def upd_mem_def peer_at_def)
  show "\<exists>d. send_view (peer_at (snd (enet_peer_queue_outgoing_command i c None 0 0 h)) i)
      = (p_acknowledgements (peer_at h i), p_outgoingCommands (peer_at h i) @ d, p_sentReliableCommands (peer_at h i),
         p_state (peer_at h i), p_mtu (peer_at h i), timeout_of (peer_at h i), p_channelCount (peer_at h i))
    \<and> (d = [] \<or> (\<exists>x. d = [x] \<and> bare x))"
  proof (cases ok)
    case True
    obtain d where "send_view (enet_peer_setup_outgoing_command ?c (peer_at h i)) = (p_acknowledgements (peer_at h i),
        p_outgoingCommands (peer_at h i) @ [d], p_sentReliableCommands (peer_at h i), p_state (peer_at h i),
        p_mtu (peer_at h i), timeout_of (peer_at h i), p_channelCount (peer_at h i))" "bare d" using setup_view [of ?c "peer_at h i"] b by blast
    then show ?thesis using True l p by (intro exI [of _ "[d]"]) (simp add: enet_peer_queue_outgoing_command_def m)
  next
    case False
    then show ?thesis using p1 by (intro exI [of _ "[]"]) (simp add: enet_peer_queue_outgoing_command_def m send_view_def)
  qed
qed

lemma disconnect_view:
  fixes e :: u32
  assumes i: "i < length (h_peers h)" and s: "p_state (peer_at h i) = Disconnect_Later"
  defines "h' \<equiv> enet_peer_disconnect (\<lambda>h. h) i e h"
  shows "\<exists>d. send_view (peer_at h' i) = ([], d, [], Disconnecting, p_mtu (peer_at h i), timeout_of (peer_at h i), 0)
      \<and> (d = [] \<or> (\<exists>x. d = [x] \<and> bare x))"
    "h_commands h' = h_commands h" "h_continueSending h' = h_continueSending h" "h_buffers h' = h_buffers h"
proof -
  let ?c = "command_on ENET_PROTOCOL_COMMAND_FLAG_ACKNOWLEDGE 0xFF (Disconnect e)"
  let ?h1 = "enet_peer_reset_queues i h" let ?h2 = "snd (enet_peer_queue_outgoing_command i ?c None 0 0 ?h1)"
  have i1: "i < length (h_peers ?h1)" using i only_reset_queues [of i h] by (simp add: only_def)
  have h': "h' = upd_peer i (\<lambda>p. p\<lparr>p_state := Disconnecting\<rparr>) (enet_peer_on_disconnect i ?h2)"
    using s by (simp add: h'_def enet_peer_disconnect_def Let_def)
  have c1: "h_commands ?h1 = h_commands h" "h_continueSending ?h1 = h_continueSending h" "h_buffers ?h1 = h_buffers h"
    by (simp_all add: enet_peer_reset_queues_def Let_def upd_peer_def upd_mem_def)
  note q = queue_bare [OF i1 bare_protocols(2) [of e]]
  have o: "h_commands (enet_peer_on_disconnect i g) = h_commands g" "h_buffers (enet_peer_on_disconnect i g) = h_buffers g"
    "h_continueSending (enet_peer_on_disconnect i g) = h_continueSending g"
    "h_peers (enet_peer_on_disconnect i g) = h_peers g" for g
    by (simp_all add: enet_peer_on_disconnect_def Let_def)
  show "h_commands h' = h_commands h" "h_continueSending h' = h_continueSending h" "h_buffers h' = h_buffers h"
    unfolding h' using q(2-4) c1 o by (simp_all add: upd_peer_def)
  have l: "i < length (h_peers ?h2)" using i1 only_queue_outgoing [of i ?h1 ?c None 0 0] by (simp add: only_def)
  have p: "peer_at h' i = (peer_at ?h2 i)\<lparr>p_state := Disconnecting\<rparr>"
    unfolding h' using l o(4) by (simp add: peer_at_def upd_peer_def)
  show "\<exists>d. send_view (peer_at h' i) = ([], d, [], Disconnecting, p_mtu (peer_at h i), timeout_of (peer_at h i), 0)
      \<and> (d = [] \<or> (\<exists>x. d = [x] \<and> bare x))"
    unfolding p using q(1) reset_queues_peer [OF i] by (auto simp: send_view_def timeout_of_def)
qed

lemma disconnect_pending:
  fixes e :: u32
  assumes "i < length (h_peers h)" "p_state (peer_at h i) = Disconnect_Later" "sendable (peer_at h i)"
    "p_outgoingCommands (peer_at h i) = []" "p_sentReliableCommands (peer_at h i) = []"
  defines "h' \<equiv> enet_peer_disconnect (\<lambda>h. h) i e h"
  shows "sendable (peer_at h' i)" "pending now (peer_at h' i) \<le> pending now (peer_at h i)"
    "p_sentReliableCommands (peer_at h' i) = []"
proof -
  let ?m = "p_mtu (peer_at h i)"
  obtain d where d: "send_view (peer_at h' i) = ([], d, [], Disconnecting, ?m, timeout_of (peer_at h i), 0)"
    "d = [] \<or> (\<exists>x. d = [x] \<and> bare x)" using disconnect_view(1) [OF assms(1,2), of e] unfolding h'_def by blast
  have "sum_list (map weight d) \<le> 1" "\<forall>c \<in> set d. alone ?m c"
    using d(2) bare_facts(1,2) assms(3) by (auto simp: sendable_def)
  then show "sendable (peer_at h' i)" "pending now (peer_at h' i) \<le> pending now (peer_at h i)"
    "p_sentReliableCommands (peer_at h' i) = []"
    using d(1) assms(2-5) by (auto simp: sendable_def pending_def send_view_def timeout_of_def)
qed

lemma progress_disconnect:
  assumes "p_state (peer_at h i) = Disconnect_Later" "p_outgoingCommands (peer_at h i) = []"
    "p_sentReliableCommands (peer_at h i) = []"
  shows "progresses i h (enet_peer_disconnect (\<lambda>h. h) i e h)"
proof -
  let ?h = "enet_peer_disconnect (\<lambda>h. h) i e h"
  have "ready i ?h \<and> paid i h ?h \<and> h_continueSending ?h = h_continueSending h" if r: "ready i h"
  proof -
    have i: "i < length (h_peers h)" and s: "sendable (peer_at h i)" using r fits_length by (simp_all add: ready_def)
    note d = disconnect_pending [OF i assms(1) s assms(2,3)] disconnect_view(2-4) [OF i assms(1)]
    have "fits i ?h" using packs_disconnect_later [OF assms(1)] r by (simp add: packs_def ready_def)
    then show ?thesis using d assms(3) r by (simp add: ready_def paid_def)
  qed
  then show ?thesis by (simp add: progresses_def)
qed

lemma check_outgoing_progress:
  assumes "i < length (h_peers h)"
  shows "loop_result i (p_outgoingCommands (peer_at h i)) h (snd (enet_protocol_check_outgoing_commands i h))"
proof -
  let ?q = "p_outgoingCommands (peer_at h i)"
  obtain b h1 where r: "outgoing_loop i 0 False False True ?q h = (b, h1)" by fastforce
  have "runs_on i 0 ?q h" using assms by (simp add: runs_on_def)
  from outgoing_loop_progress [OF this, of False False True] have h1: "loop_result i ?q h h1" using r by simp
  have "loop_result i ?q h (enet_peer_disconnect (\<lambda>h. h) i e h1)"
    if "p_state (peer_at h1 i) = Disconnect_Later" "p_outgoingCommands (peer_at h1 i) = []"
      "p_sentReliableCommands (peer_at h1 i) = []" for e
    using h1 progress_disconnect [OF that] progress_trans moved_progress by (auto simp: loop_result_def)
  then show ?thesis using h1 by (simp add: enet_protocol_check_outgoing_commands_def r Let_def)
qed

lemma ping_bare:
  assumes "ready i h"
  shows "only i h (enet_peer_ping i h)" "ready i (enet_peer_ping i h)"
    "h_commands (enet_peer_ping i h) = h_commands h" "h_continueSending (enet_peer_ping i h) = h_continueSending h"
    "p_sentReliableCommands (peer_at (enet_peer_ping i h) i) = p_sentReliableCommands (peer_at h i)"
    "pending now (peer_at (enet_peer_ping i h) i) \<le> pending now (peer_at h i)
     \<or> pending now (peer_at (enet_peer_ping i h) i) = pending now (peer_at h i) + 1
       \<and> (\<exists>c \<in> set (p_outgoingCommands (peer_at (enet_peer_ping i h) i)). insistent (peer_at (enet_peer_ping i h) i) c)"
proof -
  let ?h = "enet_peer_ping i h" let ?p = "peer_at h i"
  show "only i h ?h" by simp
  have i: "i < length (h_peers h)" and s: "sendable ?p" using assms fits_length by (simp_all add: ready_def)
  note q = queue_bare [OF i bare_protocols(1)]
  have same: "h_commands ?h = h_commands h" "h_buffers ?h = h_buffers h" "h_continueSending ?h = h_continueSending h"
    using q(2-4) by (simp_all add: enet_peer_ping_def)
  then show "h_commands ?h = h_commands h" "h_continueSending ?h = h_continueSending h" by simp_all
  obtain d where d: "send_view (peer_at ?h i) = (p_acknowledgements ?p, p_outgoingCommands ?p @ d,
      p_sentReliableCommands ?p, p_state ?p, p_mtu ?p, timeout_of ?p, p_channelCount ?p)" "d = [] \<or> (\<exists>x. d = [x] \<and> bare x)"
    using q(1) by (cases "p_state ?p = Connected")
      (auto simp: enet_peer_ping_def send_view_def intro!: exI [of _ "[] :: outgoing_command list"])
  have a: "\<forall>c \<in> set d. alone (p_mtu ?p) c" using d(2) bare_facts(2) s by (auto simp: sendable_def)
  then have "sendable (peer_at ?h i)" using d(1) s by (auto simp: sendable_def send_view_def timeout_of_def)
  moreover have "fits i ?h" using packs_ping assms by (simp add: packs_def ready_def)
  ultimately show "ready i ?h" using assms same by (simp add: ready_def)
  show "p_sentReliableCommands (peer_at ?h i) = p_sentReliableCommands ?p" using d(1) by (simp add: send_view_def)
  show "pending now (peer_at ?h i) \<le> pending now ?p \<or> pending now (peer_at ?h i) = pending now ?p + 1
       \<and> (\<exists>c \<in> set (p_outgoingCommands (peer_at ?h i)). insistent (peer_at ?h i) c)"
    using d(2)
  proof
    assume "d = []"
    then show ?thesis using d(1) by (simp add: pending_def send_view_def)
  next
    assume "\<exists>x. d = [x] \<and> bare x"
    then obtain x where x: "d = [x]" "bare x" by blast
    have "p_channelCount (peer_at ?h i) \<le> 255" using d(1) s by (simp add: sendable_def send_view_def)
    then have "insistent (peer_at ?h i) x" by (rule bare_facts(3) [OF x(2)])
    then show ?thesis using d(1) x bare_facts(1) [OF x(2)] by (simp add: pending_def send_view_def)
  qed
qed

lemma ping_round:
  assumes r: "ready i h" and e: "p_sentReliableCommands (peer_at h i) = []"
    and w: "pending (h_serviceTime h) (peer_at h i) + 2 * length (h_commands h) \<le> n"
  defines "h' \<equiv> snd (enet_protocol_check_outgoing_commands i (enet_peer_ping i h))"
  shows "only i h h'" "ready i h'" "pending (h_serviceTime h) (peer_at h' i) + length (h_commands h') \<le> n"
    "h_commands h \<noteq> [] \<Longrightarrow> h_commands h' \<noteq> []"
    "h_continueSending h' \<Longrightarrow> h_continueSending h \<or> h_commands h' \<noteq> []"
proof -
  let ?g = "enet_peer_ping i h" let ?now = "h_serviceTime h"
  note g = ping_bare [OF r]
  have t: "h_serviceTime ?g = ?now" using g(1) by (simp add: only_def)
  have "loop_result i (p_outgoingCommands (peer_at ?g i)) ?g h'"
    unfolding h'_def by (rule check_outgoing_progress [OF fits_length]) (use g(2) in \<open>simp add: ready_def\<close>)
  then have p: "progresses i ?g h'" and m: "(\<exists>c \<in> set (p_outgoingCommands (peer_at ?g i)). insistent (peer_at ?g i) c) \<Longrightarrow> moved i ?g h'"
    using g(2) by (simp_all add: loop_result_def)
  have "only i ?g h'" using p by (simp add: progresses_def)
  with g(1) show "only i h h'" by (rule only_trans)
  show "ready i h'" using p g(2) by (simp add: progresses_def)
  have pay: "paid i ?g h'" using p g(2) by (simp add: progresses_def)
  then show "h_commands h \<noteq> [] \<Longrightarrow> h_commands h' \<noteq> []" using g(3) by (auto simp: paid_def Let_def)
  show "h_continueSending h' \<Longrightarrow> h_continueSending h \<or> h_commands h' \<noteq> []"
    using p g(2,3,4) by (auto simp: progresses_def)
  have pay': "if p_sentReliableCommands (peer_at h' i) = []
      then pending ?now (peer_at h' i) + 2 * length (h_commands h') \<le> pending ?now (peer_at ?g i) + 2 * length (h_commands h)
      else pending ?now (peer_at h' i) + length (h_commands h') + 2 \<le> pending ?now (peer_at ?g i) + length (h_commands h)"
    using pay t g(3) g(5) e by (simp add: paid_def Let_def split: if_splits)
  show "pending ?now (peer_at h' i) + length (h_commands h') \<le> n"
    using g(6) [of ?now]
  proof
    assume "pending ?now (peer_at ?g i) \<le> pending ?now (peer_at h i)"
    then show ?thesis using pay' w by (auto split: if_splits)
  next
    assume a: "pending ?now (peer_at ?g i) = pending ?now (peer_at h i) + 1
       \<and> (\<exists>c \<in> set (p_outgoingCommands (peer_at ?g i)). insistent (peer_at ?g i) c)"
    then have "p_sentReliableCommands (peer_at h' i) \<noteq> [] \<or> length (h_commands h') \<ge> 1
        \<or> pending ?now (peer_at h' i) < pending ?now (peer_at ?g i)"
      using m t by (auto simp: moved_def Suc_le_eq)
    then show ?thesis using pay' w a by (auto split: if_splits)
  qed
qed

text \<open>What packing leaves: a datagram that is not empty has made the work less.\<close>

lemma pack_commands_pending:
  assumes r: "ready i h" and w: "pending (h_serviceTime h) (peer_at h i) + 2 * length (h_commands h) \<le> n"
  defines "h' \<equiv> pack_commands i h"
  shows "only i h h'" "ready i h'" "pending (h_serviceTime h) (peer_at h' i) + length (h_commands h') \<le> n"
    "h_commands h \<noteq> [] \<Longrightarrow> h_commands h' \<noteq> []"
    "h_continueSending h' \<Longrightarrow> h_continueSending h \<or> h_commands h' \<noteq> []"
proof -
  let ?now = "h_serviceTime h"
  obtain b h1 where b: "(if p_outgoingCommands (peer_at h i) = [] then (True, h)
      else enet_protocol_check_outgoing_commands i h) = (b, h1)" by fastforce
  have i: "i < length (h_peers h)" using r fits_length by (simp add: ready_def)
  have k1: "progresses i h h1" using b check_outgoing_progress [OF i] by (auto simp: loop_result_def split: if_splits)
  then have o1: "only i h h1" and r1: "ready i h1" and p1: "paid i h h1"
    and c1: "h_continueSending h1 \<Longrightarrow> h_continueSending h \<or> h_commands h1 \<noteq> []" using r by (simp_all add: progresses_def)
  have t1: "h_serviceTime h1 = ?now" using o1 by (simp add: only_def)
  have g1: "pending ?now (peer_at h1 i) + length (h_commands h1) \<le> n" "h_commands h \<noteq> [] \<Longrightarrow> h_commands h1 \<noteq> []"
    using p1 w by (auto simp: paid_def Let_def split: if_splits)
  let ?b = "b \<and> p_sentReliableCommands (peer_at h1 i) = []
      \<and> ENET_TIME_DIFFERENCE (h_serviceTime h1) (p_lastReceiveTime (peer_at h1 i)) \<ge> p_pingInterval (peer_at h1 i)
      \<and> room i h1 \<ge> sizeof_Ping"
  have h': "h' = (if ?b then snd (enet_protocol_check_outgoing_commands i (enet_peer_ping i h1)) else h1)"
    by (simp add: h'_def pack_commands_def b Let_def)
  have "only i h h' \<and> ready i h' \<and> pending ?now (peer_at h' i) + length (h_commands h') \<le> n
    \<and> (h_commands h \<noteq> [] \<longrightarrow> h_commands h' \<noteq> [])
    \<and> (h_continueSending h' \<longrightarrow> h_continueSending h \<or> h_commands h' \<noteq> [])"
  proof (cases ?b)
    case True
    then have e: "p_sentReliableCommands (peer_at h1 i) = []" by blast
    then have "pending (h_serviceTime h1) (peer_at h1 i) + 2 * length (h_commands h1) \<le> n"
      using p1 w t1 by (simp add: paid_def Let_def)
    note p = ping_round [OF r1 e this]
    have "h' = snd (enet_protocol_check_outgoing_commands i (enet_peer_ping i h1))" unfolding h' using True by (rule if_P)
    then show ?thesis using p t1 only_trans [OF o1 p(1)] g1(2) c1 by auto
  next
    case False
    then have "h' = h1" unfolding h' by (rule if_not_P)
    then show ?thesis using o1 r1 g1 c1 by simp
  qed
  then show "only i h h'" "ready i h'" "pending ?now (peer_at h' i) + length (h_commands h') \<le> n"
    "h_commands h \<noteq> [] \<Longrightarrow> h_commands h' \<noteq> []"
    "h_continueSending h' \<Longrightarrow> h_continueSending h \<or> h_commands h' \<noteq> []" by blast+
qed

section \<open>One round for one peer\<close>

lemma dispatch_state_view:
  assumes "i < length (h_peers h)"
  shows "send_view (peer_at (enet_protocol_dispatch_state i s h) i) = (p_acknowledgements (peer_at h i),
      p_outgoingCommands (peer_at h i), p_sentReliableCommands (peer_at h i), s, p_mtu (peer_at h i),
      timeout_of (peer_at h i), p_channelCount (peer_at h i))"
    "h_commands (enet_protocol_dispatch_state i s h) = h_commands h"
    "h_continueSending (enet_protocol_dispatch_state i s h) = h_continueSending h"
  using assms by (auto simp: enet_protocol_dispatch_state_def mark_dispatch_def enet_protocol_change_state_def
      enet_peer_on_connect_def enet_peer_on_disconnect_def Let_def send_view_def timeout_of_def peer_at_def upd_peer_def)

lemma acknowledgements_pending:
  "ready i h \<Longrightarrow> p_acknowledgements (peer_at h i) = as \<Longrightarrow> h' = acknowledgement_loop i as h \<Longrightarrow>
    only i h h' \<and> ready i h'
    \<and> pending (h_serviceTime h) (peer_at h' i) + 2 * length (h_commands h')
        \<le> pending (h_serviceTime h) (peer_at h i) + 2 * length (h_commands h)
    \<and> (h_continueSending h' \<longrightarrow> h_continueSending h \<or> h_commands h' \<noteq> [])
    \<and> (h_commands h \<noteq> [] \<longrightarrow> h_commands h' \<noteq> [])"
proof (induction as arbitrary: h)
  case (Cons a as)
  have f: "fits i h" and s: "sendable (peer_at h i)" using Cons.prems(1) by (simp_all add: ready_def)
  have i: "i < length (h_peers h)" by (rule fits_length [OF f])
  let ?full = "length (h_commands h) \<ge> ENET_PROTOCOL_MAXIMUM_PACKET_COMMANDS
        \<or> length (h_buffers h) \<ge> ENET_BUFFER_MAXIMUM \<or> room i h < sizeof_Acknowledge"
  show ?case
  proof (cases ?full)
    case True
    have "h_commands h \<noteq> []"
    proof
      assume e: "h_commands h = []"
      then have b: "length (h_buffers h) = 1" using Cons.prems(1) by (simp add: ready_def)
      then have "h_packetSize h = 4"
        using f by (cases "h_buffers h") (simp_all add: fits_def view_fits_def fit_view_def)
      moreover have "576 \<le> unat (p_mtu (peer_at h i))" using mtu_bounds s by (simp add: sendable_def)
      ultimately have "room i h \<ge> 572" using room_eq [OF f] by simp
      then show False using True e b by (simp add: max_sizes sizeofs)
    qed
    moreover have "h' = h\<lparr>h_continueSending := True\<rparr>" using True Cons.prems(3) by simp
    moreover have "peer_at (h\<lparr>h_continueSending := True\<rparr>) i = peer_at h i" by (simp add: peer_at_def)
    ultimately show ?thesis using Cons.prems(1) packs_continue [of i h True] by (simp add: ready_def packs_def)
  next
    case False
    let ?h1 = "put_command (acknowledge_protocol a) sizeof_Acknowledge h"
    define h2 where "h2 = (if kind_of (ac_command a) = ENET_PROTOCOL_COMMAND_DISCONNECT
        then enet_protocol_dispatch_state i Zombie ?h1 else ?h1)"
    let ?h3 = "upd_peer i (\<lambda>p. p\<lparr>p_acknowledgements := as\<rparr>) h2"
    have p1: "h_commands ?h1 = h_commands h @ [acknowledge_protocol a]" "h_continueSending ?h1 = h_continueSending h"
      by (simp_all add: put_command_def)
    have i1: "i < length (h_peers ?h1)" using i by simp
    have o2: "only i h h2" unfolding h2_def using only_trans [OF only_put_command only_dispatch_state] by simp
    have c2: "h_commands h2 = h_commands h @ [acknowledge_protocol a]" "h_continueSending h2 = h_continueSending h"
      using p1 dispatch_state_view(2,3) [OF i1] by (simp_all add: h2_def)
    have v2: "\<exists>st. (st = p_state (peer_at h i) \<or> st = Zombie) \<and> send_view (peer_at h2 i) = (p_acknowledgements (peer_at h i),
      p_outgoingCommands (peer_at h i), p_sentReliableCommands (peer_at h i), st, p_mtu (peer_at h i),
      timeout_of (peer_at h i), p_channelCount (peer_at h i))"
      using dispatch_state_view(1) [OF i1, of Zombie] by (auto simp: h2_def send_view_def)
    have o: "only i h ?h3" by (rule only_trans [OF o2 only_peer])
    have i2: "i < length (h_peers h2)" using o2 i by (simp add: only_def)
    obtain st where v: "st = p_state (peer_at h i) \<or> st = Zombie" "send_view (peer_at ?h3 i) = (as,
      p_outgoingCommands (peer_at h i), p_sentReliableCommands (peer_at h i), st, p_mtu (peer_at h i),
      timeout_of (peer_at h i), p_channelCount (peer_at h i))"
      using v2 i2 by (auto simp: send_view_def timeout_of_def)
    have s3: "sendable (peer_at ?h3 i)" using v(2) s by (simp add: sendable_def send_view_def timeout_of_def)
    have d3: "pending (h_serviceTime h) (peer_at ?h3 i) + 2 \<le> pending (h_serviceTime h) (peer_at h i)"
      using v Cons.prems(2) by (auto simp: pending_def send_view_def)
    have "packs i h ?h1" by (rule put_command_packs) (use False in \<open>simp add: max_sizes not_le not_less\<close>)
    then have "packs i h h2" using packs_trans packs_dispatch_state by (auto simp: h2_def)
    moreover have "packs i h2 ?h3" by (rule packs_peer) simp_all
    ultimately have "packs i h ?h3" by (rule packs_trans)
    then have r3: "ready i ?h3" using f s3 c2 by (simp add: ready_def packs_def upd_peer_def)
    have "h' = acknowledgement_loop i as ?h3" using False Cons.prems(3) by (simp add: h2_def Let_def)
    from Cons.IH [OF r3 _ this] v(2) have ih: "only i ?h3 h' \<and> ready i h'
      \<and> pending (h_serviceTime ?h3) (peer_at h' i) + 2 * length (h_commands h')
        \<le> pending (h_serviceTime ?h3) (peer_at ?h3 i) + 2 * length (h_commands ?h3)
      \<and> (h_continueSending h' \<longrightarrow> h_continueSending ?h3 \<or> h_commands h' \<noteq> [])
      \<and> (h_commands ?h3 \<noteq> [] \<longrightarrow> h_commands h' \<noteq> [])" by (simp add: send_view_def)
    moreover have "h_commands ?h3 = h_commands h2" "h_continueSending ?h3 = h_continueSending h2" by (simp_all add: upd_peer_def)
    moreover have "h_serviceTime ?h3 = h_serviceTime h" using o by (simp add: only_def)
    ultimately show ?thesis using c2 d3 only_trans [OF o] by simp
  qed
qed simp

lemma reset_view:
  assumes "i < length (h_peers h)"
  shows "send_view (peer_at (enet_peer_reset i h) i) = ([], [], [], Disconnected, h_mtu h, 500, 0)"
    "h_continueSending (enet_peer_reset i h) = h_continueSending h"
proof -
  let ?d = "enet_peer_on_disconnect i h"
  have d: "h_mtu ?d = h_mtu h" "h_continueSending ?d = h_continueSending h" "i < length (h_peers ?d)"
    using assms by (simp_all add: enet_peer_on_disconnect_def Let_def)
  obtain w where "peer_at (enet_peer_reset i h) i = (peer_at (upd_peer i (reset_fields ?d) ?d) i)\<lparr>p_flags := w,
      p_acknowledgements := [], p_sentReliableCommands := [], p_sentUnreliableCommands := [],
      p_outgoingCommands := [], p_dispatchedCommands := [], p_channels := [], p_channelCount := 0\<rparr>"
    using reset_queues_peer [of i "upd_peer i (reset_fields ?d) ?d"] assms by (auto simp: enet_peer_reset_def Let_def)
  then show "send_view (peer_at (enet_peer_reset i h) i) = ([], [], [], Disconnected, h_mtu h, 500, 0)"
    using d by (simp add: send_view_def reset_fields_def timeout_of_def ENET_PEER_DEFAULT_ROUND_TRIP_TIME_def)
  show "h_continueSending (enet_peer_reset i h) = h_continueSending h"
    using d(2) by (simp add: enet_peer_reset_def enet_peer_reset_queues_def Let_def upd_peer_def upd_mem_def)
qed

lemma notify_disconnect_pending:
  assumes i: "i < length (h_peers h)" and s: "sendable (peer_at h i)" and m: "mtu_ok (h_mtu h)"
    and w: "2 \<le> pending now (peer_at h i)" and n: "enet_protocol_notify_disconnect i event h = (event', h')"
  shows "only i h h'" "sendable (peer_at h' i)" "pending now (peer_at h' i) \<le> pending now (peer_at h i)"
    "h_continueSending h' = h_continueSending h"
proof -
  define g where "g = (if p_state (peer_at h i) \<ge> Connection_Pending then h\<lparr>h_recalculateBandwidthLimits := True\<rparr> else h)"
  have g: "only i h g" "h_continueSending g = h_continueSending h" "peer_at g i = peer_at h i" "i < length (h_peers g)"
    "h_mtu g = h_mtu h"
    using i by (simp_all add: g_def peer_at_def only_host)
  let ?z = "upd_peer i (\<lambda>p. p\<lparr>p_eventData := 0\<rparr>) g"
  have z: "i < length (h_peers ?z)" "h_continueSending ?z = h_continueSending h"
    "send_view (peer_at ?z i) = send_view (peer_at h i)"
    using g by (simp_all add: upd_peer_def send_view_def timeout_of_def peer_at_def)
  have "h' = enet_peer_reset i g \<or> h' = enet_protocol_dispatch_state i Zombie ?z"
    using n by (auto simp: enet_protocol_notify_disconnect_def Let_def g_def split: if_splits option.splits)
  then have "only i h h' \<and> sendable (peer_at h' i) \<and> pending now (peer_at h' i) \<le> pending now (peer_at h i)
    \<and> h_continueSending h' = h_continueSending h"
  proof
    assume h': "h' = enet_peer_reset i g"
    have "only i h h'" unfolding h' by (rule only_trans [OF g(1) only_reset])
    then show ?thesis using reset_view [OF g(4)] g(2,5) m w
      by (simp add: h' sendable_def pending_def send_view_def timeout_of_def)
  next
    assume h': "h' = enet_protocol_dispatch_state i Zombie ?z"
    have "only i h h'" unfolding h' by (rule only_trans [OF only_trans [OF g(1) only_peer] only_dispatch_state])
    then show ?thesis using dispatch_state_view [OF z(1), of Zombie] z(2,3) s
      by (simp add: h' sendable_def pending_def send_view_def timeout_of_def)
  qed
  then show "only i h h'" "sendable (peer_at h' i)" "pending now (peer_at h' i) \<le> pending now (peer_at h i)"
    "h_continueSending h' = h_continueSending h" by simp_all
qed

lemma set_next_timeout_same:
  "send_view (peer_at (set_next_timeout i h) i) = send_view (peer_at h i)"
  "h_commands (set_next_timeout i h) = h_commands h" "h_buffers (set_next_timeout i h) = h_buffers h"
  "h_continueSending (set_next_timeout i h) = h_continueSending h"
  by (cases "i < length (h_peers h)";
    auto simp: set_next_timeout_def send_view_def timeout_of_def upd_peer_def peer_at_def split: list.split)+

lemma after_loss_send_view:
  assumes "i < length (h_peers h)"
  shows "send_view (peer_at (after_loss i k j c h) i) = send_view (take_back k j c (peer_at h i))"
    "h_commands (after_loss i k j c h) = h_commands h" "h_buffers (after_loss i k j c h) = h_buffers h"
    "h_continueSending (after_loss i k j c h) = h_continueSending h" "only i h (after_loss i k j c h)"
proof -
  let ?g = "upd_peer i (take_back k j c) (upd_peer i (note_timeout c) h)"
  have "send_view (take_back k j c (note_timeout c p)) = send_view (take_back k j c p)" for p
    by (simp add: send_view_def take_back_def note_timeout_def timeout_of_def)
  then have g: "send_view (peer_at ?g i) = send_view (take_back k j c (peer_at h i))" using assms by simp
  show "send_view (peer_at (after_loss i k j c h) i) = send_view (take_back k j c (peer_at h i))"
    using g set_next_timeout_same(1) by (cases "k = 0") (simp_all add: after_loss_def Let_def)
  show "h_commands (after_loss i k j c h) = h_commands h" "h_buffers (after_loss i k j c h) = h_buffers h"
    "h_continueSending (after_loss i k j c h) = h_continueSending h"
    using set_next_timeout_same(2-4) by (simp_all add: after_loss_def Let_def upd_peer_def)
  show "only i h (after_loss i k j c h)"
    using only_trans [OF only_trans [OF only_peer only_peer] only_set_next_timeout] only_trans [OF only_peer only_peer]
    by (simp add: after_loss_def Let_def)
qed

lemma timeouts_pending:
  assumes "i < length (h_peers h)" "p_sentReliableCommands (peer_at h i) = kept @ cs"
    "p_outgoingCommands (peer_at h i) = lost @ rest" "sendable (peer_at h i)" "mtu_ok (h_mtu h)"
    "timeout_loop i event (length kept) (length lost) cs h = (r, event', h')"
  shows "only i h h' \<and> sendable (peer_at h' i)
    \<and> pending (h_serviceTime h) (peer_at h' i) \<le> pending (h_serviceTime h) (peer_at h i)
    \<and> h_continueSending h' = h_continueSending h
    \<and> (r = 0 \<longrightarrow> h_commands h' = h_commands h \<and> h_buffers h' = h_buffers h)"
  using assms
proof (induction cs arbitrary: kept lost h)
  case (Cons c cs)
  let ?p = "peer_at h i"
  show ?case
  proof (cases "overdue (h_serviceTime h) c")
    case False
    then have "timeout_loop i event (length (kept @ [c])) (length lost) cs h = (r, event', h')"
      using Cons.prems(6) by (simp add: overdue_def)
    then show ?thesis using Cons.IH [of h "kept @ [c]" lost] Cons.prems by simp
  next
    case True
    note step = timeout_loop_step [OF Cons.prems(1) True]
    have four: "4 \<le> pending (h_serviceTime h) ?p"
      using True Cons.prems(2) by (simp add: pending_def)
    show ?thesis
    proof (cases "gives_up (h_serviceTime h) c (note_timeout c ?p)")
      case give: True
      let ?g = "upd_peer i (note_timeout c) h"
      have v: "send_view (peer_at ?g i) = send_view ?p"
        using Cons.prems(1) by (simp add: send_view_def note_timeout_def timeout_of_def)
      have g: "i < length (h_peers ?g)" "sendable (peer_at ?g i)" "mtu_ok (h_mtu ?g)"
        "2 \<le> pending (h_serviceTime h) (peer_at ?g i)" "h_continueSending ?g = h_continueSending h"
        using Cons.prems(1,4,5) four send_view_same [OF v] by (simp_all add: upd_peer_def)
      have n: "enet_protocol_notify_disconnect i event ?g = (event', h')" "r = 1"
        using Cons.prems(6) step give by (simp_all add: case_prod_beta prod_eq_iff)
      note d = notify_disconnect_pending [OF g(1-4) n(1)]
      show ?thesis using only_trans [OF only_peer d(1)] d(2-4) g(5) n(2) send_view_same [OF v] by simp
    next
      case False
      let ?h = "after_loss i (length kept) (length lost) c h"
      note v = after_loss_send_view [OF Cons.prems(1), of "length kept" "length lost" c]
      have q: "send_view (peer_at ?h i) = (p_acknowledgements ?p, (lost @ [doubled c]) @ rest, kept @ cs, p_state ?p,
          p_mtu ?p, timeout_of ?p, p_channelCount ?p)"
        unfolding v(1) by (simp add: send_view_def take_back_def Cons.prems(2,3) move_between doubled_def timeout_of_def)
      have a: "alone (p_mtu ?p) (doubled c) = alone (p_mtu ?p) c" by (simp add: alone_def size_of_def doubled_def)
      have s: "sendable (peer_at ?h i)" using q a Cons.prems(2-4) by (auto simp: sendable_def send_view_def timeout_of_def)
      have "weight (doubled c) \<le> 2" by (simp add: weight_def)
      then have w: "pending (h_serviceTime h) (peer_at ?h i) \<le> pending (h_serviceTime h) ?p"
        using q True Cons.prems(2,3) by (simp add: pending_def send_view_def)
      have t: "i < length (h_peers ?h)" "mtu_ok (h_mtu ?h)" "h_serviceTime ?h = h_serviceTime h"
        using v(5) Cons.prems(1,5) by (simp_all add: only_def)
      have l: "timeout_loop i event (length kept) (length (lost @ [doubled c])) cs ?h = (r, event', h')"
        using Cons.prems(6) step False by simp
      have "p_sentReliableCommands (peer_at ?h i) = kept @ cs" "p_outgoingCommands (peer_at ?h i) = (lost @ [doubled c]) @ rest"
        using q by (simp_all add: send_view_def)
      from Cons.IH [OF t(1) this s t(2) l] show ?thesis
        using only_trans [OF v(5)] w v(2-4) t(3) by simp
    qed
  qed
qed simp

text \<open>What does not touch the peers at all.\<close>

definition quiet :: "host \<Rightarrow> host \<Rightarrow> bool" where
  "quiet h h' \<longleftrightarrow> h_peers h' = h_peers h \<and> h_serviceTime h' = h_serviceTime h \<and> h_hung h' = h_hung h
     \<and> h_mtu h' = h_mtu h \<and> h_continueSending h' = h_continueSending h"

lemma quiet_facts:
  assumes "quiet h h'"
  shows "only i h h'" "peer_at h' i = peer_at h i" "h_continueSending h' = h_continueSending h"
  using assms by (simp_all add: quiet_def only_host peer_at_def)

lemma quiet_read: "read_buffers h = (body, h') \<Longrightarrow> quiet h h'"
  by (auto simp: read_buffers_def quiet_def upd_mem_def Let_def)

lemma quiet_compress: "compress_datagram body h = (out, h') \<Longrightarrow> quiet h h'"
  by (auto simp: compress_datagram_def quiet_def Let_def split: if_splits option.splits)

lemma quiet_socket: "enet_socket_send a bs h = (n, h') \<Longrightarrow> quiet h h'"
  by (auto simp: enet_socket_send_def quiet_def Let_def split: list.splits)

text \<open>An operation after which a peer has no more to send than before.\<close>

definition settles :: "nat \<Rightarrow> host \<Rightarrow> host \<Rightarrow> bool" where
  "settles i h h' \<longleftrightarrow> only i h h' \<and> h_continueSending h' = h_continueSending h
     \<and> (sendable (peer_at h i) \<longrightarrow> sendable (peer_at h' i)
         \<and> (\<forall>now. pending now (peer_at h' i) \<le> pending now (peer_at h i)))"

lemma settles_trans [trans]: "settles i h h1 \<Longrightarrow> settles i h1 h2 \<Longrightarrow> settles i h h2"
  unfolding settles_def by (meson only_trans order_trans)

lemma settles_quiet: "quiet h h' \<Longrightarrow> settles i h h'"
  using quiet_facts by (simp add: settles_def)

lemma settles_peer:
  assumes "\<And>p. send_view (f p) = send_view p"
  shows "settles i h (upd_peer i f h)"
proof (cases "i < length (h_peers h)")
  case True
  then show ?thesis
    using send_view_same [OF assms [of "peer_at h i"]] by (simp add: settles_def)
next
  case False
  then show ?thesis by (simp add: settles_def upd_peer_def)
qed

lemma settles_remove_unreliable:
  assumes i: "i < length (h_peers h)"
  shows "settles i h (enet_protocol_remove_sent_unreliable_commands i h)"
proof -
  let ?m = "upd_mem (fold (\<lambda>c. packet_release_sent (oc_packet c)) (p_sentUnreliableCommands (peer_at h i))) h"
  let ?g = "upd_peer i (\<lambda>p. p\<lparr>p_sentUnreliableCommands := []\<rparr>) ?m"
  have "settles i h ?m" by (rule settles_quiet) (simp add: quiet_def upd_mem_def)
  also have "settles i ?m ?g" by (rule settles_peer) (simp add: send_view_def timeout_of_def)
  finally have g: "settles i h ?g" .
  have ig: "i < length (h_peers ?g)" using i by simp
  have "settles i ?g (enet_peer_disconnect (\<lambda>h. h) i e ?g)"
    if "p_state (peer_at ?g i) = Disconnect_Later" "p_outgoingCommands (peer_at ?g i) = []"
      "p_sentReliableCommands (peer_at ?g i) = []" for e
    using disconnect_pending [OF ig that(1) _ that(2,3)] disconnect_view(3) [OF ig that(1)] by (simp add: settles_def)
  then have "settles i h (disconnect_if_idle i ?g)"
    using g settles_trans [OF g] unfolding disconnect_if_idle_def Let_def by presburger
  moreover have "settles i h h" by (simp add: settles_def)
  ultimately show ?thesis unfolding enet_protocol_remove_sent_unreliable_commands_def Let_def by presburger
qed

lemma send_datagram_pending:
  assumes i: "i < length (h_peers h)"
  shows "settles i h (snd (send_datagram i h))"
proof -
  let ?h1 = "upd_peer i (update_loss (h_serviceTime h)) h"
  obtain body h2 where b: "read_buffers ?h1 = (body, h2)" by fastforce
  obtain out h3 where c: "compress_datagram body h2 = (out, h3)" by fastforce
  let ?h4 = "upd_peer i (\<lambda>p. p\<lparr>p_lastSendTime := h_serviceTime h3\<rparr>) h3"
  obtain sent h5 where e: "enet_socket_send (p_address (peer_at ?h4 i))
      (finish_header i body h3 # (case out of None \<Rightarrow> body | Some out \<Rightarrow> [out])) ?h4 = (sent, h5)" by fastforce
  let ?h6 = "enet_protocol_remove_sent_unreliable_commands i h5"
  have h': "snd (send_datagram i h) = (if sent < 0 then ?h6
      else ?h6\<lparr>h_totalSentData := h_totalSentData ?h6 + of_int sent, h_totalSentPackets := h_totalSentPackets ?h6 + 1\<rparr>)"
    by (simp add: send_datagram_def Let_def b c e)
  have "settles i h ?h1" by (rule settles_peer) (simp add: send_view_def update_loss_def timeout_of_def Let_def)
  also have "settles i ?h1 h2" by (rule settles_quiet [OF quiet_read [OF b]])
  also have "settles i h2 h3" by (rule settles_quiet [OF quiet_compress [OF c]])
  also have "settles i h3 ?h4" by (rule settles_peer) (simp add: send_view_def timeout_of_def)
  also have "settles i ?h4 h5" by (rule settles_quiet [OF quiet_socket [OF e]])
  finally have h5: "settles i h h5" .
  then have "i < length (h_peers h5)" using i by (simp add: settles_def only_def)
  from settles_trans [OF h5 settles_remove_unreliable [OF this]] have h6: "settles i h ?h6" .
  have "settles i ?h6 (snd (send_datagram i h))" by (rule settles_quiet) (simp add: h' quiet_def)
  with h6 show ?thesis by (rule settles_trans)
qed

text \<open>
  The round for one peer: it never makes the work more, and if it asks for another round it has
  made it less.
\<close>

definition lessens :: "nat \<Rightarrow> host \<Rightarrow> host \<Rightarrow> bool" where
  "lessens i h h' \<longleftrightarrow> only i h h' \<and> sendable (peer_at h' i)
     \<and> pending (h_serviceTime h) (peer_at h' i) \<le> pending (h_serviceTime h) (peer_at h i)
     \<and> (h_continueSending h' \<longrightarrow> h_continueSending h
         \<or> pending (h_serviceTime h) (peer_at h' i) < pending (h_serviceTime h) (peer_at h i))"

lemma begin_ready:
  assumes "i < length (h_peers h)" "sendable (peer_at h i)"
  shows "ready i (begin_datagram h)"
proof -
  have "peer_at (begin_datagram h) i = peer_at h i" by (simp add: begin_datagram_def peer_at_def)
  moreover have "4 \<le> unat (p_mtu (peer_at h i))" "p_mtu (peer_at h i) \<le> ENET_PROTOCOL_MAXIMUM_MTU"
    using assms(2) mtu_bounds [of "p_mtu (peer_at h i)"] by (simp_all add: sendable_def mtu_ok_def)
  ultimately show ?thesis using assms sendable_small
    by (simp add: ready_def fits_def view_fits_def fit_view_def begin_datagram_def sizeofs max_sizes)
qed

text \<open>The acknowledgements, then what came back.\<close>

lemma first_half_pending:
  assumes i: "i < length (h_peers h)" and s: "sendable (peer_at h i)" and m: "mtu_ok (h_mtu h)"
  defines "h1 \<equiv> enet_protocol_send_acknowledgements i (begin_datagram h)"
  assumes t: "(if timeouts_due chk i h1 then enet_protocol_check_timeouts i event h1 else (0, event, h1)) = (r, event', h2)"
  shows "only i h h2" "sendable (peer_at h2 i)"
    "pending (h_serviceTime h) (peer_at h2 i) \<le> pending (h_serviceTime h) (peer_at h i)"
    "h_continueSending h2 \<Longrightarrow> h_continueSending h \<or> pending (h_serviceTime h) (peer_at h2 i) < pending (h_serviceTime h) (peer_at h i)"
    "r \<noteq> 1 \<Longrightarrow> ready i h2 \<and> pending (h_serviceTime h) (peer_at h2 i) + 2 * length (h_commands h2)
        \<le> pending (h_serviceTime h) (peer_at h i) \<and> (h_continueSending h2 \<longrightarrow> h_continueSending h \<or> h_commands h2 \<noteq> [])"
proof -
  let ?b = "begin_datagram h" let ?now = "h_serviceTime h"
  have b: "quiet h ?b" "h_commands ?b = []" by (simp_all add: begin_datagram_def quiet_def)
  have a: "only i ?b h1 \<and> ready i h1 \<and> pending ?now (peer_at h1 i) + 2 * length (h_commands h1) \<le> pending ?now (peer_at h i)
      \<and> (h_continueSending h1 \<longrightarrow> h_continueSending h \<or> h_commands h1 \<noteq> [])"
    using acknowledgements_pending [OF begin_ready [OF i s] refl, of h1] b quiet_facts [OF b(1)]
    by (simp add: h1_def enet_protocol_send_acknowledgements_def quiet_def)
  then have o1: "only i h h1" using only_trans quiet_facts(1) [OF b(1)] by blast
  have t1: "h_serviceTime h1 = ?now" "i < length (h_peers h1)" "mtu_ok (h_mtu h1)" "sendable (peer_at h1 i)"
    using o1 a i m by (simp_all add: only_def ready_def)
  have "only i h1 h2 \<and> sendable (peer_at h2 i) \<and> pending ?now (peer_at h2 i) \<le> pending ?now (peer_at h1 i)
    \<and> h_continueSending h2 = h_continueSending h1 \<and> (r \<noteq> 1 \<longrightarrow> h_commands h2 = h_commands h1 \<and> ready i h2)"
  proof (cases "timeouts_due chk i h1")
    case True
    then have l: "timeout_loop i event (length []) (length []) (p_sentReliableCommands (peer_at h1 i)) h1 = (r, event', h2)"
      using t by (simp add: enet_protocol_check_timeouts_def)
    note p = timeouts_pending [OF t1(2) _ _ t1(4,3) l]
    have "r = 0" if "r \<noteq> 1" using timeout_loop_spec [OF t1(2), of "[]" _ "[]" _ event r event' h2 UNIV] l that by auto
    moreover have "fits i h2" if "r = 0"
      using packs_timeouts [OF t1(2), of "[]" _ "[]"] l that a by (simp add: packs_def ready_def)
    ultimately show ?thesis using p a t1(1) by (simp add: ready_def)
  next
    case False
    then show ?thesis using t a t1(4) by simp
  qed
  then have t2: "only i h1 h2" "sendable (peer_at h2 i)" "pending ?now (peer_at h2 i) \<le> pending ?now (peer_at h1 i)"
    "h_continueSending h2 = h_continueSending h1" "r \<noteq> 1 \<Longrightarrow> h_commands h2 = h_commands h1 \<and> ready i h2" by blast+
  show "only i h h2" using o1 t2(1) by (rule only_trans)
  show "sendable (peer_at h2 i)" by (rule t2(2))
  show "pending ?now (peer_at h2 i) \<le> pending ?now (peer_at h i)" using a t2(3) by simp
  have "h_commands h1 \<noteq> [] \<Longrightarrow> pending ?now (peer_at h1 i) < pending ?now (peer_at h i)"
    using a by (cases "h_commands h1") simp_all
  then show "h_continueSending h2 \<Longrightarrow> h_continueSending h \<or> pending ?now (peer_at h2 i) < pending ?now (peer_at h i)"
    using a t2(3,4) by auto
  show "r \<noteq> 1 \<Longrightarrow> ready i h2 \<and> pending ?now (peer_at h2 i) + 2 * length (h_commands h2)
        \<le> pending ?now (peer_at h i) \<and> (h_continueSending h2 \<longrightarrow> h_continueSending h \<or> h_commands h2 \<noteq> [])"
    using a t2(3,4,5) by auto
qed

lemma send_to_peer_lessens:
  assumes i: "i < length (h_peers h)" and s: "sendable (peer_at h i)" and m: "mtu_ok (h_mtu h)"
  shows "lessens i h (snd (snd (send_to_peer event chk i h)))"
proof (cases "p_state (peer_at h i) = Disconnected \<or> p_state (peer_at h i) = Zombie")
  case True
  then show ?thesis using s by (simp add: send_to_peer_def lessens_def)
next
  case False
  let ?h1 = "enet_protocol_send_acknowledgements i (begin_datagram h)" let ?now = "h_serviceTime h"
  obtain r ev h2 where t: "(if timeouts_due chk i ?h1 then enet_protocol_check_timeouts i event ?h1 else (0, event, ?h1)) = (r, ev, h2)"
    by (metis prod_cases3)
  note f = first_half_pending [OF i s m t]
  show ?thesis
  proof (cases "r = 1")
    case True
    then have "snd (snd (send_to_peer event chk i h)) = h2" using False t by (simp add: send_to_peer_def Let_def)
    then show ?thesis using f(1-4) by (auto simp: lessens_def)
  next
    case r: False
    then have w: "ready i h2" "pending (h_serviceTime h2) (peer_at h2 i) + 2 * length (h_commands h2) \<le> pending ?now (peer_at h i)"
      "h_continueSending h2 \<Longrightarrow> h_continueSending h \<or> h_commands h2 \<noteq> []" "h_serviceTime h2 = ?now"
      using f(1,5) by (auto simp: only_def)
    note p = pack_commands_pending [OF w(1,2)]
    let ?h3 = "pack_commands i h2"
    have o3: "only i h ?h3" using f(1) p(1) by (rule only_trans)
    have c3: "h_continueSending ?h3 \<Longrightarrow> h_continueSending h \<or> h_commands ?h3 \<noteq> []" using w(3) p(4,5) by blast
    have w3: "pending ?now (peer_at ?h3 i) + length (h_commands ?h3) \<le> pending ?now (peer_at h i)" using p(3) w(4) by simp
    have s3: "sendable (peer_at ?h3 i)" using p(2) by (simp add: ready_def)
    show ?thesis
    proof (cases "h_commands ?h3 = []")
      case True
      then have "snd (snd (send_to_peer event chk i h)) = ?h3" using False r t by (simp add: send_to_peer_def Let_def)
      then show ?thesis using True o3 c3 w3 s3 by (auto simp: lessens_def)
    next
      case c: False
      let ?h4 = "snd (send_datagram i ?h3)"
      have "settles i ?h3 ?h4" by (rule send_datagram_pending) (use o3 i in \<open>simp add: only_def\<close>)
      then have q: "only i ?h3 ?h4" "sendable (peer_at ?h4 i)" "pending ?now (peer_at ?h4 i) \<le> pending ?now (peer_at ?h3 i)"
        using s3 by (simp_all add: settles_def)
      have "1 \<le> length (h_commands ?h3)" using c by (simp add: Suc_le_eq)
      then have "pending ?now (peer_at ?h4 i) < pending ?now (peer_at h i)" using w3 q(3) by linarith
      moreover have "snd (snd (send_to_peer event chk i h)) = ?h4"
        using False r t c by (simp add: send_to_peer_def Let_def case_prod_beta)
      ultimately show ?thesis using only_trans [OF o3 q(1)] q(2) by (simp add: lessens_def)
    qed
  qed
qed

section \<open>The rounds\<close>

definition total_pending :: "u32 \<Rightarrow> host \<Rightarrow> nat" where
  "total_pending now h = sum_list (map (pending now) (h_peers h))"

definition all_sendable :: "host \<Rightarrow> bool" where
  "all_sendable h \<longleftrightarrow> mtu_ok (h_mtu h) \<and> (\<forall>p \<in> set (h_peers h). sendable p)"

lemma all_sendable_at: "all_sendable h \<Longrightarrow> i < length (h_peers h) \<Longrightarrow> sendable (peer_at h i)"
  by (simp add: all_sendable_def peer_at_def)

definition steady :: "host \<Rightarrow> host \<Rightarrow> bool" where
  "steady h h' \<longleftrightarrow> length (h_peers h') = length (h_peers h) \<and> h_serviceTime h' = h_serviceTime h \<and> h_hung h' = h_hung h"

definition round_lessens :: "host \<Rightarrow> host \<Rightarrow> bool" where
  "round_lessens h h' \<longleftrightarrow> steady h h' \<and> all_sendable h'
     \<and> total_pending (h_serviceTime h) h' \<le> total_pending (h_serviceTime h) h
     \<and> (h_continueSending h' \<longrightarrow> h_continueSending h
         \<or> total_pending (h_serviceTime h) h' < total_pending (h_serviceTime h) h)"

lemma lessens_round:
  assumes l: "lessens i h h'" and i: "i < length (h_peers h)" and s: "all_sendable h"
  shows "round_lessens h h'"
proof -
  have o: "only i h h'" using l by (simp add: lessens_def)
  have n: "length (h_peers h') = length (h_peers h)" using o by (simp add: only_def)
  have ps: "h_peers h' = (h_peers h)[i := peer_at h' i]"
    using o i by (intro nth_equalityI) (auto simp: only_def peer_at_def nth_list_update)
  let ?f = "pending (h_serviceTime h)"
  have "sum_list (map ?f ((h_peers h)[i := q])) + ?f (h_peers h ! i) = sum_list (map ?f (h_peers h)) + ?f q" for q
    using i sum_list_update [of i "map ?f (h_peers h)" "?f q"] elem_le_sum_list [of i "map ?f (h_peers h)"]
    by (simp add: map_update)
  from this [of "peer_at h' i"] have "total_pending (h_serviceTime h) h' + ?f (peer_at h i)
      = total_pending (h_serviceTime h) h + ?f (peer_at h' i)"
    by (simp add: total_pending_def ps [symmetric]) (simp add: peer_at_def)
  moreover have "all_sendable h'"
    using s l o by (auto simp: all_sendable_def ps lessens_def only_def dest: set_update_subset_insert [THEN subsetD])
  ultimately show ?thesis using l o by (auto simp: round_lessens_def lessens_def steady_def only_def)
qed

lemma round_lessens_trans: "round_lessens h h1 \<Longrightarrow> round_lessens h1 h2 \<Longrightarrow> round_lessens h h2"
  by (auto simp: round_lessens_def steady_def)

lemma send_round_lessens:
  "all_sendable h \<Longrightarrow> \<forall>i \<in> set is. i < length (h_peers h) \<Longrightarrow> round_lessens h (snd (snd (send_round chk is event h)))"
proof (induction "is" arbitrary: event h)
  case Nil
  then show ?case by (simp add: round_lessens_def steady_def)
next
  case (Cons i "is")
  obtain r ev h1 where r: "send_to_peer event chk i h = (r, ev, h1)" by (metis prod_cases3)
  have i: "i < length (h_peers h)" using Cons.prems(2) by simp
  have "lessens i h h1"
    using send_to_peer_lessens [OF i all_sendable_at [OF Cons.prems(1) i], of event chk] Cons.prems(1) r
    by (simp add: all_sendable_def)
  then have h1: "round_lessens h h1" using i Cons.prems(1) by (rule lessens_round)
  then have "all_sendable h1" "\<forall>i \<in> set is. i < length (h_peers h1)"
    using Cons.prems(2) by (simp_all add: round_lessens_def steady_def)
  from Cons.IH [OF this, of ev] show ?case using h1 round_lessens_trans by (simp add: r)
qed

lemma send_rounds_end:
  "all_sendable h \<Longrightarrow> send_rounds fuel chk event h = (r, event', h') \<Longrightarrow>
    h_continueSending h \<longrightarrow> total_pending (h_serviceTime h) h < fuel \<Longrightarrow>
    steady h h' \<and> all_sendable h' \<and> (r \<noteq> 0 \<or> \<not> h_continueSending h')"
proof (induction fuel arbitrary: event h)
  case 0
  then show ?case by (simp add: steady_def split: if_splits)
next
  case (Suc fuel)
  show ?case
  proof (cases "h_continueSending h")
    case True
    let ?h = "h\<lparr>h_continueSending := False\<rparr>"
    have same: "h_peers ?h = h_peers h" "h_serviceTime ?h = h_serviceTime h" by simp_all
    have s: "all_sendable ?h" using Suc.prems(1) by (simp add: all_sendable_def)
    obtain q ev h1 where q: "send_round chk [0..<length (h_peers h)] event ?h = (q, ev, h1)" by (metis prod_cases3)
    have "round_lessens ?h h1" using send_round_lessens [OF s, of "[0..<length (h_peers h)]" chk event] q by simp
    then have l: "steady h h1" "all_sendable h1"
      "h_continueSending h1 \<Longrightarrow> total_pending (h_serviceTime h1) h1 < total_pending (h_serviceTime h) h"
      by (simp_all add: round_lessens_def steady_def total_pending_def)
    show ?thesis
    proof (cases "q = 0")
      case True
      then have "send_rounds fuel chk ev h1 = (r, event', h')" using Suc.prems(2) \<open>h_continueSending h\<close> q by simp
      moreover have "h_continueSending h1 \<longrightarrow> total_pending (h_serviceTime h1) h1 < fuel"
        using l(3) Suc.prems(3) \<open>h_continueSending h\<close> by linarith
      ultimately have "steady h1 h' \<and> all_sendable h' \<and> (r \<noteq> 0 \<or> \<not> h_continueSending h')" by (rule Suc.IH [OF l(2)])
      then show ?thesis using l(1) by (simp add: steady_def)
    next
      case False
      then show ?thesis using Suc.prems(2) \<open>h_continueSending h\<close> q l by auto
    qed
  next
    case False
    then show ?thesis using Suc.prems by (simp add: steady_def)
  qed
qed

lemma total_pending_le: "total_pending now h \<le> sum_list (map send_work (h_peers h))"
  unfolding total_pending_def by (rule sum_list_mono) (rule pending_le_work)

lemma send_outgoing_ends:
  assumes "all_sendable h" "enet_protocol_send_outgoing_commands event chk h = (r, event', h')"
  shows "h_hung h' = h_hung h" "all_sendable h'" "r = 0 \<Longrightarrow> \<not> h_continueSending h'"
proof -
  let ?h = "h\<lparr>h_continueSending := True\<rparr>"
  have s: "all_sendable ?h" using assms(1) by (simp add: all_sendable_def)
  have "total_pending (h_serviceTime ?h) ?h < Suc (sum_list (map send_work (h_peers h)))"
    using total_pending_le [of "h_serviceTime h" h] by (simp add: total_pending_def le_imp_less_Suc)
  then have "h_continueSending ?h \<longrightarrow> total_pending (h_serviceTime ?h) ?h < Suc (sum_list (map send_work (h_peers h)))" ..
  from send_rounds_end [OF s assms(2) [unfolded enet_protocol_send_outgoing_commands_def] this]
  have "steady ?h h' \<and> all_sendable h' \<and> (r \<noteq> 0 \<or> \<not> h_continueSending h')" .
  then show "h_hung h' = h_hung h" "all_sendable h'" "r = 0 \<Longrightarrow> \<not> h_continueSending h'" by (auto simp: steady_def)
qed

section \<open>What holds of every host\<close>

text \<open>The invariant of a host contains what progress depends on.\<close>

lemma peer_ok_round_trip:
  assumes "peer_ok p"
  shows "unat (p_roundTripTime p + 4 * p_roundTripTimeVariance p)
    = unat (p_roundTripTime p) + 4 * unat (p_roundTripTimeVariance p)"
proof -
  have "p_roundTripTime p \<le> 86400000" "p_roundTripTimeVariance p \<le> 86400000"
    using assms by (simp_all add: peer_ok_defs traffic_ok_def)
  then show ?thesis by (simp add: word_le_nat_alt unat_word_ariths)
qed

lemma peer_ok_sendable: "peer_ok p \<Longrightarrow> sendable p"
proof -
  assume p: "peer_ok p"
  then have "1 \<le> p_roundTripTime p" by (simp add: peer_ok_defs traffic_ok_def)
  then have "p_roundTripTime p + 4 * p_roundTripTimeVariance p \<noteq> 0"
    using peer_ok_round_trip [OF p] by (auto simp: word_le_nat_alt)
  then show ?thesis using p by (auto simp: sendable_def peer_ok_defs traffic_ok_def protocol_limits)
qed

lemma host_ok_sendable: "host_ok h \<Longrightarrow> all_sendable h"
  using peer_ok_sendable by (auto simp: all_sendable_def host_ok_def memory_safe_def limits_ok_def limits_def)

lemma host_ok_hung: "host_ok h \<Longrightarrow> \<not> h_hung h"
  by (auto simp: host_ok_def memory_safe_def limits_ok_def limits_def)

lemma send_rounds_ok:
  "host_ok h \<Longrightarrow> \<not> h_hung (snd (snd (send_rounds fuel chk event h))) \<Longrightarrow>
    host_ok (snd (snd (send_rounds fuel chk event h)))
    \<and> length (h_peers (snd (snd (send_rounds fuel chk event h)))) = length (h_peers h)"
proof (induction fuel arbitrary: event h)
  case (Suc fuel)
  let ?h = "h\<lparr>h_continueSending := False\<rparr>"
  obtain r ev h1 where r: "send_round chk [0..<length (h_peers h)] event ?h = (r, ev, h1)" by (metis prod_cases3)
  have "keeps ?h h1" using send_round_keeps [of "[0..<length (h_peers h)]" ?h chk event] r by simp
  then have "host_ok h1" "length (h_peers h1) = length (h_peers h)"
    using host_ok_continue [OF Suc.prems(1)] by (simp_all add: keeps_def)
  then show ?case using Suc.IH [of h1 ev] Suc.prems by (simp add: r split: if_splits)
qed (auto split: if_splits)

text \<open>Once the loop has ended, more rounds than it took would change nothing.\<close>

lemma send_rounds_more:
  "\<not> h_hung (snd (snd (send_rounds fuel chk event h))) \<Longrightarrow>
    send_rounds (fuel + k) chk event h = send_rounds fuel chk event h"
proof (induction fuel arbitrary: event h)
  case 0
  then show ?case by (cases k) (auto split: if_splits)
next
  case (Suc fuel)
  obtain r ev h1 where "send_round chk [0..<length (h_peers h)] event (h\<lparr>h_continueSending := False\<rparr>) = (r, ev, h1)"
    by (metis prod_cases3)
  then show ?case using Suc.IH [of ev h1] Suc.prems by (simp split: if_splits)
qed

lemma send_outgoing_keeps: "keeps h (snd (snd (enet_protocol_send_outgoing_commands event chk h)))"
proof -
  obtain r ev h' where r: "enet_protocol_send_outgoing_commands event chk h = (r, ev, h')" by (metis prod_cases3)
  let ?h = "h\<lparr>h_continueSending := True\<rparr>"
  have "host_ok h' \<and> length (h_peers h') = length (h_peers h)" if h: "host_ok h"
  proof -
    have "\<not> h_hung h'" using send_outgoing_ends(1) [OF host_ok_sendable [OF h] r] host_ok_hung [OF h] by simp
    moreover note send_rounds_ok [OF host_ok_continue [OF h, of True], of "Suc (sum_list (map send_work (h_peers h)))" chk event,
        unfolded r [unfolded enet_protocol_send_outgoing_commands_def]]
    ultimately show ?thesis by simp
  qed
  then show ?thesis by (simp add: keeps_def r)
qed

end
