(* ===== verification/Enet_Service.thy ===== *)
theory Enet_Service
  imports Enet_Host_Safe Enet_Progress
begin

text \<open>
  The outermost operations of \<open>enet/protocol.c\<close>: \<open>enet_host_flush\<close>, \<open>enet_host_check_events\<close> and
  \<open>enet_host_service\<close>, and the runs of a host: any sequence of calls that an application may make.

  What \<open>enet_socket_wait\<close> reports is an argument of \<open>enet_host_service\<close>, a list of outcomes of
  the coming calls; a call past its end times out.
\<close>

section \<open>The code\<close>

definition enet_host_flush :: "host \<Rightarrow> host" where
  "enet_host_flush h =
    (let (t, h) = host_time h
     in snd (snd (enet_protocol_send_outgoing_commands None False (h\<lparr>h_serviceTime := t\<rparr>))))"

definition clear_event :: "event \<Rightarrow> event" where
  "clear_event event = event\<lparr>ev_type := Event_None, ev_peer := None, ev_packet := None\<rparr>"

definition enet_host_check_events :: "event option \<Rightarrow> host \<Rightarrow> int \<times> event option \<times> host" where
  "enet_host_check_events event h =
    (case event of
      None \<Rightarrow> (-1, None, h)
    | Some ev \<Rightarrow>
        let (r, ev, h) = enet_protocol_dispatch_incoming_commands (clear_event ev) h in (r, Some ev, h))"

datatype waited = Wait_Error | Wait_Timeout | Wait_Receive | Wait_Interrupt

text \<open>
  The inner loop, which waits for a datagram: what the function returns, or nothing if there is
  one, and the outcomes of the waits to come.
\<close>

fun wait_loop :: "u32 \<Rightarrow> waited list \<Rightarrow> host \<Rightarrow> int option \<times> waited list \<times> host" where
  "wait_loop timeout waits h =
    (let (t, h) = host_time h;
         h = h\<lparr>h_serviceTime := t\<rparr>
     in if ENET_TIME_GREATER_EQUAL t timeout then (Some 0, waits, h)
        else
          case waits of
            [] \<Rightarrow> let (t, h) = host_time h in (Some 0, [], h\<lparr>h_serviceTime := t\<rparr>)
          | Wait_Timeout # waits \<Rightarrow> let (t, h) = host_time h in (Some 0, waits, h\<lparr>h_serviceTime := t\<rparr>)
          | Wait_Error # waits \<Rightarrow> (Some (-1), waits, h)
          | Wait_Interrupt # waits \<Rightarrow> wait_loop timeout waits h
          | Wait_Receive # waits \<Rightarrow> let (t, h) = host_time h in (None, waits, h\<lparr>h_serviceTime := t\<rparr>))"

declare wait_loop.simps [simp del]

definition dispatch_to :: "event option \<Rightarrow> host \<Rightarrow> int \<times> event option \<times> host" where
  "dispatch_to event h =
    (case event of
      None \<Rightarrow> (0, None, h)
    | Some ev \<Rightarrow>
        let (r, ev, h) = enet_protocol_dispatch_incoming_commands ev h in (r, Some ev, h))"

text \<open>One round: throttle, send, receive, send, dispatch.  0 stands for going on.\<close>

definition service_round :: "intercept option \<Rightarrow> event option \<Rightarrow> host \<Rightarrow> int \<times> event option \<times> host" where
  "service_round intercept event h =
    (let h = (if ENET_TIME_DIFFERENCE (h_serviceTime h) (h_bandwidthThrottleEpoch h)
                 \<ge> ENET_HOST_BANDWIDTH_THROTTLE_INTERVAL
              then enet_host_bandwidth_throttle h else h);
         (r, event, h) = enet_protocol_send_outgoing_commands event True h
     in if r \<noteq> 0 then (r, event, h)
        else
          let (r, event, h) = enet_protocol_receive_incoming_commands intercept event h
          in if r \<noteq> 0 then (r, event, h)
             else
               let (r, event, h) = enet_protocol_send_outgoing_commands event True h
               in if r \<noteq> 0 then (r, event, h) else dispatch_to event h)"

lemma wait_loop_shorter: "wait_loop timeout waits h = (None, waits', h') \<Longrightarrow> length waits' < length waits"
proof (induction waits arbitrary: h)
  case Nil
  then show ?case by (subst (asm) wait_loop.simps) (auto simp: Let_def split: prod.splits if_splits)
next
  case (Cons w waits)
  then show ?case
    by (subst (asm) (2) wait_loop.simps) (cases w; fastforce simp: Let_def split: prod.splits if_splits)
qed

function service_loop ::
  "intercept option \<Rightarrow> waited list \<Rightarrow> u32 \<Rightarrow> event option \<Rightarrow> host \<Rightarrow> int \<times> event option \<times> host" where
  "service_loop intercept waits timeout event h =
    (let (r, event, h) = service_round intercept event h
     in if r \<noteq> 0 then (r, event, h)
        else if ENET_TIME_GREATER_EQUAL (h_serviceTime h) timeout then (0, event, h)
        else
          case wait_loop timeout waits h of
            (Some r, _, h) \<Rightarrow> (r, event, h)
          | (None, waits, h) \<Rightarrow> service_loop intercept waits timeout event h)"
  by auto

termination
proof (relation "measure (\<lambda>(intercept, waits, timeout, event, h). length waits)", goal_cases)
  case (2 intercept waits timeout event h x r y event' h1 o' z waits' h2)
  then show ?case using wait_loop_shorter [of timeout waits h1 waits' h2] by simp
qed simp

declare service_loop.simps [simp del]

definition enet_host_service ::
  "intercept option \<Rightarrow> waited list \<Rightarrow> event option \<Rightarrow> u32 \<Rightarrow> host \<Rightarrow> int \<times> event option \<times> host" where
  "enet_host_service intercept waits event timeout h =
    (let (r, event, h) = dispatch_to (map_option clear_event event) h
     in if r \<noteq> 0 then (r, event, h)
        else
          let (t, h) = host_time h;
              h = h\<lparr>h_serviceTime := t\<rparr>
          in service_loop intercept waits (timeout + t) event h)"

section \<open>What they keep\<close>

lemma service_time_keeps: "keeps h (h\<lparr>h_serviceTime := t\<rparr>)"
  by (auto simp: keeps_def limits_def intro: host_ok_host)

lemma flush_keeps: "keeps h (enet_host_flush h)"
proof -
  obtain t h1 where t: "host_time h = (t, h1)" by fastforce
  have "keeps h h1" using host_time_keeps [of h] t by simp
  also have "keeps h1 (h1\<lparr>h_serviceTime := t\<rparr>)" by (rule service_time_keeps)
  also have "keeps (h1\<lparr>h_serviceTime := t\<rparr>) (enet_host_flush h)"
    using send_outgoing_keeps by (simp add: enet_host_flush_def t)
  finally show ?thesis .
qed

interpretation real_flush: host_flush enet_host_flush
  by unfold_locales (use flush_keeps in \<open>simp_all add: keeps_def\<close>)

lemma dispatch_incoming_keeps: "keeps h (snd (snd (enet_protocol_dispatch_incoming_commands event h)))"
  using dispatch_incoming_ok by (simp add: keeps_def)

lemma dispatch_to_keeps: "keeps h (snd (snd (dispatch_to event h)))"
  using dispatch_incoming_keeps by (simp add: dispatch_to_def case_prod_beta split: option.split)

lemma check_events_keeps: "keeps h (snd (snd (enet_host_check_events event h)))"
  using dispatch_incoming_keeps by (simp add: enet_host_check_events_def case_prod_beta split: option.split)

lemma wait_loop_keeps: "keeps h (snd (snd (wait_loop timeout waits h)))"
proof (induction waits arbitrary: h)
  case Nil
  obtain t h1 where t: "host_time h = (t, h1)" by fastforce
  have h1: "keeps h (h1\<lparr>h_serviceTime := t\<rparr>)" using keeps_trans [OF _ service_time_keeps] host_time_keeps [of h] t by simp
  obtain t2 h2 where t2: "host_time (h1\<lparr>h_serviceTime := t\<rparr>) = (t2, h2)" by fastforce
  have "keeps h (h2\<lparr>h_serviceTime := t2\<rparr>)"
    using keeps_trans [OF h1] keeps_trans [OF _ service_time_keeps] host_time_keeps [of "h1\<lparr>h_serviceTime := t\<rparr>"] t2 by simp
  then show ?case using h1 by (simp add: wait_loop.simps [of timeout "[]"] t t2 Let_def)
next
  case (Cons w waits)
  obtain t h1 where t: "host_time h = (t, h1)" by fastforce
  have h1: "keeps h (h1\<lparr>h_serviceTime := t\<rparr>)" using keeps_trans [OF _ service_time_keeps] host_time_keeps [of h] t by simp
  obtain t2 h2 where t2: "host_time (h1\<lparr>h_serviceTime := t\<rparr>) = (t2, h2)" by fastforce
  have "keeps h (h2\<lparr>h_serviceTime := t2\<rparr>)"
    using keeps_trans [OF h1] keeps_trans [OF _ service_time_keeps] host_time_keeps [of "h1\<lparr>h_serviceTime := t\<rparr>"] t2 by simp
  then show ?case
    using h1 keeps_trans [OF h1 Cons.IH] by (cases w) (simp_all add: wait_loop.simps [of timeout "_ # _"] t t2 Let_def)
qed

text \<open>The intercept callback may do to the host what the API allows.\<close>

definition intercept_ok :: "intercept option \<Rightarrow> bool" where
  "intercept_ok intercept \<longleftrightarrow> (\<forall>f h event. intercept = Some f \<longrightarrow> keeps h (snd (snd (f h event))))"

lemma service_round_keeps:
  assumes "intercept_ok intercept"
  shows "keeps h (snd (snd (service_round intercept event h)))"
proof -
  let ?b = "ENET_TIME_DIFFERENCE (h_serviceTime h) (h_bandwidthThrottleEpoch h) \<ge> ENET_HOST_BANDWIDTH_THROTTLE_INTERVAL"
  define h0 where "h0 = (if ?b then enet_host_bandwidth_throttle h else h)"
  have h0: "keeps h h0" using bandwidth_throttle_keeps by (simp add: h0_def)
  obtain r1 e1 h1 where 1: "enet_protocol_send_outgoing_commands event True h0 = (r1, e1, h1)" by (metis prod_cases3)
  have h1: "keeps h h1" using keeps_trans [OF h0 send_outgoing_keeps] 1 by (metis snd_conv)
  obtain r2 e2 h2 where 2: "enet_protocol_receive_incoming_commands intercept e1 h1 = (r2, e2, h2)" by (metis prod_cases3)
  have h2: "keeps h h2"
    using keeps_trans [OF h1 receive_rounds_keeps [where intercept = intercept and n = 256 and event = e1]] assms 2
    by (simp add: intercept_ok_def enet_protocol_receive_incoming_commands_def)
  obtain r3 e3 h3 where 3: "enet_protocol_send_outgoing_commands e2 True h2 = (r3, e3, h3)" by (metis prod_cases3)
  have h3: "keeps h h3" using keeps_trans [OF h2 send_outgoing_keeps] 3 by (metis snd_conv)
  show ?thesis
    using h1 h2 h3 keeps_trans [OF h3 dispatch_to_keeps] 1 2 3
    by (simp add: service_round_def Let_def flip: h0_def)
qed

lemma service_loop_keeps:
  assumes i: "intercept_ok intercept"
  shows "keeps h (snd (snd (service_loop intercept waits timeout event h)))"
proof (induction waits arbitrary: event h rule: length_induct)
  case (1 waits)
  obtain r e h1 where r: "service_round intercept event h = (r, e, h1)" by (metis prod_cases3)
  have h1: "keeps h h1" using service_round_keeps [OF i, of h event] r by simp
  obtain q ws h2 where w: "wait_loop timeout waits h1 = (q, ws, h2)" by (metis prod_cases3)
  have h2: "keeps h h2" using keeps_trans [OF h1] wait_loop_keeps [of h1 timeout waits] w by simp
  have "q = None \<Longrightarrow> keeps h (snd (snd (service_loop intercept ws timeout e h2)))"
    using keeps_trans [OF h2] 1 wait_loop_shorter w by blast
  then show ?case
    using h1 h2 r w by (cases q) (simp_all add: service_loop.simps [of intercept waits])
qed

lemma service_keeps:
  assumes "intercept_ok intercept"
  shows "keeps h (snd (snd (enet_host_service intercept waits event timeout h)))"
proof -
  obtain r e h1 where r: "dispatch_to (map_option clear_event event) h = (r, e, h1)" by (metis prod_cases3)
  have h1: "keeps h h1" using dispatch_to_keeps [of h "map_option clear_event event"] r by simp
  obtain t h2 where t: "host_time h1 = (t, h2)" by fastforce
  have "keeps h h2" using keeps_trans [OF h1] host_time_keeps [of h1] t by simp
  then have "keeps h (h2\<lparr>h_serviceTime := t\<rparr>)" using service_time_keeps by (rule keeps_trans)
  then show ?thesis
    using h1 keeps_trans [OF _ service_loop_keeps [OF assms]] by (simp add: enet_host_service_def r t Let_def)
qed

section \<open>Runs\<close>

text \<open>
  One call of the application, or an event in the world around the host: datagrams of any
  content arrive, the clock moves.  An application must not call with a packet or peer that
  does not exist, must not free a packet that is still queued, and, for the reasons given at
  \<open>memory_safe\<close>, must not send unsequenced packets and not set a decompressor.
\<close>

inductive host_step :: "host \<Rightarrow> host \<Rightarrow> bool" where
  service: "intercept_ok intercept \<Longrightarrow> host_step h (snd (snd (enet_host_service intercept waits event timeout h)))"
| check_events: "host_step h (snd (snd (enet_host_check_events event h)))"
| flush: "host_step h (enet_host_flush h)"
| connect: "host_step h (snd (enet_host_connect address channelCount data h))"
| broadcast: "alive h (Some packet) \<Longrightarrow> sequenced_packet h packet \<Longrightarrow>
    host_step h (enet_host_broadcast channelID packet h)"
| compress: "(\<And>c. compressor = Some c \<Longrightarrow> \<not> (cp_context c \<and> cp_decompress c \<noteq> None)) \<Longrightarrow>
    host_step h (fst (enet_host_compress compressor h))"
| channel_limit: "host_step h (enet_host_channel_limit channelLimit h)"
| bandwidth_limit: "host_step h (enet_host_bandwidth_limit incomingBandwidth outgoingBandwidth h)"
| checksum: "host_step h (h\<lparr>h_checksum := checksum\<rparr>)"
| send: "i < length (h_peers h) \<Longrightarrow> alive h (Some packet) \<Longrightarrow> sequenced_packet h packet \<Longrightarrow>
    host_step h (snd (enet_peer_send i channelID packet h))"
| receive: "i < length (h_peers h) \<Longrightarrow> host_step h (snd (enet_peer_receive i h))"
| ping: "i < length (h_peers h) \<Longrightarrow> host_step h (enet_peer_ping i h)"
| throttle_configure: "i < length (h_peers h) \<Longrightarrow>
    host_step h (enet_peer_throttle_configure i interval acceleration deceleration h)"
| ping_interval: "host_step h (upd_peer i (enet_peer_ping_interval pingInterval) h)"
| timeout: "host_step h (upd_peer i (enet_peer_timeout timeoutLimit timeoutMinimum timeoutMaximum) h)"
| reset: "i < length (h_peers h) \<Longrightarrow> host_step h (enet_peer_reset i h)"
| disconnect: "i < length (h_peers h) \<Longrightarrow> host_step h (enet_peer_disconnect enet_host_flush i data h)"
| disconnect_now: "i < length (h_peers h) \<Longrightarrow> host_step h (enet_peer_disconnect_now enet_host_flush i data h)"
| disconnect_later: "i < length (h_peers h) \<Longrightarrow> host_step h (enet_peer_disconnect_later enet_host_flush i data h)"
| packet_create: "source_ok bytes n flags \<Longrightarrow>
    host_step h (h\<lparr>h_mem := snd (enet_packet_create bytes n flags (h_mem h))\<rparr>)"
| packet_destroy: "alive h (Some packet) \<Longrightarrow> packet_refs (h_mem h) packet = 0 \<Longrightarrow>
    host_step h (upd_mem (enet_packet_destroy (Some packet)) h)"
| network: "host_step h (h\<lparr>h_net := n\<rparr>)"

inductive host_run :: "system \<Rightarrow> host \<Rightarrow> bool" for sy :: system where
  created: "enet_host_create sy address peerCount channelLimit incomingBandwidth outgoingBandwidth = (Some h, m) \<Longrightarrow>
    host_run sy h"
| called: "host_run sy h \<Longrightarrow> host_step h h' \<Longrightarrow> host_run sy h'"

lemma host_ok_net: "host_ok h \<Longrightarrow> host_ok (h\<lparr>h_net := n\<rparr>)"
  by (erule host_ok_host) simp_all

lemma host_step_ok: "host_step h h' \<Longrightarrow> host_ok h \<Longrightarrow> host_ok h'"
proof (induction rule: host_step.induct)
  case (compress compressor h)
  have "limits_ok (fst (enet_host_compress compressor h))"
    using compress by (cases compressor)
      (auto simp: enet_host_compress_def limits_ok_def limits_def host_ok_def memory_safe_def)
  then show ?case using compress
    by (simp add: enet_host_compress_def host_ok_def memory_safe_def held_def accounted_def acct_view_def linked_ok_def)
next
  case (channel_limit h n)
  then show ?case by (rule host_ok_host) (simp_all add: enet_host_channel_limit_def limits_def)
next
  case (bandwidth_limit h a b)
  then show ?case by (rule host_ok_host) (simp_all add: enet_host_bandwidth_limit_def limits_def)
next
  case (checksum h c)
  then show ?case by (rule host_ok_host) (simp_all add: limits_def)
next
  case (ping i h)
  then show ?case by (simp add: enet_peer_ping_def host_ok_queue_outgoing)
next
  case (throttle_configure i h a b c)
  have "host_ok (upd_peer i (\<lambda>p. p\<lparr>p_packetThrottleInterval := a, p_packetThrottleAcceleration := b,
      p_packetThrottleDeceleration := c\<rparr>) h)"
    by (rule host_ok_fields) (use throttle_configure in \<open>simp_all add: peer_refs_def peer_ok_defs\<close>)
  then show ?case using throttle_configure
    by (simp add: enet_peer_throttle_configure_def Let_def host_ok_queue_outgoing)
next
  case (ping_interval h i n)
  then show ?case by (rule host_ok_fields) (simp_all add: enet_peer_ping_interval_def peer_refs_def peer_ok_defs)
next
  case (timeout h i a b c)
  then show ?case by (rule host_ok_fields) (simp_all add: enet_peer_timeout_def Let_def peer_refs_def peer_ok_defs)
next
  case (packet_create bytes n flags h)
  obtain res m where c: "enet_packet_create bytes n flags (h_mem h) = (res, m)" by fastforce
  have "memory_safe (h\<lparr>h_mem := m\<rparr>)"
    using memory_safe_create [OF host_ok_memory [OF packet_create(2)] packet_create(1) c] by simp
  then show ?case using host_ok_frame [OF packet_create(2)] c by simp
next
  case (packet_destroy h packet)
  then obtain k where k: "packets (h_mem h) packet = Some k" by (auto simp: alive_def)
  have r: "refs_ok (h_mem h) (held h)" using packet_destroy by (simp add: host_ok_def memory_safe_def)
  have "refs_ok (enet_packet_destroy (Some packet) (h_mem h)) (held h)"
    using refs_ok_destroy [OF r k] refs_ok_count [OF r k] packet_destroy(2) k by (simp add: packet_refs_def)
  then show ?case using packet_destroy
    by (intro host_ok_upd_mem) (simp_all add: host_ok_def memory_safe_def held_def limits_ok_def)
qed (simp_all add: keepsD(1) [OF service_keeps] keepsD(1) [OF check_events_keeps] keepsD(1) [OF flush_keeps]
    keepsD(1) [OF connect_keeps(1)] broadcast_ok send_ok host_ok_receive host_ok_reset host_ok_net
    real_flush.disconnect_ok real_flush.disconnect_now_ok real_flush.disconnect_later_ok)

lemma host_run_ok: "host_run sy h \<Longrightarrow> refs_ok (sy_mem sy) {#} \<Longrightarrow> host_ok h"
  by (induction rule: host_run.induct) (simp_all add: create_host_ok host_step_ok)

end
