(* ===== verification/Enet_Runs.thy ===== *)
theory Enet_Runs
  imports Enet_Service
begin

text \<open>
  What holds of a host from its creation by \<open>enet_host_create\<close> over any sequence of calls and
  any traffic to its end by \<open>enet_host_destroy\<close>.
\<close>

section \<open>Helper facts\<close>

lemma host_ok_peer_ok: "host_ok h \<Longrightarrow> p \<in> set (h_peers h) \<Longrightarrow> peer_ok p"
  by (simp add: host_ok_def memory_safe_def)

lemma sum_list_of_bool: "sum_list (map (\<lambda>x. of_bool (P x)) xs) = length (filter P xs)"
  by (induction xs) simp_all

lemma host_ok_counts:
  assumes "host_ok h"
  shows "h_connectedPeers h = length (filter (\<lambda>p. is_connected (p_state p)) (h_peers h))"
    "h_bandwidthLimitedPeers h
      = length (filter (\<lambda>p. is_connected (p_state p) \<and> p_incomingBandwidth p \<noteq> 0) (h_peers h))"
  using host_ok_accounted [OF assms]
  by (simp_all add: accounted_def acct_view_def conn_def limited_def comp_def sum_list_of_bool)

lemma refs_ok_references:
  "refs_ok m M \<Longrightarrow> packet_refs m k = count M (Some k)"
  using refs_ok_count refs_ok_dead by (fastforce simp: packet_refs_def split: option.splits)

text \<open>A system in which everything succeeds.\<close>

definition plain_system :: system where
  "plain_system = \<lparr>sy_mem = empty_memory, sy_net = silent_network, sy_socket = True, sy_bind = True,
     sy_address = None, sy_pointer = 16, sy_seed = 5\<rparr>"

lemma plain_memory: "refs_ok (sy_mem plain_system) {#}"
  by (simp add: plain_system_def empty_memory_def refs_ok_def)

lemma plain_malloc: "enet_malloc (sy_mem plain_system) = (True, empty_memory)" "enet_malloc empty_memory = (True, empty_memory)"
  by (simp_all add: plain_system_def empty_memory_def enet_malloc_def)

definition plain_host :: host where
  "plain_host = the (fst (enet_host_create plain_system None 2 4 0 0))"

lemma plain_created: "enet_host_create plain_system None 2 4 0 0 = (Some plain_host, h_mem plain_host)"
  by (simp add: plain_host_def enet_host_create_def plain_malloc Let_def plain_system_def protocol_limits)

definition busy_host :: host where
  "busy_host = enet_host_flush (snd (enet_host_connect \<lparr>ad_host = 0x7F000001, ad_port = 28785\<rparr> 2 7 plain_host))"

lemma busy_run: "host_run plain_system busy_host"
  unfolding busy_host_def using created [OF plain_created] connect flush by (blast intro: called)

section \<open>Properties\<close>

text \<open>
  C29: A new host has the peers it was asked for, all disconnected and knowing their own
  index, nothing queued, no packet in use, no connection counted, a sane datagram size and
  between 1 and 255 channels per connection; and creation fails exactly when too many peers are
  asked for or the operating system refuses memory or the socket.
\<close>

theorem enet_host_create_typed:
  assumes "refs_ok (sy_mem sy) {#}"
  shows "case enet_host_create sy address peerCount channelLimit incomingBandwidth outgoingBandwidth of
      (None, m) \<Rightarrow> peerCount > ENET_PROTOCOL_MAXIMUM_PEER_ID \<or> \<not> fst (enet_malloc (sy_mem sy))
        \<or> \<not> fst (enet_malloc (snd (enet_malloc (sy_mem sy)))) \<or> \<not> sy_socket sy \<or> address \<noteq> None \<and> \<not> sy_bind sy
    | (Some h, m) \<Rightarrow> host_ok h \<and> length (h_peers h) = peerCount \<and> peerCount \<le> ENET_PROTOCOL_MAXIMUM_PEER_ID
        \<and> fst (enet_malloc (sy_mem sy)) \<and> fst (enet_malloc (snd (enet_malloc (sy_mem sy))))
        \<and> sy_socket sy \<and> (address = None \<or> sy_bind sy)
        \<and> (\<forall>k < peerCount. p_state (peer_at h k) = Disconnected \<and> p_incomingPeerID (peer_at h k) = of_nat k)
        \<and> h_connectedPeers h = 0 \<and> held h = {#} \<and> h_dispatchQueue h = []
        \<and> 1 \<le> h_channelLimit h \<and> h_channelLimit h \<le> 255 \<and> h_mtu h = 1400
        \<and> h_incomingBandwidth h = incomingBandwidth \<and> h_outgoingBandwidth h = outgoingBandwidth"
proof (cases "enet_host_create sy address peerCount channelLimit incomingBandwidth outgoingBandwidth")
  case (Pair r m)
  show ?thesis
  proof (cases r)
    case None
    then show ?thesis using Pair by (auto simp: enet_host_create_def Let_def split: if_splits prod.splits)
  next
    case (Some h)
    note c = Pair [unfolded Some]
    obtain m' where h: "h = (new_host sy m' address peerCount channelLimit incomingBandwidth outgoingBandwidth)\<lparr>h_peers :=
        map (fresh_peer (new_host sy m' address peerCount channelLimit incomingBandwidth outgoingBandwidth))
          (map new_peer [0..<peerCount])\<rparr>" and n: "peerCount \<le> ENET_PROTOCOL_MAXIMUM_PEER_ID"
      using create_eq [OF c] by metis
    have "fst (enet_malloc (sy_mem sy)) \<and> fst (enet_malloc (snd (enet_malloc (sy_mem sy))))
        \<and> sy_socket sy \<and> (address = None \<or> sy_bind sy)"
      using c by (auto simp: enet_host_create_def Let_def split: if_splits prod.splits)
    moreover have "held h = {#}" by (simp add: held_def h fresh_peer_ok(2) sum_list_0 comp_def)
    ultimately show ?thesis
      using create_host_ok [OF c assms] n c Some
      by (simp add: h new_host_def zero_host_def limit_channels_def protocol_limits ENET_HOST_DEFAULT_MTU_def
          peer_at_def fresh_peer_def reset_fields_def new_peer_def)
  qed
qed

theorem enet_host_create_typed_witness:
  "length (h_peers plain_host) = 2 \<and> p_incomingPeerID (peer_at plain_host 1) = 1 \<and> h_channelLimit plain_host \<le> 255"
  using enet_host_create_typed [OF plain_memory, where address = None and peerCount = 2 and channelLimit = 4
    and incomingBandwidth = 0 and outgoingBandwidth = 0] by (simp add: plain_created)



text \<open>
  C4: After any run the host's count of connected peers is the number of peers in a connected
  state, its count of limited peers the number of those with a bandwidth limit, and every peer
  has a datagram size between 576 and 4096 bytes, at most 255 channels, all of them allocated,
  and none while it is disconnected.
\<close>

theorem host_run_counts_connections:
  assumes "host_run sy h" "refs_ok (sy_mem sy) {#}"
  shows "h_connectedPeers h = length (filter (\<lambda>p. is_connected (p_state p)) (h_peers h))
    \<and> h_bandwidthLimitedPeers h
       = length (filter (\<lambda>p. is_connected (p_state p) \<and> p_incomingBandwidth p \<noteq> 0) (h_peers h))
    \<and> (\<forall>p \<in> set (h_peers h). 576 \<le> p_mtu p \<and> p_mtu p \<le> 4096 \<and> p_channelCount p \<le> 255
       \<and> p_channelCount p \<le> length (p_channels p) \<and> (p_state p = Disconnected \<longrightarrow> p_channelCount p = 0))"
proof -
  have ok: "host_ok h" using host_run_ok assms by blast
  have "576 \<le> p_mtu p \<and> p_mtu p \<le> 4096 \<and> p_channelCount p \<le> 255
       \<and> p_channelCount p \<le> length (p_channels p) \<and> (p_state p = Disconnected \<longrightarrow> p_channelCount p = 0)"
    if "p \<in> set (h_peers h)" for p
    using host_ok_peer_ok [OF ok that] by (simp add: peer_ok_def mtu_ok_def protocol_limits)
  then show ?thesis using host_ok_counts [OF ok] by blast
qed

theorem host_run_counts_connections_witness:
  "h_connectedPeers busy_host
    = length (filter (\<lambda>p. is_connected (p_state p)) (h_peers busy_host))"
  using host_run_counts_connections [OF busy_run plain_memory] by blast



text \<open>
  C11: However a host was used, whatever is queued at its peers can be sent: every command that
  waits to be sent or acknowledged fits into a datagram of the size agreed with that peer, together
  with the header, and the round trip time and its variance stay between a millisecond and a day,
  so that no timeout computed from them is zero or wraps around.
\<close>

theorem host_run_traffic_bounded:
  assumes "host_run sy h" "refs_ok (sy_mem sy) {#}"
  shows "\<forall>p \<in> set (h_peers h). 1 \<le> p_roundTripTime p \<and> p_roundTripTime p \<le> 86400000
    \<and> p_roundTripTimeVariance p \<le> 86400000
    \<and> unat (p_roundTripTime p + 4 * p_roundTripTimeVariance p)
        = unat (p_roundTripTime p) + 4 * unat (p_roundTripTimeVariance p)
    \<and> (\<forall>c \<in> set (p_outgoingCommands p) \<union> set (p_sentReliableCommands p).
         4 + size_of c + unat (oc_fragmentLength c) \<le> unat (p_mtu p))"
  using host_ok_peer_ok [OF host_run_ok [OF assms]] peer_ok_round_trip
  by (fastforce simp: peer_ok_defs traffic_ok_def alone_def)

theorem host_run_traffic_bounded_witness:
  "list_all (\<lambda>p. 1 \<le> p_roundTripTime p) (h_peers busy_host)"
  using host_run_traffic_bounded [OF busy_run plain_memory] by (simp add: list_all_iff)

text \<open>
  C10: After any run the loop of \<open>enet_protocol_send_outgoing_commands\<close> ends, for every host that the
  application can have: a number of rounds linear in the lengths of the queues is enough, more would
  change nothing, and it ends because nothing is left that made it go on, or with a failure.  And
  it always has ended: the flag that would record a loop cut short was never set.
\<close>

theorem sending_always_ends:
  assumes "host_run sy h" "refs_ok (sy_mem sy) {#}"
  shows "\<not> h_hung h \<and> (\<exists>r event' h'. enet_protocol_send_outgoing_commands event chk h = (r, event', h')
    \<and> \<not> h_hung h' \<and> (r \<noteq> 0 \<or> \<not> h_continueSending h')
    \<and> (\<forall>k. send_rounds (Suc (sum_list (map send_work (h_peers h))) + k) chk event (h\<lparr>h_continueSending := True\<rparr>)
         = (r, event', h')))"
proof -
  have ok: "host_ok h" by (rule host_run_ok [OF assms])
  obtain r event' h' where r: "enet_protocol_send_outgoing_commands event chk h = (r, event', h')" by (metis prod_cases3)
  note e = send_outgoing_ends [OF host_ok_sendable [OF ok] r]
  have "\<not> h_hung h'" using e(1) host_ok_hung [OF ok] by simp
  then have "send_rounds (Suc (sum_list (map send_work (h_peers h))) + k) chk event (h\<lparr>h_continueSending := True\<rparr>)
      = (r, event', h')" for k
    using r send_rounds_more unfolding enet_protocol_send_outgoing_commands_def by (metis snd_conv)
  then show ?thesis using r e host_ok_hung [OF ok] \<open>\<not> h_hung h'\<close> by blast
qed

theorem sending_always_ends_witness:
  "\<exists>r event' h'. enet_protocol_send_outgoing_commands None True busy_host = (r, event', h') \<and> \<not> h_hung h'"
  using sending_always_ends [OF busy_run plain_memory, of None True] by blast

end
