(* ===== verification/Enet_Connections.thy ===== *)
theory Enet_Connections
  imports Enet_Host_Safe
begin

text \<open>
  What the connection protocol of \<open>enet/protocol.c\<close> promises: which connection requests are
  accepted and which refused, that both ends agree on the parameters of a connection, and that
  the events an application sees are the changes of state that happened.
\<close>

section \<open>The search for a slot\<close>

text \<open>
  A peer that counts against the address \<open>from\<close>, and one that is the requested connection itself.
\<close>

definition same_host :: "address \<Rightarrow> peer \<Rightarrow> bool" where
  "same_host from p \<longleftrightarrow> p_state p \<noteq> Disconnected \<and> p_state p \<noteq> Connecting
     \<and> ad_host (p_address p) = ad_host from"

definition same_connection :: "address \<Rightarrow> u32 \<Rightarrow> peer \<Rightarrow> bool" where
  "same_connection from connectID p \<longleftrightarrow>
     same_host from p \<and> ad_port (p_address p) = ad_port from \<and> p_connectID p = connectID"

lemma connect_scan_eq:
  "connect_scan from cid k ps peer d =
    (if \<exists>p \<in> set ps. same_connection from cid p then None
     else Some (case peer of Some j \<Rightarrow> Some j | None \<Rightarrow> first_free k ps, d + length (filter (same_host from) ps)))"
proof (induction ps arbitrary: k peer d)
  case (Cons p ps)
  note d = same_connection_def [of "from" cid p] same_host_def [of "from" p]
  show ?case
  proof (cases "p_state p = Disconnected")
    case True
    then show ?thesis by (cases peer) (simp_all add: Cons.IH d)
  next
    case False
    then show ?thesis by (cases peer) (simp_all add: Cons.IH d)
  qed
qed (simp split: option.split)

lemma first_free_least: "first_free k ps = Some j \<Longrightarrow> k \<le> j \<and> (\<forall>i < j - k. p_state (ps ! i) \<noteq> Disconnected)"
proof (induction ps arbitrary: k)
  case (Cons p ps)
  then show ?case by (fastforce simp: nth_Cons' split: if_splits)
qed simp

lemma first_free_None: "first_free k ps = None \<longleftrightarrow> (\<forall>p \<in> set ps. p_state p \<noteq> Disconnected)"
  by (induction ps arbitrary: k) auto

section \<open>Bounds of the parameters\<close>

lemma clamp_mtu_between: "576 \<le> clamp_mtu m \<and> clamp_mtu m \<le> 4096"
  by (auto simp: clamp_mtu_def protocol_limits not_less)

lemma clamp_mtu_id: "mtu_ok m \<Longrightarrow> clamp_mtu m = m"
  by (auto simp: clamp_mtu_def mtu_ok_def)

lemma clamp_window_ok: "4096 \<le> clamp_window w \<and> clamp_window w \<le> 65536"
  by (auto simp: clamp_window_def protocol_limits not_less)

lemma session_mask_3: "session_mask = 3"
  by (simp add: session_mask_def ENET_PROTOCOL_HEADER_SESSION_MASK_def ENET_PROTOCOL_HEADER_SESSION_SHIFT_def)

lemma and_3: "(s :: u8) AND 3 \<le> 3"
  by (rule word_and_le1)

lemma next_session_bound: "next_session r own \<le> 3"
  by (simp add: next_session_def session_mask_3 Let_def and_3)

lemma and_3_mod: "unat ((s :: u8) AND 3) = unat s mod 4"
proof -
  have "(3 :: u8) = mask 2" by (simp add: mask_eq_exp_minus_1)
  then have "s AND 3 = take_bit 2 s" by (simp add: take_bit_eq_mask)
  then show ?thesis by (simp only: unsigned_take_bit_eq) (simp add: take_bit_eq_mod)
qed

lemma step_session: "((s AND 3) + 1) AND 3 \<noteq> (s AND 3 :: u8)"
proof
  assume "((s AND 3) + 1) AND 3 = (s AND 3 :: u8)"
  then have e: "unat (((s AND 3) + 1) AND 3) = unat (s AND 3 :: u8)" by simp
  have "unat (s AND 3 :: u8) < 4" by (simp add: and_3_mod)
  then have "unat ((s AND 3) + 1 :: u8) = unat (s AND 3 :: u8) + 1" by (simp add: unat_word_ariths)
  then show False using e \<open>unat (s AND 3) < 4\<close> by (simp add: and_3_mod [of "(s AND 3) + 1"]) presburger
qed

lemma next_session_changes: "next_session r own \<noteq> own"
proof (cases "r = 0xFF")
  case True
  then show ?thesis using step_session [of "own + 1"] by (auto simp: next_session_def session_mask_3 Let_def)
next
  case False
  then show ?thesis using step_session [of "r + 1"] by (auto simp: next_session_def session_mask_3 Let_def)
qed

section \<open>Frames\<close>

lemma setup_outgoing_same:
  fixes c :: outgoing_command and p :: peer
  defines "q \<equiv> enet_peer_setup_outgoing_command c p"
  shows "p_connectID q = p_connectID p" "p_address q = p_address p" "p_windowSize q = p_windowSize p"
    "p_incomingSessionID q = p_incomingSessionID p" "p_outgoingSessionID q = p_outgoingSessionID p"
    "p_outgoingPeerID q = p_outgoingPeerID p" "p_eventData q = p_eventData p"
  by (simp_all add: q_def enet_peer_setup_outgoing_command_def Let_def upd_channel_def)

text \<open>What queueing a command leaves alone.\<close>

definition connection_view :: "peer \<Rightarrow> peer_state \<times> u32 \<times> address \<times> u32 \<times> u32 \<times> u8 \<times> u8 \<times> u16 \<times> nat \<times> nat" where
  "connection_view p = (p_state p, p_connectID p, p_address p, p_mtu p, p_windowSize p, p_incomingSessionID p,
     p_outgoingSessionID p, p_outgoingPeerID p, p_channelCount p, length (p_channels p))"

lemma queue_outgoing_view:
  assumes "i < length (h_peers h)"
  shows "connection_view (peer_at (snd (enet_peer_queue_outgoing_command i c None off n h)) i) = connection_view (peer_at h i)"
    "j \<noteq> i \<Longrightarrow> peer_at (snd (enet_peer_queue_outgoing_command i c None off n h)) j = peer_at h j"
  using assms
  by (auto simp: enet_peer_queue_outgoing_command_def Let_def host_malloc_def connection_view_def setup_outgoing_same
      split: prod.splits)

section \<open>Properties\<close>

text \<open>
  C12: An accepted connection request takes the first free slot; the same connection is not
  established yet and the address has fewer connections than the limit.  The new peer waits for
  its acknowledgement, with a datagram size, a window, session numbers and a number of channels
  within their bounds whatever the request asked for, the session numbers differ from the
  previous ones of the slot, and no other peer changes.
\<close>

theorem enet_protocol_handle_connect_accepts:
  assumes "enet_protocol_handle_connect c data h = (Some i, h')"
  shows "first_free 0 (h_peers h) = Some i
    \<and> (\<forall>p \<in> set (h_peers h). \<not> same_connection (h_receivedAddress h) (cn_connectID c) p)
    \<and> length (filter (same_host (h_receivedAddress h)) (h_peers h)) < h_duplicatePeers h
    \<and> (let p = peer_at h' i in p_state p = Acknowledging_Connect
       \<and> p_connectID p = cn_connectID c \<and> p_address p = h_receivedAddress h
       \<and> 576 \<le> p_mtu p \<and> p_mtu p \<le> 4096 \<and> 4096 \<le> p_windowSize p \<and> p_windowSize p \<le> 65536
       \<and> p_channelCount p = min (unat (cn_channelCount c)) (h_channelLimit h)
       \<and> length (p_channels p) = p_channelCount p
       \<and> p_incomingSessionID p \<le> 3 \<and> p_outgoingSessionID p \<le> 3
       \<and> p_incomingSessionID p \<noteq> p_incomingSessionID (peer_at h i)
       \<and> p_outgoingSessionID p \<noteq> p_outgoingSessionID (peer_at h i))
    \<and> (\<forall>j. j \<noteq> i \<longrightarrow> peer_at h' j = peer_at h j)"
proof -
  let ?n = "unat (cn_channelCount c)" let ?m = "if ?n > h_channelLimit h then h_channelLimit h else ?n"
  obtain ok h1 where m: "host_malloc h = (ok, h1)" by fastforce
  note f1 = host_mallocs_frame [OF m]
  have i: "first_free 0 (h_peers h) = Some i" "\<not> (\<exists>p \<in> set (h_peers h). same_connection (h_receivedAddress h) (cn_connectID c) p)"
    "length (filter (same_host (h_receivedAddress h)) (h_peers h)) < h_duplicatePeers h" and ok
    using assms by (auto simp: enet_protocol_handle_connect_def connect_scan_eq Let_def m split: if_splits option.splits)
  have il: "i < length (h_peers h)" using first_free_Some [OF i(1)] by simp
  let ?h2 = "upd_peer i (accept_peer h1 c data ?m) h1"
  let ?w = "verify_command ?h2 (verify_window ?h2 (cn_windowSize c)) ?m (peer_at ?h2 i)"
  have h': "h' = snd (enet_peer_queue_outgoing_command i ?w None 0 0 ?h2)"
    using assms i \<open>ok\<close> by (auto simp: enet_protocol_handle_connect_def connect_scan_eq Let_def m split: if_splits)
  have il2: "i < length (h_peers ?h2)" using il f1 by simp
  have v: "connection_view (peer_at h' i) = connection_view (accept_peer h1 c data ?m (peer_at h i))"
    using queue_outgoing_view(1) [OF il2, of ?w 0 0] il f1 by (simp add: h')
  have o: "\<forall>j. j \<noteq> i \<longrightarrow> peer_at h' j = peer_at h j"
    using queue_outgoing_view(2) [OF il2, of _ ?w 0 0] f1 by (simp add: h')
  have r: "h_receivedAddress h1 = h_receivedAddress h" using m by (auto elim: host_mallocE)
  show ?thesis
    using i o v clamp_mtu_between [of "cn_mtu c"] r next_session_bound next_session_changes
      clamp_window_ok
    by (auto simp: connection_view_def accept_peer_def Let_def min_def bandwidth_window_def)
qed

definition waiting_host :: host where
  "waiting_host = zero_host\<lparr>
     h_peers := [zero_peer\<lparr>p_mtu := 576, p_incomingSessionID := 0xFF, p_outgoingSessionID := 0xFF\<rparr>],
     h_channelLimit := 4, h_duplicatePeers := 4095\<rparr>"

definition greedy_request :: connect_fields where
  "greedy_request = \<lparr>cn_outgoingPeerID = 3, cn_incomingSessionID = 0xFF, cn_outgoingSessionID = 2,
     cn_mtu = 100000, cn_windowSize = 0, cn_channelCount = 9, cn_incomingBandwidth = 0,
     cn_outgoingBandwidth = 0, cn_packetThrottleInterval = 5000, cn_packetThrottleAcceleration = 2,
     cn_packetThrottleDeceleration = 2, cn_connectID = 77\<rparr>"

lemma greedy_accepted: "fst (enet_protocol_handle_connect greedy_request 0 waiting_host) = Some 0"
  by (simp add: enet_protocol_handle_connect_def waiting_host_def greedy_request_def zero_host_def zero_peer_def
      host_malloc_def enet_malloc_def empty_memory_def Let_def protocol_limits)

theorem enet_protocol_handle_connect_accepts_witness:
  "let p = peer_at (snd (enet_protocol_handle_connect greedy_request 0 waiting_host)) 0
   in p_channelCount p = 4 \<and> p_mtu p \<le> 4096 \<and> p_outgoingSessionID p \<noteq> 0xFF"
proof -
  obtain h' where h': "enet_protocol_handle_connect greedy_request 0 waiting_host = (Some 0, h')"
    using greedy_accepted by (metis prod.collapse)
  show ?thesis
    using enet_protocol_handle_connect_accepts [OF h']
    by (simp add: h' Let_def) (simp add: waiting_host_def greedy_request_def zero_host_def zero_peer_def peer_at_def)
qed

text \<open>
  C31: A connection request changes nothing when it asks for no channel or more than 255, when
  the same connection exists already, when its address has as many connections as the limit
  allows, or when all peers are in use.
\<close>

theorem enet_protocol_handle_connect_refuses:
  assumes "unat (cn_channelCount c) = 0 \<or> 255 < unat (cn_channelCount c)
    \<or> (\<exists>p \<in> set (h_peers h). same_connection (h_receivedAddress h) (cn_connectID c) p)
    \<or> h_duplicatePeers h \<le> length (filter (same_host (h_receivedAddress h)) (h_peers h))
    \<or> (\<forall>p \<in> set (h_peers h). p_state p \<noteq> Disconnected)"
  shows "enet_protocol_handle_connect c data h = (None, h)"
proof -
  have "first_free 0 (h_peers h) = None" if "\<forall>p \<in> set (h_peers h). p_state p \<noteq> Disconnected"
    using that by (simp add: first_free_None)
  then show ?thesis
    using assms by (auto simp: enet_protocol_handle_connect_def connect_scan_eq Let_def protocol_limits split: option.splits)
qed

theorem enet_protocol_handle_connect_refuses_witness:
  "enet_protocol_handle_connect greedy_request 0 (waiting_host\<lparr>h_duplicatePeers := 0\<rparr>)
    = (None, waiting_host\<lparr>h_duplicatePeers := 0\<rparr>)"
  by (rule enet_protocol_handle_connect_refuses) (simp add: waiting_host_def)

section \<open>The handshake\<close>

definition connect_of :: "protocol \<Rightarrow> connect_fields" where
  "connect_of command = (case pr_body command of Connect c _ \<Rightarrow> c | Verify_Connect c \<Rightarrow> c)"



end
