(* ===== verification/Enet_Events.thy ===== *)
theory Enet_Events
  imports Enet_Host_Safe
begin

text \<open>
  The events an application gets from \<open>enet_protocol_dispatch_incoming_commands\<close> of
  \<open>enet/protocol.c\<close>: each reports a change of state that happened, or the oldest packet delivered.
\<close>

section \<open>What a peer has to report\<close>

definition to_report :: "peer \<Rightarrow> event_type" where
  "to_report p =
    (case p_state p of
      Connection_Pending \<Rightarrow> Event_Connect
    | Connection_Succeeded \<Rightarrow> Event_Connect
    | Zombie \<Rightarrow> Event_Disconnect
    | Connected \<Rightarrow> if p_dispatchedCommands p = [] then Event_None else Event_Receive
    | _ \<Rightarrow> Event_None)"

text \<open>The peer after its report was taken.\<close>

definition reported :: "peer \<Rightarrow> event \<Rightarrow> peer \<Rightarrow> bool" where
  "reported p event q \<longleftrightarrow> ev_type event = to_report p \<and>
     (case ev_type event of
       Event_None \<Rightarrow> False
     | Event_Connect \<Rightarrow> ev_data event = p_eventData p \<and> p_state q = Connected
     | Event_Disconnect \<Rightarrow> ev_data event = p_eventData p \<and> p_state q = Disconnected \<and> p_channels q = []
     | Event_Receive \<Rightarrow> \<exists>c cs. p_dispatchedCommands p = c # cs \<and> ev_packet event = ic_packet c
         \<and> ev_channelID event = hd_channelID (pr_header (ic_command c))
         \<and> p_dispatchedCommands q = cs \<and> p_state q = Connected)"

text \<open>The fields that do not change while peers with nothing to report are skipped.\<close>

definition report_view :: "peer \<Rightarrow> peer_state \<times> incoming_command list \<times> u32" where
  "report_view p = (p_state p, p_dispatchedCommands p, p_eventData p)"

lemma to_report_view: "report_view p = report_view q \<Longrightarrow> to_report p = to_report q"
  by (simp add: report_view_def to_report_def)

lemma reported_view: "report_view p = report_view p' \<Longrightarrow> reported p event q = reported p' event q"
  using to_report_view [of p p'] by (simp add: reported_def report_view_def split: event_type.split)

lemma change_state_peer [simp]:
  "i < length (h_peers h) \<Longrightarrow> peer_at (enet_protocol_change_state i s h) i = (peer_at h i)\<lparr>p_state := s\<rparr>"
  by (simp add: enet_protocol_change_state_def)

lemma reset_peer_fields:
  assumes "i < length (h_peers h)"
  shows "p_state (peer_at (enet_peer_reset i h) i) = Disconnected" "p_channels (peer_at (enet_peer_reset i h) i) = []"
proof -
  let ?d = "enet_peer_on_disconnect i h"
  obtain w where "peer_at (enet_peer_reset i h) i = (peer_at (upd_peer i (reset_fields ?d) ?d) i)\<lparr>p_flags := w,
      p_acknowledgements := [], p_sentReliableCommands := [], p_sentUnreliableCommands := [],
      p_outgoingCommands := [], p_dispatchedCommands := [], p_channels := [], p_channelCount := 0\<rparr>"
    using reset_queues_peer [of i "upd_peer i (reset_fields ?d) ?d"] assms by (auto simp: enet_peer_reset_def Let_def)
  then show "p_state (peer_at (enet_peer_reset i h) i) = Disconnected" "p_channels (peer_at (enet_peer_reset i h) i) = []"
    using assms by (simp_all add: reset_fields_def)
qed

lemma receive_first:
  assumes "i < length (h_peers h)" "p_dispatchedCommands (peer_at h i) = c # cs" "ic_packet c = Some k"
  shows "\<exists>h'. enet_peer_receive i h = (Some (k, hd_channelID (pr_header (ic_command c))), h')
    \<and> p_dispatchedCommands (peer_at h' i) = cs \<and> p_state (peer_at h' i) = p_state (peer_at h i)
    \<and> length (h_peers h') = length (h_peers h)"
  using assms by (simp add: enet_peer_receive_def Let_def)

text \<open>Delivered commands have packets.\<close>

definition delivered_ok :: "host \<Rightarrow> bool" where
  "delivered_ok h \<longleftrightarrow> (\<forall>p \<in> set (h_peers h). \<forall>c \<in> set (p_dispatchedCommands p). ic_packet c \<noteq> None)"

lemma host_ok_delivered: "host_ok h \<Longrightarrow> delivered_ok h"
  by (fastforce simp: host_ok_def memory_safe_def peer_ok_defs command_ok_def delivered_ok_def split: option.splits)

text \<open>The host when a peer was taken from the queue.\<close>

definition unqueued :: "nat \<Rightarrow> nat list \<Rightarrow> host \<Rightarrow> host" where
  "unqueued i queue h = upd_peer i (\<lambda>p. p\<lparr>p_flags := p_flags p AND NOT ENET_PEER_FLAG_NEEDS_DISPATCH\<rparr>)
     (h\<lparr>h_dispatchQueue := queue\<rparr>)"

lemma unqueued_view: "report_view (peer_at (unqueued i queue h) j) = report_view (peer_at h j)"
proof (cases "j = i \<and> i < length (h_peers h)")
  case True
  then show ?thesis by (simp add: unqueued_def report_view_def) (simp add: peer_at_def)
next
  case False
  then show ?thesis by (cases "j = i") (simp_all add: unqueued_def upd_peer_def peer_at_def)
qed

lemma unqueued_frame [simp]: "length (h_peers (unqueued i queue h)) = length (h_peers h)"
  "h_dispatchQueue (unqueued i queue h) = queue"
  by (simp_all add: unqueued_def)

lemma delivered_at: "delivered_ok h \<longleftrightarrow> (\<forall>j < length (h_peers h). \<forall>c \<in> set (fst (snd (report_view (peer_at h j)))). ic_packet c \<noteq> None)"
  by (simp add: delivered_ok_def report_view_def all_set_conv_all_nth peer_at_def)

lemma unqueued_delivered: "delivered_ok h \<Longrightarrow> delivered_ok (unqueued i queue h)"
  by (simp add: delivered_at unqueued_view)

lemma dispatch_skip:
  "to_report (peer_at h i) = Event_None \<Longrightarrow> dispatch_loop (i # queue) event h = dispatch_loop queue event (unqueued i queue h)"
  using to_report_view [OF unqueued_view [of i queue h i]]
  by (simp add: Let_def to_report_def flip: unqueued_def split: peer_state.splits if_splits)

lemma dispatch_report:
  assumes i: "i < length (h_peers h)" and d: "delivered_ok h" and r: "to_report (peer_at h i) \<noteq> Event_None"
    and l: "dispatch_loop (i # queue) event h = (r, event', h')"
  shows "r = 1 \<and> ev_peer event' = Some i \<and> reported (peer_at h i) event' (peer_at h' i)"
proof -
  let ?h = "unqueued i queue h" let ?p = "peer_at ?h i"
  have il: "i < length (h_peers ?h)" using i by simp
  have t: "to_report ?p = to_report (peer_at h i)" by (rule to_report_view [OF unqueued_view])
  have v: "reported ?p e q = reported (peer_at h i) e q" for e q by (rule reported_view [OF unqueued_view])
  consider (connect) "p_state ?p = Connection_Pending \<or> p_state ?p = Connection_Succeeded"
    | (disconnect) "p_state ?p = Zombie"
    | (receive) c cs where "p_state ?p = Connected" "p_dispatchedCommands ?p = c # cs"
    using r t by (fastforce simp: to_report_def neq_Nil_conv split: peer_state.splits if_splits)
  then have "r = 1 \<and> ev_peer event' = Some i \<and> reported ?p event' (peer_at h' i)"
  proof cases
    case connect
    then show ?thesis using l il
      by (auto simp: Let_def reported_def to_report_def simp flip: unqueued_def)
  next
    case disconnect
    then show ?thesis using l reset_peer_fields [of i "?h\<lparr>h_recalculateBandwidthLimits := True\<rparr>"] il
      by (auto simp: Let_def reported_def to_report_def simp flip: unqueued_def)
  next
    case (receive c cs)
    have "ic_packet c \<noteq> None"
      using unqueued_delivered [OF d, of i queue] il receive by (fastforce simp: delivered_at report_view_def)
    then obtain k where k: "ic_packet c = Some k" by blast
    obtain h1 where h1: "enet_peer_receive i ?h = (Some (k, hd_channelID (pr_header (ic_command c))), h1)"
      "p_dispatchedCommands (peer_at h1 i) = cs" "p_state (peer_at h1 i) = Connected" "length (h_peers h1) = length (h_peers ?h)"
      using receive_first [OF il receive(2) k] receive(1) by metis
    have "p_dispatchedCommands (peer_at h' i) = cs \<and> p_state (peer_at h' i) = Connected"
      using l receive h1 il by (auto simp: Let_def link_dispatch_def simp flip: unqueued_def split: if_splits)
        (auto simp: peer_at_def)
    then show ?thesis using l receive h1 k
      by (auto simp: Let_def reported_def to_report_def simp flip: unqueued_def)
  qed
  then show ?thesis using v by simp
qed

lemma dispatch_loop_reports:
  assumes "\<forall>j \<in> set queue. j < length (h_peers h)" "delivered_ok h"
    "dispatch_loop queue event h = (r, event', h')" "h_dispatchQueue h = queue"
  shows "(r = 0 \<and> h_dispatchQueue h' = [] \<and> (\<forall>j \<in> set queue. to_report (peer_at h j) = Event_None)
      \<and> (\<forall>j. report_view (peer_at h' j) = report_view (peer_at h j)))
    \<or> (r = 1 \<and> (\<exists>before i after. queue = before @ i # after \<and> ev_peer event' = Some i
        \<and> (\<forall>j \<in> set before. to_report (peer_at h j) = Event_None)
        \<and> reported (peer_at h i) event' (peer_at h' i)))"
    (is "?none h queue \<or> ?one h queue")
  using assms
proof (induction queue arbitrary: h)
  case Nil
  then show ?case by simp
next
  case (Cons i queue)
  show ?case
  proof (cases "to_report (peer_at h i) = Event_None")
    case True
    let ?h = "unqueued i queue h"
    have v: "to_report (peer_at ?h j) = to_report (peer_at h j)"
      "reported (peer_at ?h j) e q = reported (peer_at h j) e q" for j e q
      by (rule to_report_view reported_view, rule unqueued_view)+
    have "?none ?h queue \<or> ?one ?h queue"
      by (rule Cons.IH) (use Cons.prems(1,2) Cons.prems(3) [unfolded dispatch_skip [OF True]] in
          \<open>simp_all add: unqueued_delivered\<close>)
    then show ?thesis
    proof
      assume "?none ?h queue"
      then show ?thesis using True by (simp add: v unqueued_view)
    next
      assume "?one ?h queue"
      then obtain before k after where "r = 1" "queue = before @ k # after" "ev_peer event' = Some k"
        "\<forall>j \<in> set before. to_report (peer_at h j) = Event_None" "reported (peer_at h k) event' (peer_at h' k)"
        unfolding v by blast
      then have "?one h (i # queue)" using True
        by (intro conjI exI [of _ "i # before"] exI [of _ k] exI [of _ after]) simp_all
      then show ?thesis ..
    qed
  next
    case False
    have "r = 1 \<and> ev_peer event' = Some i \<and> reported (peer_at h i) event' (peer_at h' i)"
      by (rule dispatch_report [OF _ Cons.prems(2) False Cons.prems(3)]) (use Cons.prems(1) in simp)
    then have "?one h (i # queue)"
      by (intro conjI exI [of _ "[]"] exI [of _ i] exI [of _ queue]) simp_all
    then show ?thesis ..
  qed
qed

section \<open>Properties\<close>

text \<open>
  C6: A call of the dispatcher either returns 0, and then no peer in the dispatch queue had
  anything to report, the queue is empty and no peer has changed what it has to report; or it
  returns 1 with the event of the first peer in the queue that had something to report, and that
  event is the truth: a connect event is about a peer that had just connected and is now counted
  as connected, a disconnect event about one that was gone and is now reset, a receive event
  hands over the packet that was delivered first.
\<close>

theorem dispatched_event_matches_state:
  assumes "host_ok h" "enet_protocol_dispatch_incoming_commands event h = (r, event', h')"
  shows "(r = 0 \<and> h_dispatchQueue h' = [] \<and> (\<forall>j \<in> set (h_dispatchQueue h). to_report (peer_at h j) = Event_None)
      \<and> (\<forall>j. report_view (peer_at h' j) = report_view (peer_at h j)))
    \<or> (r = 1 \<and> (\<exists>before i after. h_dispatchQueue h = before @ i # after \<and> ev_peer event' = Some i
        \<and> (\<forall>j \<in> set before. to_report (peer_at h j) = Event_None)
        \<and> reported (peer_at h i) event' (peer_at h' i)))"
  using dispatch_loop_reports [OF _ host_ok_delivered [OF assms(1)], of "h_dispatchQueue h" event r event' h'] assms
  by (simp add: host_ok_def linked_ok_def enet_protocol_dispatch_incoming_commands_def)

definition blank_event :: event where
  "blank_event = \<lparr>ev_type = Event_None, ev_peer = None, ev_channelID = 0, ev_data = 0, ev_packet = None\<rparr>"

definition pending_host :: host where
  "pending_host = (upd_peer 0 (\<lambda>p. p\<lparr>p_state := Connection_Pending, p_eventData := 9\<rparr>)
     (connected_pair 10))\<lparr>h_dispatchQueue := [0]\<rparr>"

lemma pending_host_ok: "host_ok pending_host"
  by (simp add: pending_host_def upd_peer_def upd_nth_def connected_pair_simps host_ok_def linked_ok_def memory_safe_def held_def
      peer_refs_def channels_refs_def channel_refs_def zero_channel_def refs_ok_def peer_ok_defs idle_def
      mtu_ok_def limits_ok_def limits_def buffer_holds_def channel_cmds_def accounted_def acct_view_def conn_def
      limited_def is_connected_def traffic_ok_empty)

theorem dispatched_event_matches_state_witness:
  "let (r, event, h) = enet_protocol_dispatch_incoming_commands blank_event pending_host
   in r = 1 \<and> ev_type event = Event_Connect \<and> ev_data event = 9 \<and> p_state (peer_at h 0) = Connected"
proof -
  obtain r event h where d: "enet_protocol_dispatch_incoming_commands blank_event pending_host = (r, event, h)"
    by (metis prod_cases3)
  have q: "h_dispatchQueue pending_host = [0]" and t: "to_report (peer_at pending_host 0) = Event_Connect"
    "p_eventData (peer_at pending_host 0) = 9"
    by (simp_all add: pending_host_def to_report_def upd_peer_def upd_nth_def connected_pair_simps)
  show ?thesis
    using dispatched_event_matches_state [OF pending_host_ok d] q t
    by (auto simp: d reported_def Cons_eq_append_conv)
qed

end
