(* ===== verification/Enet_Reception.thy ===== *)
theory Enet_Reception
  imports Enet_Outgoing_Safe Enet_Crc
begin

text \<open>
  What \<open>enet/protocol.c\<close> promises about datagrams on their way: one that was sent is recognised
  and passes the checksum, one that was damaged does not, one from a stranger is ignored, and
  an unsequenced command is not delivered twice.
\<close>

section \<open>Header and checksum\<close>

lemma small_bits12: "unat (w :: u16) < 4096 \<Longrightarrow> bit w k \<Longrightarrow> k < 12"
  using small_bits [of w 12] by simp

lemma header_fields_small:
  assumes "unat pid < 4096" "session \<le> 3" "flags = 0 \<or> flags = ENET_PROTOCOL_HEADER_FLAG_SENT_TIME"
  shows "header_peerID (compose_peerID pid session flags) = pid"
    "header_session (compose_peerID pid session flags) = session"
    "header_flags_of (compose_peerID pid session flags) = flags"
proof -
  have p: "\<And>k. bit pid k \<Longrightarrow> k < 12" using small_bits12 [OF assms(1)] .
  have f: "\<And>k. bit flags k \<Longrightarrow> 14 \<le> k \<and> k < 16" using assms(3) by (intro flag_bits) auto
  have s: "\<And>k. bit session k \<Longrightarrow> k < 2"
    by (rule small_bits) (use assms(2) in \<open>auto simp: word_le_nat_alt\<close>)
  show "header_peerID (compose_peerID pid session flags) = pid"
    "header_session (compose_peerID pid session flags) = session"
    "header_flags_of (compose_peerID pid session flags) = flags"
    using header_fields [OF p f s] by simp_all
qed

lemma length_header_bytes:
  "length (header_bytes i h) = (if h_headerFlags h AND ENET_PROTOCOL_HEADER_FLAG_SENT_TIME \<noteq> 0 then 4 else 2)"
  by (simp add: header_bytes_def Let_def)

lemma header_size_eq:
  "header_size flags r = (if flags AND ENET_PROTOCOL_HEADER_FLAG_SENT_TIME \<noteq> 0 then 4 else 2)
    + (if h_checksum r \<noteq> None then 4 else 0)"
  by (simp add: header_size_def sizeofs)

text \<open>The receiver's view of a datagram of a header, a checksum and commands.\<close>

lemma checksum_parts:
  assumes "h_checksum r = Some checksum" "h_receivedData r = header @ put_native32 c @ body" "n = length header + 4"
  shows "checksum_received n peer r
    = (checksum [header @ put_native32 (case peer of None \<Rightarrow> 0 | Some i \<Rightarrow> p_connectID (peer_at r i)) @ body] = c,
       r\<lparr>h_receivedData := header @ put_native32 (case peer of None \<Rightarrow> 0 | Some i \<Rightarrow> p_connectID (peer_at r i)) @ body\<rparr>)"
  using assms by (simp add: checksum_received_def Let_def native32.get_put)

lemma crc_flat: "enet_crc32 ((xs @ ys) # zs) = enet_crc32 [xs @ ys @ concat zs]"
  using crc32.gathered_is_received [of "(xs @ ys) # zs"] unfolding concat.simps append_assoc .

text \<open>A datagram of at least its header and checksum, in three parts.\<close>

lemma datagram_parts:
  assumes "4 \<le> n" "n \<le> length data"
  obtains header c body where "data = header @ put_native32 c @ body" "n = length header + 4"
proof
  show "data = take (n - 4) data @ put_native32 (get_native32 (drop (n - 4) data)) @ drop n data"
  proof -
    have "put_native32 (get_native32 (drop (n - 4) data)) = take 4 (drop (n - 4) data)"
      by (rule native32.put_get) (use assms in simp)
    moreover have "drop n data = drop 4 (drop (n - 4) data)" using assms(1) by simp
    ultimately show ?thesis by (simp only: append_take_drop_id)
  qed
qed (use assms in simp)

lemma put_native32_inj: "put_native32 a = put_native32 b \<Longrightarrow> a = b"
  by (metis append_Nil2 native32.get_put)

section \<open>Groups of unsequenced commands\<close>

lemma group_words:
  fixes g :: u16
  shows "unat (ucast g :: u32) = unat g" "(ucast g + 0x10000 :: u32) AND 0xFFFF = ucast g" "(ucast g :: u32) AND 0xFFFF = ucast g"
    "unat (ucast g mod 1024 :: u32) = unat g mod 1024"
    "unat (ucast g - ucast g mod 1024 :: u32) = unat g - unat g mod 1024"
    "unat (ucast g mod 1024 div 32 :: u32) = unat g mod 1024 div 32"
proof -
  have lg: "unat g < 65536" using unsigned_less [of g, where 'a = nat] by simp
  show u: "unat (ucast g :: u32) = unat g" using lg by (simp add: unsigned_ucast_eq take_bit_nat_eq_self)
  have m: "unat (w AND 0xFFFF :: u32) = unat w mod 65536" for w
  proof -
    have "w AND 0xFFFF = take_bit 16 w" by (simp add: take_bit_eq_mask mask_eq_exp_minus_1)
    then show ?thesis by (simp only: unsigned_take_bit_eq) (simp add: take_bit_eq_mod)
  qed
  have "unat (ucast g + 0x10000 :: u32) = unat g + 65536" using u lg by (simp add: unat_word_ariths)
  then show "(ucast g + 0x10000 :: u32) AND 0xFFFF = ucast g" "(ucast g :: u32) AND 0xFFFF = ucast g"
    unfolding word_unat_eq_iff m u using lg by simp_all
  show "unat (ucast g mod 1024 :: u32) = unat g mod 1024" using u by (simp add: unat_mod)
  then show "unat (ucast g - ucast g mod 1024 :: u32) = unat g - unat g mod 1024" using u by (simp add: unat_sub word_le_nat_alt)
  show "unat (ucast g mod 1024 div 32 :: u32) = unat g mod 1024 div 32" using u by (simp add: unat_mod unat_div)
qed

lemma back_and_forth: "unat (w :: u32) < 65536 \<Longrightarrow> ucast (ucast w :: u16) = w"
  by (simp add: word_unat_eq_iff unsigned_ucast_eq unsigned_take_bit_eq take_bit_nat_eq_self)

lemma enter_group_base:
  fixes g :: u16
  assumes "enter_group (ucast g) p = Some q"
  shows "ucast (p_incomingUnsequencedGroup q) = (ucast g - ucast g mod 1024 :: u32)"
    "length (p_unsequencedWindow q) = length (p_unsequencedWindow p)"
proof -
  have b: "ucast (ucast (ucast g - ucast g mod 1024 :: u32) :: u16) = (ucast g - ucast g mod 1024 :: u32)"
    by (rule back_and_forth) (use group_words(5) [of g] unsigned_less [of g, where 'a = nat] in simp)
  show "ucast (p_incomingUnsequencedGroup q) = (ucast g - ucast g mod 1024 :: u32)"
    "length (p_unsequencedWindow q) = length (p_unsequencedWindow p)"
    using assms b group_words(2,3) [of g]
    by (auto simp: enter_group_def Let_def ENET_PEER_UNSEQUENCED_WINDOW_SIZE_def split: if_splits)
qed

lemma marked_group_refused:
  fixes g :: u16
  assumes b: "ucast (p_incomingUnsequencedGroup q) = (ucast g - ucast g mod 1024 :: u32)" and w: "length (p_unsequencedWindow q) = 32"
  shows "enter_group (ucast g) (mark_group (ucast g) q) = None"
proof -
  let ?i = "ucast g mod 1024 :: u32"
  have le: "\<not> (ucast g :: u32) < ucast g - ?i" by (simp add: word_less_nat_alt group_words)
  have near: "\<not> ucast g - ?i + 32768 \<le> (ucast g :: u32)"
    using unsigned_less [of g, where 'a = nat] by (simp add: word_le_nat_alt unat_word_ariths group_words)
  have k: "unat (?i div 32) < 32" by (simp add: group_words)
  have bit: "(x OR group_bit ?i) AND group_bit ?i \<noteq> 0" for x
  proof -
    have j: "unat (?i mod 32) < 32" by (simp add: unat_mod)
    have "bit (x OR push_bit (unat (?i mod 32)) 1) (unat (?i mod 32))"
      unfolding bit_or_iff bit_single [OF j] by simp
    then show ?thesis unfolding group_bit_def and_push_bit_1 [OF j] .
  qed
  show ?thesis
    using b w k le near bit group_words(3) [of g]
    by (simp add: enter_group_def mark_group_def Let_def ENET_PEER_UNSEQUENCED_WINDOW_SIZE_def ENET_PEER_FREE_UNSEQUENCED_WINDOWS_def)
qed


text \<open>Queueing a command leaves the groups of a peer alone.\<close>

definition group_view :: "peer \<Rightarrow> u16 \<times> u32 list" where
  "group_view p = (p_incomingUnsequencedGroup p, p_unsequencedWindow p)"

definition groups :: "host \<Rightarrow> (u16 \<times> u32 list) list" where
  "groups h = map group_view (h_peers h)"

lemma groups_upd: "(\<And>p. group_view (f p) = group_view p) \<Longrightarrow> groups (upd_peer i f h) = groups h"
  by (simp add: groups_def map_upd_nth_same)

lemma groups_frame [simp]:
  "groups (h\<lparr>h_mem := m\<rparr>) = groups h" "groups (upd_mem f h) = groups h" "groups (snd (host_malloc h)) = groups h"
  "groups (mark_dispatch i h) = groups h"
proof -
  show "groups (h\<lparr>h_mem := m\<rparr>) = groups h" "groups (upd_mem f h) = groups h" "groups (snd (host_malloc h)) = groups h"
    by (simp_all add: groups_def host_malloc_def split: prod.split)
  have "groups (h\<lparr>h_linkFault := a, h_dispatchQueue := q\<rparr>) = groups h" for a q by (simp add: groups_def)
  then show "groups (mark_dispatch i h) = groups h"
    by (simp add: mark_dispatch_def groups_upd group_view_def)
qed

lemma dispatch_unreliable_groups: "groups (enet_peer_dispatch_incoming_unreliable_commands i c q h) = groups h"
  by (simp add: enet_peer_dispatch_incoming_unreliable_commands_def Let_def case_prod_beta groups_upd group_view_def upd_channel_def)

lemma dispatch_reliable_groups: "groups (enet_peer_dispatch_incoming_reliable_commands i c q h) = groups h"
  by (simp add: enet_peer_dispatch_incoming_reliable_commands_def Let_def case_prod_beta dispatch_unreliable_groups
      groups_upd group_view_def upd_channel_def)

lemma queue_incoming_groups: "groups (snd (enet_peer_queue_incoming_command i command data n flags 0 h)) = groups h"
proof -
  have m: "host_malloc g = (ok, g') \<Longrightarrow> groups g' = groups g" for g g' ok using groups_frame(3) [of g] by simp
  show ?thesis
    by (auto simp: enet_peer_queue_incoming_command_def Let_def dispatch_reliable_groups dispatch_unreliable_groups
        enqueue_incoming_def groups_upd group_view_def upd_channel_def dest!: m split: prod.splits option.splits)
qed

section \<open>Properties\<close>

text \<open>
  C34: The same unsequenced command is taken once: when a host has accepted it and the
  datagram arrives again, the second copy changes nothing in the host at all.
\<close>

theorem unsequenced_replay_ignored:
  assumes "i < length (h_peers h)" "length (p_unsequencedWindow (peer_at h i)) = 32"
    "enet_protocol_handle_send_unsequenced i command currentData h = (0, n, h')"
  shows "snd (snd (enet_protocol_handle_send_unsequenced i command currentData h')) = h'"
proof -
  let ?g = "ucast (unsequenced_group_of command) :: u32"
  have ok: "may_receive command (peer_at h i)" "data_fits (data_length_of command) currentData h"
    using assms(3) by (auto simp: enet_protocol_handle_send_unsequenced_def Let_def split: if_splits)
  have refused: "snd (snd (enet_protocol_handle_send_unsequenced i command currentData g)) = g"
    if "enter_group ?g (peer_at g i) = None" for g
    using that by (simp add: enet_protocol_handle_send_unsequenced_def Let_def)
  show ?thesis
  proof (cases "enter_group ?g (peer_at h i)")
    case None
    then have "h' = h" using assms(3) ok by (simp add: enet_protocol_handle_send_unsequenced_def Let_def)
    then show ?thesis using refused None by simp
  next
    case (Some p)
    let ?h = "upd_peer i (\<lambda>_. p) h"
    obtain q h2 where q: "enet_peer_queue_incoming_command i command (Some (drop currentData (h_receivedData h)))
        (data_length_of command) ENET_PACKET_FLAG_UNSEQUENCED 0 ?h = (q, h2)" by fastforce
    have g: "groups h2 = groups ?h" using queue_incoming_groups [of i command _ _ _ ?h] q by (metis snd_conv)
    then have l: "length (h_peers h2) = length (h_peers h)" by (metis groups_def length_map peers_upd_peer length_upd_nth)
    have "group_view (peer_at h2 i) = groups h2 ! i" using assms(1) l by (simp add: groups_def peer_at_def)
    also have "\<dots> = group_view p" unfolding g using assms(1) by (simp add: groups_def)
    finally have v: "group_view (peer_at h2 i) = group_view p" .
    have h': "h' = upd_peer i (mark_group ?g) h2"
      using assms(3) ok Some q by (auto simp: enet_protocol_handle_send_unsequenced_def Let_def split: if_splits)
    have "enter_group ?g (mark_group ?g (peer_at h2 i)) = None"
      using enter_group_base [OF Some] assms(2) v by (intro marked_group_refused) (simp_all add: group_view_def)
    then show ?thesis using refused h' assms(1) l by simp
  qed
qed

text \<open>A connected peer that receives the group 5 twice.\<close>

definition unsequenced_5 :: protocol where
  "unsequenced_5 = command_on 0x40 0 (Send_Unsequenced 5 2)"

definition receiving_pair :: host where
  "receiving_pair = upd_peer 0 (\<lambda>p. p\<lparr>p_unsequencedWindow := replicate 32 0\<rparr>)
     ((connected_pair 10)\<lparr>h_receivedData := [1, 2, 3, 4], h_maximumWaitingData := 1000\<rparr>)"

theorem unsequenced_replay_ignored_witness:
  "\<exists>n h. enet_protocol_handle_send_unsequenced 0 unsequenced_5 0 receiving_pair = (0, n, h)
     \<and> snd (snd (enet_protocol_handle_send_unsequenced 0 unsequenced_5 0 h)) = h"
proof -
  obtain r n h where d: "enet_protocol_handle_send_unsequenced 0 unsequenced_5 0 receiving_pair = (r, n, h)"
    by (metis prod_cases3)
  have p: "0 < length (h_peers receiving_pair)" "length (p_unsequencedWindow (peer_at receiving_pair 0)) = 32"
    by (simp_all add: receiving_pair_def upd_peer_def upd_nth_def connected_pair_simps)
  have "may_receive unsequenced_5 (peer_at receiving_pair 0)" "data_fits (data_length_of unsequenced_5) 0 receiving_pair"
    by (simp_all add: receiving_pair_def upd_peer_def upd_nth_def connected_pair_simps may_receive_def unsequenced_5_def
        command_on_def is_connected_def data_length_of_def data_fits_def)
  moreover have "enter_group (ucast (unsequenced_group_of unsequenced_5)) (peer_at receiving_pair 0) = Some (peer_at receiving_pair 0)"
    by (simp add: receiving_pair_def upd_peer_def upd_nth_def connected_pair_simps unsequenced_group_of_def unsequenced_5_def
        command_on_def enter_group_def Let_def ENET_PEER_UNSEQUENCED_WINDOW_SIZE_def ENET_PEER_FREE_UNSEQUENCED_WINDOWS_def)
  moreover have "upd_peer 0 (\<lambda>_. peer_at receiving_pair 0) receiving_pair = receiving_pair" by (simp add: upd_peer_def upd_nth_def peer_at_def)
  moreover have "fst (enet_peer_queue_incoming_command 0 unsequenced_5 (Some (drop 0 (h_receivedData receiving_pair)))
      (data_length_of unsequenced_5) ENET_PACKET_FLAG_UNSEQUENCED 0 receiving_pair) \<noteq> Queue_Error"
  proof -
    have k: "kind_of unsequenced_5 = 9" "hd_channelID (pr_header unsequenced_5) = 0" "data_length_of unsequenced_5 = 2"
      by (simp_all add: unsequenced_5_def command_on_def kind_of_def command_of_def ENET_PROTOCOL_COMMAND_MASK_def data_length_of_def)
    have h: "p_state (peer_at receiving_pair 0) = Connected" "p_totalWaitingData (peer_at receiving_pair 0) = 0"
      "h_maximumWaitingData receiving_pair = 1000" "mallocs (h_mem receiving_pair) = []" "h_receivedData receiving_pair = [1, 2, 3, 4]"
      by (simp_all add: receiving_pair_def upd_peer_def upd_nth_def connected_pair_simps)
    have pl: "incoming_place unsequenced_5 ch = (0, Some (length (ch_incomingUnreliableCommands ch)))" for ch
      by (simp add: incoming_place_def k)
    obtain q m where c: "enet_packet_create (Some [1, 2, 3, 4]) 2 ENET_PACKET_FLAG_UNSEQUENCED (h_mem receiving_pair) = (Some q, m)"
      "mallocs m = []"
      by (auto simp: enet_packet_create_def h enet_malloc_def Let_def packet_flags copy_bytes_exact)
    then show ?thesis
      by (auto simp: enet_peer_queue_incoming_command_def Let_def k h pl host_malloc_def enet_malloc_def split: prod.splits)
  qed
  ultimately have "r = 0"
    using d by (auto simp: enet_protocol_handle_send_unsequenced_def Let_def split: prod.splits if_splits)
  then show ?thesis using unsequenced_replay_ignored [OF p] d by blast
qed


text \<open>
  C35: What a host sends to a peer that knows it is recognised there.  Let the sender address
  the slot \<open>j\<close> of the receiver, with the session number and the connection number both ends
  agreed on, both using the CRC-32 checksum: the receiver takes the datagram as one of peer
  \<open>j\<close>, needs no decompression, its checksum test succeeds, and what follows the header is
  exactly the commands the sender put behind it.
\<close>

theorem datagram_recognised:
  fixes sender receiver :: host and i j :: nat
  defines "q \<equiv> peer_at sender i" and "p \<equiv> peer_at receiver j"
  assumes "h_checksum sender = Some enet_crc32" "h_checksum receiver = Some enet_crc32"
    "h_headerFlags sender = 0 \<or> h_headerFlags sender = ENET_PROTOCOL_HEADER_FLAG_SENT_TIME"
    "h_receivedData receiver = finish_header i body sender @ concat body"
    "j < length (h_peers receiver)" "j < 4095" "p_outgoingPeerID q = of_nat j"
    "p_state p \<noteq> Disconnected" "p_state p \<noteq> Zombie" "h_receivedAddress receiver = p_address p"
    "p_outgoingSessionID q = p_incomingSessionID p" "p_incomingSessionID p \<le> 3" "p_connectID q = p_connectID p"
  shows "let field = get_be16 (h_receivedData receiver); flags = header_flags_of field; n = header_size flags receiver
    in incoming_peer field receiver = Some (Some j)
      \<and> decompress_received flags n receiver = (True, receiver)
      \<and> fst (checksum_received n (Some j) receiver)
      \<and> drop n (h_receivedData (snd (checksum_received n (Some j) receiver))) = concat body"
proof -
  let ?flags = "h_headerFlags sender" let ?field = "compose_peerID (of_nat j) (p_outgoingSessionID q) ?flags"
  have j: "unat (of_nat j :: u16) = j" using assms(8) by (simp add: unat_of_nat)
  have f: "header_peerID ?field = of_nat j" "header_session ?field = p_outgoingSessionID q" "header_flags_of ?field = ?flags"
    using header_fields_small [of "of_nat j" "p_outgoingSessionID q" ?flags] assms(5,8,13,14) j by simp_all
  have hb: "header_bytes i sender = put_be16 ?field @ (if ?flags AND ENET_PROTOCOL_HEADER_FLAG_SENT_TIME \<noteq> 0
      then put_be16 (ucast (h_serviceTime sender)) else [])"
    using assms(8,9) j by (simp add: header_bytes_def Let_def protocol_limits flip: q_def)
  have d: "h_receivedData receiver = header_bytes i sender
      @ put_native32 (enet_crc32 [header_bytes i sender @ put_native32 (p_connectID p) @ concat body]) @ concat body"
    using assms(3,6,8,9,15) j crc_flat [of "header_bytes i sender" "put_native32 (p_connectID p)" body]
    by (simp add: finish_header_def Let_def protocol_limits flip: q_def)
  have field: "get_be16 (h_receivedData receiver) = ?field" by (simp add: d hb be16.get_put)
  have n: "header_size ?flags receiver = length (header_bytes i sender) + 4"
    by (simp add: header_size_eq length_header_bytes assms(4))
  have "incoming_peer ?field receiver = Some (Some j)"
    using assms(7,8,10-13) j by (simp add: incoming_peer_def Let_def f f [unfolded assms(13)] protocol_limits flip: p_def)
  moreover have "decompress_received ?flags n receiver = (True, receiver)" for n
    using assms(5) by (auto simp: decompress_received_def Let_def header_flags)
  ultimately show ?thesis
    unfolding field Let_def f(3) n
    by (simp add: checksum_parts [OF assms(4) d refl] p_def)
qed

definition known_pair :: "host \<times> host" where
  "known_pair =
    (let p = zero_peer\<lparr>p_state := Connected, p_outgoingSessionID := 1, p_incomingSessionID := 1, p_connectID := 7\<rparr>;
         sender = zero_host\<lparr>h_peers := [p], h_checksum := Some enet_crc32\<rparr>
     in (sender, sender\<lparr>h_receivedData := finish_header 0 [[5, 0, 0, 1]] sender @ [5, 0, 0, 1]\<rparr>))"

theorem datagram_recognised_witness:
  "let n = header_size (header_flags_of (get_be16 (h_receivedData (snd known_pair)))) (snd known_pair)
   in fst (checksum_received n (Some 0) (snd known_pair)) \<and> incoming_peer (get_be16 (h_receivedData (snd known_pair))) (snd known_pair) = Some (Some 0)"
proof -
  let ?s = "fst known_pair" and ?r = "snd known_pair"
  have r: "h_receivedData ?r = finish_header 0 [[5, 0, 0, 1]] ?s @ concat [[5, 0, 0, 1]]"
    "h_checksum ?s = Some enet_crc32" "h_checksum ?r = Some enet_crc32" "h_headerFlags ?s = 0" "0 < length (h_peers ?r)"
    by (simp_all add: known_pair_def Let_def zero_host_def)
  have p: "p_outgoingPeerID (peer_at ?s 0) = of_nat 0" "p_state (peer_at ?r 0) = Connected"
    "h_receivedAddress ?r = p_address (peer_at ?r 0)" "p_outgoingSessionID (peer_at ?s 0) = p_incomingSessionID (peer_at ?r 0)"
    "p_incomingSessionID (peer_at ?r 0) \<le> 3" "p_connectID (peer_at ?s 0) = p_connectID (peer_at ?r 0)"
    by (simp_all add: known_pair_def Let_def zero_host_def zero_peer_def peer_at_def)
  show ?thesis
    using datagram_recognised [OF r(2,3) _ r(1,5) _ p(1) _ _ p(3-6)] r(4) p(2) unfolding Let_def by simp
qed



text \<open>
  C37: A datagram from a stranger changes nothing: one too short to name a peer, and one that
  names a peer that does not exist, is not connected, has another address, or is in another
  session.
\<close>

theorem stray_datagram_ignored:
  fixes h :: host
  defines "field \<equiv> get_be16 (h_receivedData h)"
  defines "k \<equiv> unat (header_peerID field)"
  assumes "length (h_receivedData h) < 2 \<or> k \<noteq> 4095 \<and> (length (h_peers h) \<le> k
    \<or> p_state (peer_at h k) \<in> {Disconnected, Zombie}
    \<or> h_receivedAddress h \<noteq> p_address (peer_at h k) \<and> ad_host (p_address (peer_at h k)) \<noteq> ENET_HOST_BROADCAST
    \<or> unat (p_outgoingPeerID (peer_at h k)) < 4095 \<and> header_session field \<noteq> p_incomingSessionID (peer_at h k))"
  shows "enet_protocol_handle_incoming_commands event h = (0, event, h)"
proof (cases "length (h_receivedData h) < 2")
  case True
  then show ?thesis by (simp add: enet_protocol_handle_incoming_commands_def sizeofs)
next
  case False
  have a: "h_receivedAddress h \<noteq> p_address (peer_at h k) \<longleftrightarrow> ad_host (h_receivedAddress h) \<noteq> ad_host (p_address (peer_at h k))
      \<or> ad_port (h_receivedAddress h) \<noteq> ad_port (p_address (peer_at h k))"
    by (metis address.equality old.unit.exhaust)
  have "incoming_peer field h = None"
    using assms(3) False unfolding a by (auto simp: incoming_peer_def Let_def protocol_limits simp flip: k_def)
  then show ?thesis by (simp add: enet_protocol_handle_incoming_commands_def Let_def field_def)
qed


theorem stray_datagram_ignored_witness:
  "enet_protocol_handle_incoming_commands None (zero_host\<lparr>h_receivedData := [0, 0, 1, 2]\<rparr>)
    = (0, None, zero_host\<lparr>h_receivedData := [0, 0, 1, 2]\<rparr>)"
  by (rule stray_datagram_ignored) (simp add: zero_host_def get_be16_def header_peerID_def)

end
