(* ===== verification/Enet_Sharing.thy ===== *)
theory Enet_Sharing
  imports Enet_Host_Safe
begin

text \<open>
  What \<open>enet_host_bandwidth_throttle\<close> of \<open>enet/host.c\<close> promises: how the outgoing bandwidth is
  shared among the peers, and that the incoming bandwidth handed out does not exceed what there is.
\<close>

section \<open>Outgoing bandwidth\<close>

lemma share_bound:
  fixes a d :: u32
  assumes "a < d"
  shows "(a * 32) div d \<le> 32"
proof -
  have l: "unat a < unat d" using assms by (simp add: word_less_nat_alt)
  have "unat (a * 32) \<le> unat a * 32" by (simp add: unat_word_ariths)
  also have "\<dots> < 33 * unat d" using l by linarith
  finally have "unat (a * 32) div unat d < 33" using l by (intro less_mult_imp_div_less)
  then show ?thesis by (simp add: word_le_nat_alt unat_div)
qed

lemma throttle_of_bound: "throttle_of d b \<le> 32"
  using share_bound [of b d] by (auto simp: throttle_of_def ENET_PEER_PACKET_THROTTLE_SCALE_def not_le)

lemma over_share_less:
  assumes "over_share t e w p" "w \<le> 32"
  shows "peer_bandwidth e p < p_outgoingDataTotal p"
proof -
  have "peer_bandwidth e p < (w * p_outgoingDataTotal p) div 32"
    using assms(1) by (simp add: over_share_def ENET_PEER_PACKET_THROTTLE_SCALE_def not_le)
  then have "unat (peer_bandwidth e p) < unat (w * p_outgoingDataTotal p) div 32"
    by (simp add: word_less_nat_alt unat_div)
  also have "\<dots> \<le> (unat w * unat (p_outgoingDataTotal p)) div 32"
    by (intro div_le_mono) (simp add: unat_word_ariths)
  also have "\<dots> \<le> (32 * unat (p_outgoingDataTotal p)) div 32"
    using assms(2) by (intro div_le_mono mult_le_mono) (simp_all add: word_le_nat_alt)
  finally show ?thesis by (simp add: word_less_nat_alt)
qed

text \<open>A peer that has its share.\<close>

definition shared :: "peer \<Rightarrow> bool" where
  "shared p \<longleftrightarrow> p_incomingDataTotal p = 0 \<and> p_outgoingDataTotal p = 0
     \<and> p_packetThrottle p \<le> p_packetThrottleLimit p \<and> p_packetThrottleLimit p \<le> 32"

lemma limit_peer_shared: "over_share t e w p \<Longrightarrow> w \<le> 32 \<Longrightarrow> shared (limit_peer t e p)"
  using share_bound [OF over_share_less]
  by (auto simp: shared_def limit_peer_def Let_def ENET_PEER_PACKET_THROTTLE_SCALE_def not_less word_le_nat_alt)

lemma share_rest_shared:
  "is_connected (p_state p) \<Longrightarrow> p_outgoingBandwidthThrottleEpoch p \<noteq> t \<Longrightarrow> w \<le> 32 \<Longrightarrow> shared (share_rest t w p)"
  by (auto simp: share_rest_def shared_def)

definition done_shared :: "u32 \<Rightarrow> peer list \<Rightarrow> bool" where
  "done_shared t ps \<longleftrightarrow> (\<forall>p \<in> set ps. is_connected (p_state p) \<and> p_outgoingBandwidthThrottleEpoch p = t \<longrightarrow> shared p)"

lemma throttle_pass_shared:
  "throttle_pass t e w ps s = (ps', s') \<Longrightarrow> w \<le> 32 \<Longrightarrow> done_shared t ps \<Longrightarrow>
    done_shared t ps' \<and> sh_peersRemaining s' + of_nat (unshared t ps) = sh_peersRemaining s + of_nat (unshared t ps')
    \<and> map p_state ps' = map p_state ps"
proof (induction ps arbitrary: s ps' s')
  case (Cons p ps)
  show ?case
  proof (cases "over_share t e w p")
    case True
    let ?s = "s\<lparr>sh_needsAdjustment := True, sh_peersRemaining := sh_peersRemaining s - 1,
      sh_dataTotal := sh_dataTotal s - peer_bandwidth e p, sh_bandwidth := sh_bandwidth s - peer_bandwidth e p\<rparr>"
    obtain qs r where q: "throttle_pass t e w ps ?s = (qs, r)" by fastforce
    have "ps' = limit_peer t e p # qs" "s' = r" using Cons.prems(1) True q by (simp_all add: Let_def)
    moreover note Cons.IH [OF q Cons.prems(2)]
    ultimately show ?thesis
      using Cons.prems(3) True limit_peer_shared [OF True Cons.prems(2)]
      by (auto simp: done_shared_def over_share_def algebra_simps)
  next
    case False
    obtain qs r where q: "throttle_pass t e w ps s = (qs, r)" by fastforce
    have "ps' = p # qs" "s' = r" using Cons.prems(1) False q by (simp_all add: Let_def)
    moreover note Cons.IH [OF q Cons.prems(2)]
    ultimately show ?thesis using Cons.prems(3) by (auto simp: done_shared_def algebra_simps)
  qed
qed simp

lemma throttle_loop_shared:
  "done_shared t ps \<Longrightarrow> sh_peersRemaining s = of_nat (unshared t ps) \<Longrightarrow>
    (case throttle_loop t e ps s of (ps', s') \<Rightarrow> done_shared t ps' \<and> sh_peersRemaining s' = of_nat (unshared t ps')
      \<and> unshared t ps' \<le> unshared t ps \<and> map p_state ps' = map p_state ps)"
proof (induction t e ps s rule: throttle_loop.induct)
  case (1 t e ps s)
  show ?case
  proof (cases "sh_peersRemaining s > 0 \<and> sh_needsAdjustment s")
    case True
    let ?w = "throttle_of (sh_dataTotal s) (sh_bandwidth s)"
    obtain ps' s' where p: "throttle_pass t e ?w ps (s\<lparr>sh_needsAdjustment := False\<rparr>) = (ps', s')" by fastforce
    note q = throttle_pass_shared [OF p throttle_of_bound "1.prems"(1)]
    have le: "unshared t ps' \<le> unshared t ps" using throttle_pass_unshared [OF p] by simp
    have "sh_peersRemaining s' = of_nat (unshared t ps')" using q "1.prems"(2) by simp
    from "1.IH" [OF True refl p [symmetric] refl _ this] q le True
    show ?thesis by (auto simp: throttle_loop.simps [of t e ps] Let_def p split: prod.splits)
  next
    case False
    have "throttle_loop t e ps s = (ps, s)" by (simp only: throttle_loop.simps [of t e ps] if_not_P [OF False])
    then show ?thesis using "1.prems" by simp
  qed
qed

section \<open>Incoming bandwidth\<close>

text \<open>What the peers that were served keep.\<close>

definition served_sum :: "u32 \<Rightarrow> peer list \<Rightarrow> nat" where
  "served_sum t ps = sum_list (map (\<lambda>p. unat (p_outgoingBandwidth p))
     (filter (\<lambda>p. is_connected (p_state p) \<and> p_incomingBandwidthThrottleEpoch p = t) ps))"

lemma served_sum_Cons [simp]: "served_sum t (p # ps)
    = (if is_connected (p_state p) \<and> p_incomingBandwidthThrottleEpoch p = t then unat (p_outgoingBandwidth p) else 0) + served_sum t ps"
  by (simp add: served_sum_def)

lemma recalculate_pass_fair:
  "recalculate_pass t limit ps (n, r, b) = (ps', n', r', b') \<Longrightarrow> (k + unserved t ps) * unat limit \<le> unat b \<Longrightarrow>
    unat b' + served_sum t ps' = unat b + served_sum t ps \<and> (k + unserved t ps') * unat limit \<le> unat b'
    \<and> r' + of_nat (unserved t ps) = r + of_nat (unserved t ps')"
proof (induction ps arbitrary: n r b ps' n' r' b' k)
  case (Cons p ps)
  show ?case
  proof (cases "undemanding t limit p")
    case True
    obtain qs m q c where rec: "recalculate_pass t limit ps (True, r - 1, b - p_outgoingBandwidth p) = (qs, m, q, c)"
      by (metis prod_cases4)
    have e: "ps' = p\<lparr>p_incomingBandwidthThrottleEpoch := t\<rparr> # qs" "r' = q" "b' = c"
      using Cons.prems(1) True rec by (simp_all add: Let_def)
    have c: "is_connected (p_state p)" "p_incomingBandwidthThrottleEpoch p \<noteq> t" and o: "unat (p_outgoingBandwidth p) \<le> unat limit"
      using True by (auto simp: undemanding_def word_le_nat_alt word_gt_0 not_le)
    have u: "unat limit + (k + unserved t ps) * unat limit \<le> unat b" using Cons.prems(2) c by simp
    then have p: "unat (p_outgoingBandwidth p) \<le> unat b" using o by linarith
    then have s: "unat (b - p_outgoingBandwidth p) = unat b - unat (p_outgoingBandwidth p)"
      by (intro unat_sub) (simp add: word_le_nat_alt)
    then have "(k + unserved t ps) * unat limit \<le> unat (b - p_outgoingBandwidth p)" using u o by linarith
    note ih = Cons.IH [OF rec this]
    then have "q + (1 + of_nat (unserved t ps)) = r + of_nat (unserved t qs)" by (simp add: algebra_simps)
    moreover have "unat c + served_sum t (p\<lparr>p_incomingBandwidthThrottleEpoch := t\<rparr> # qs) = unat b + served_sum t (p # ps)"
      using conjunct1 [OF ih] c p unfolding s by (auto simp: le_add_diff_inverse2)
    ultimately show ?thesis unfolding e using ih c by simp
  next
    case False
    obtain qs m q c where rec: "recalculate_pass t limit ps (n, r, b) = (qs, m, q, c)" by (metis prod_cases4)
    have e: "ps' = p # qs" "r' = q" "b' = c" using Cons.prems(1) False rec by (simp_all add: Let_def)
    let ?k = "of_bool (is_connected (p_state p) \<and> p_incomingBandwidthThrottleEpoch p \<noteq> t)"
    have "(k + ?k + unserved t ps) * unat limit \<le> unat b" using Cons.prems(2) by (simp add: add.assoc)
    from Cons.IH [OF rec this] show ?thesis unfolding e by (simp add: algebra_simps)
  qed
qed simp

lemma recalculate_pass_settled:
  "recalculate_pass t limit ps (n, r, b) = (ps', n', r', b') \<Longrightarrow> (n \<longrightarrow> n') \<and> map p_state ps' = map p_state ps"
proof (induction ps arbitrary: n r b ps' n' r' b')
  case (Cons p ps)
  then show ?case by (fastforce simp: Let_def split: prod.splits if_splits)
qed simp

lemma recalculate_loop_fair:
  "r = of_nat (unserved t ps) \<Longrightarrow> unserved t ps < 2 ^ 32 \<Longrightarrow> n \<or> unserved t ps * unat l \<le> unat b \<Longrightarrow>
    (case recalculate_loop t ps n r b l of (ps', l') \<Rightarrow>
      served_sum t ps' + unserved t ps' * unat l' \<le> served_sum t ps + unat b \<and> map p_state ps' = map p_state ps)"
proof (induction t ps n r b l rule: recalculate_loop.induct)
  case (1 t ps n r b l)
  show ?case
  proof (cases "r > 0 \<and> n")
    case True
    let ?l = "b div r"
    obtain ps' n' r' b' where p: "recalculate_pass t ?l ps (False, r, b) = (ps', n', r', b')" by (metis prod_cases4)
    have u: "unserved t ps = unat r" using "1.prems" by (simp add: unat_of_nat take_bit_nat_eq_self)
    have "unserved t ps * unat ?l \<le> unat b" unfolding u by (simp add: unat_div)
    then have k: "(0 + unserved t ps) * unat ?l \<le> unat b" by simp
    note f = recalculate_pass_fair [OF p k]
    have "r' = of_nat (unserved t ps')" using f "1.prems"(1) by simp
    moreover have "unserved t ps' < 2 ^ 32" using recalculate_pass_unserved [OF p] "1.prems"(2) by simp
    moreover have "n' \<or> unserved t ps' * unat ?l \<le> unat b'" using f by simp
    moreover note recalculate_pass_settled [OF p] f
    moreover have "recalculate_loop t ps n r b l = recalculate_loop t ps' n' r' b' ?l"
      by (simp only: recalculate_loop.simps [of t ps] if_P [OF True] Let_def p split_conv)
    ultimately show ?thesis using "1.IH" [OF True refl p [symmetric] refl refl] by (auto split: prod.splits)
  next
    case False
    have e: "recalculate_loop t ps n r b l = (ps, l)" by (simp only: recalculate_loop.simps [of t ps] if_not_P [OF False])
    have u: "unserved t ps = unat r" using "1.prems" by (simp add: unat_of_nat take_bit_nat_eq_self)
    have "unserved t ps * unat l \<le> unat b"
    proof (cases "r = 0")
      case True
      then show ?thesis using u by simp
    next
      case pos: False
      then show ?thesis using "1.prems"(3) False by (simp add: word_gt_0)
    qed
    then show ?thesis using e by simp
  qed
qed

section \<open>The properties\<close>

definition connected_peers :: "peer list \<Rightarrow> peer list" where
  "connected_peers = filter (\<lambda>p. is_connected (p_state p))"

lemma announced_sum:
  "sum_list (map (\<lambda>p. unat (if p_incomingBandwidthThrottleEpoch p = t then p_outgoingBandwidth p else l))
      (connected_peers ps)) = served_sum t ps + unserved t ps * unat l"
  by (induction ps) (simp_all add: connected_peers_def served_sum_def unserved_def)

lemma throttle_peers_shared:
  assumes fresh: "\<forall>p \<in> set (h_peers h). p_outgoingBandwidthThrottleEpoch p \<noteq> t"
    and count: "h_connectedPeers h = length (connected_peers (h_peers h))" "h_connectedPeers h < 2 ^ 32"
  shows "\<forall>p \<in> set (connected_peers (throttle_peers t e h)). shared p"
    and "map p_state (throttle_peers t e h) = map p_state (h_peers h)"
proof -
  have f: "done_shared t (h_peers h)" using fresh by (simp add: done_shared_def)
  have "filter (\<lambda>p. is_connected (p_state p) \<and> p_outgoingBandwidthThrottleEpoch p \<noteq> t) (h_peers h)
      = connected_peers (h_peers h)"
    unfolding connected_peers_def using fresh by (auto intro: filter_cong)
  then have u: "unshared t (h_peers h) = h_connectedPeers h" using count by (simp add: unshared_def)
  define s where "s = \<lparr>sh_needsAdjustment = h_bandwidthLimitedPeers h > 0,
              sh_peersRemaining = of_nat (h_connectedPeers h),
              sh_dataTotal = (if h_outgoingBandwidth h \<noteq> 0
                then sum_list (map p_outgoingDataTotal (filter (\<lambda>p. is_connected (p_state p)) (h_peers h))) else - 1),
              sh_bandwidth = (if h_outgoingBandwidth h \<noteq> 0 then (h_outgoingBandwidth h * e) div 1000 else - 1)\<rparr>"
  obtain ps s' where l: "throttle_loop t e (h_peers h) s = (ps, s')" by fastforce
  have post: "done_shared t ps" "sh_peersRemaining s' = of_nat (unshared t ps)" "unshared t ps \<le> unshared t (h_peers h)"
      "map p_state ps = map p_state (h_peers h)"
    using throttle_loop_shared [OF f, of s e] l u unfolding s_def by simp_all
  have lt: "unshared t ps < 2 ^ 32" using post(3) u count(2) by simp
  let ?w = "throttle_of (sh_dataTotal s') (sh_bandwidth s')"
  have e: "throttle_peers t e h = (if sh_peersRemaining s' > 0 then map (share_rest t ?w) ps else ps)"
    using l by (simp add: throttle_peers_def s_def Let_def)
  show "\<forall>p \<in> set (connected_peers (throttle_peers t e h)). shared p"
  proof (cases "sh_peersRemaining s' > 0")
    case True
    have "shared (share_rest t ?w p)" if "p \<in> set ps" "is_connected (p_state p)" for p
      using that post(1) share_rest_shared [OF that(2) _ throttle_of_bound, of t]
      by (cases "p_outgoingBandwidthThrottleEpoch p = t") (auto simp: done_shared_def share_rest_def)
    moreover have "is_connected (p_state (share_rest t ?w p)) = is_connected (p_state p)" for p by (simp add: share_rest_def)
    ultimately show ?thesis using True by (auto simp: e connected_peers_def)
  next
    case False
    then have "(of_nat (unshared t ps) :: u32) = 0" using post(2) by (simp add: word_gt_0)
    then have "unshared t ps = 0" using lt unat_of_nat [of "unshared t ps", where 'a = 32] by (simp add: take_bit_nat_eq_self)
    then show ?thesis using post(1) False
      by (auto simp: e connected_peers_def done_shared_def unshared_def filter_empty_conv)
  qed
  have "map p_state (map (share_rest t ?w) ps) = map p_state ps" by (simp add: share_rest_def)
  then show "map p_state (throttle_peers t e h) = map p_state (h_peers h)" using post(4) by (simp add: e)
qed


definition crowded :: host where
  "crowded = (connected_pair 10)\<lparr>h_outgoingBandwidth := 10000, h_incomingBandwidth := 10000,
     h_bandwidthLimitedPeers := 1, h_connectedPeers := 2,
     h_peers := [zero_peer\<lparr>p_state := Connected, p_incomingBandwidth := 1000, p_outgoingBandwidth := 2000,
                   p_outgoingDataTotal := 9000, p_packetThrottle := 32\<rparr>,
                 zero_peer,
                 zero_peer\<lparr>p_state := Connected, p_outgoingBandwidth := 20000, p_outgoingDataTotal := 3000\<rparr>]\<rparr>"

lemma zero_peer_idle:
  "p_state zero_peer = Disconnected" "p_outgoingBandwidthThrottleEpoch zero_peer = 0"
  "p_incomingBandwidthThrottleEpoch zero_peer = 0" "p_outgoingBandwidth zero_peer = 0"
  by (simp_all add: zero_peer_def)

lemma crowded_counts:
  "h_connectedPeers crowded = length (connected_peers (h_peers crowded))" "h_connectedPeers crowded = 2"
  "\<forall>p \<in> set (h_peers crowded). p_outgoingBandwidthThrottleEpoch p \<noteq> 5000"
  "\<forall>p \<in> set (h_peers crowded). p_incomingBandwidthThrottleEpoch p \<noteq> 5000" "h_incomingBandwidth crowded = 10000"
  by (simp_all add: crowded_def connected_peers_def is_connected_def zero_peer_idle)




end
