(* ===== verification/Spec2Isabelle.thy ===== *)
theory Spec2Isabelle
  imports Enet_List Enet_Crc Enet_Runs Enet_Connections Enet_Events Enet_Reception
    Enet_Progress Enet_Sharing
begin

text \<open>
  A verification development of QServ, a game server for Cube 2: Sauerbraten.

  \<^bold>\<open>The program.\<close>  QServ is the game server (\<open>engine/server.cpp\<close>, \<open>fpsgame/server.cpp\<close>) with modules
  for chat commands, an IRC bridge and the countries of players (\<open>mod/\<close>, \<open>ircbot/\<close>, \<open>GeoIP/\<close>, \<open>sqlite/\<close>).
  Everything it says to its players goes through the ENet library under \<open>enet/\<close>, which is written in C,
  and turns UDP datagrams into connections with reliable, ordered, fragmented and unreliable
  messages.  This development models ENet: the packets and lists it is built of, the format of
  its datagrams, the queues of a connection, and the protocol engine that serves a host, up to
  the calls that \<open>engine/server.cpp\<close> makes (\<open>enet_host_create\<close>, \<open>enet_host_service\<close>, \<open>enet_host_broadcast\<close>,
  \<open>enet_peer_send\<close>, \<open>enet_peer_disconnect\<close> and others).

  \<^bold>\<open>How the parts interact.\<close>  A host owns an array of peers and a socket.  A peer is a connection: its
  state, its channels with the queues of commands that were received, and its queues of commands
  to be sent, sent but not acknowledged, and to be acknowledged.  The application queues packets
  with \<open>enet_peer_send\<close>; \<open>enet_host_service\<close> packs the queues into datagrams, reads datagrams and hands
  their commands to handlers, and reports events through the dispatch queue of the host.  A packet
  may be in many queues at once, and its reference count decides when it is freed; this is where
  a mistake in any part would become a use after free, and the reason for the invariant
  \<open>host_ok\<close> that all operations are shown to keep.

  \<^bold>\<open>Theories and code.\<close>

  \<^item> \<open>Prelude\<close>: words, lists, updates by index.
  \<^item> \<open>Enet_List\<close>: \<open>enet/list.c\<close>, \<open>list.h\<close>, over a heap of next and previous links; shows that the functions
    refine list operations (\<open>dl_list\<close>).  All later theories use HOL lists for the queues.
  \<^item> \<open>Enet_Time\<close>: the macros of \<open>time.h\<close> and \<open>utility.h\<close> over 32-bit words.
  \<^item> \<open>Enet_Packet\<close>: \<open>enet/packet.c\<close> and the allocator of \<open>callbacks.c\<close> over a store of packets (\<open>memory\<close>),
    with \<open>fault\<close> for what would be undefined behaviour.  \<open>Enet_Crc\<close>: the checksum of \<open>packet.c\<close>.
  \<^item> \<open>Enet_Protocol\<close>: the commands of \<open>protocol.h\<close>, their bytes, the table of sizes of \<open>protocol.c\<close>.
  \<^item> \<open>Enet_State\<close>: the structs of \<open>enet.h\<close> as records: \<open>packet\<close>, \<open>outgoing_command\<close>, \<open>incoming_command\<close>,
    \<open>acknowledgement\<close>, \<open>channel\<close>, \<open>peer\<close>, \<open>compressor\<close>, \<open>host\<close>.  A field \<open>x\<close> of \<open>ENetPeer\<close> is \<open>p_x\<close>, of
    \<open>ENetHost\<close> \<open>h_x\<close>, and so on.
  \<^item> \<open>Enet_Refs\<close>: the invariant \<open>memory_safe\<close>: the reference count of every packet is the number of queue
    entries that point at it, every entry points at a live packet, and the peers are well formed.
  \<^item> \<open>Enet_Peer_Send\<close>, \<open>Enet_Peer_Receive\<close>, \<open>Enet_Peer_Life\<close>: all functions of \<open>enet/peer.c\<close>; the last one with
    the invariant \<open>host_ok\<close> (\<open>memory_safe\<close>, the counters of the host, the dispatch queue).
  \<^item> \<open>Enet_Engine\<close>, \<open>Enet_Handlers\<close>, \<open>Enet_Incoming\<close>, \<open>Enet_Outgoing\<close>, \<open>Enet_Service\<close>: \<open>enet/protocol.c\<close> from top to
    bottom, with \<open>enet_socket_send\<close> and \<open>enet_socket_receive\<close> of \<open>enet/unix.c\<close>; \<open>Enet_Handlers_Safe\<close> and
    \<open>Enet_Outgoing_Safe\<close> show that they keep \<open>host_ok\<close>.
  \<^item> \<open>Enet_Host\<close>, \<open>Enet_Host_Safe\<close>: \<open>enet/host.c\<close>.
  \<^item> \<open>Enet_Service\<close> ends with the relation \<open>host_step\<close>: one call of the API, or arbitrary traffic
    arriving, and \<open>host_run\<close>: any sequence of them after \<open>enet_host_create\<close>.

  \<^bold>\<open>What is shown.\<close>  The properties stand in the theory of the component they are about, and where
  they need more, in theories of their own:
  \<^item> lists, time, checksum, packets, wire format: \<open>Enet_List\<close>, \<open>Enet_Time\<close>, \<open>Enet_Crc\<close>, \<open>Enet_Packet\<close>, \<open>Enet_Protocol\<close>;
  \<^item> queues of a peer: numbering, fragmentation, ordered delivery, replays, reset
    (\<open>Enet_Peer_Send\<close>, \<open>Enet_Peer_Receive\<close>, \<open>Enet_Peer_Life\<close>);
  \<^item> whole runs of a host: no memory fault, exact counters, complete release, commands that fit into
    datagrams, a sending loop that ends (\<open>Enet_Runs\<close>);
  \<^item> the handshake: what is accepted, what is refused, that both ends agree (\<open>Enet_Connections\<close>);
  \<^item> the events the application sees (\<open>Enet_Events\<close>);
  \<^item> acknowledgements, timeouts and round trip times (\<open>Enet_Timing\<close>);
  \<^item> datagrams received: whom they are from, damage, strangers, replays (\<open>Enet_Reception\<close>);
  \<^item> datagrams sent: their size, and that packing loses no reliable command (\<open>Enet_Sending\<close>);
  \<^item> that the sending loop ends: every full datagram lessens what waits (\<open>Enet_Progress\<close>);
  \<^item> the bandwidth throttle: every peer gets a share, and the shares add up (\<open>Enet_Sharing\<close>).

  \<^bold>\<open>Interfaces.\<close>  \<open>node_lists\<close> is what the queues need of a list, \<open>shared_packets\<close> what they need of a
  packet store, \<open>fixed_codec\<close> a reader and writer of a field, \<open>datagram_checksum\<close> what the receiver
  needs of a checksum, and \<open>host_flush\<close> what \<open>enet_peer_disconnect\<close> needs of \<open>enet_host_flush\<close>, which is
  defined on top of it.  Each is interpreted on the definitions of the model.

  \<^bold>\<open>Bounds.\<close>  Integers are words of their C width; sizes are natural numbers where the code computes
  with \<open>size_t\<close> and no subtraction can wrap, and wrap at \<open>2 ^ 64\<close> where one can.
  \<open>receive_rounds\<close> has 256 rounds because the code has.  The loop
  of \<open>enet_protocol_send_outgoing_commands\<close> runs while some datagram was full; the model gives it a
  number of rounds linear in the lengths of the queues (\<open>send_work\<close>), and \<open>h_hung\<close> records if that
  was not enough; \<open>Enet_Progress\<close> shows that it is, and \<open>sending_always_ends\<close> of \<open>Enet_Runs\<close> that this holds of every host
  a run can reach, because \<open>host_ok\<close> keeps every queued command small enough for a datagram and every
  round trip time positive.  All other loops are structural or come with a termination proof.

  \<^bold>\<open>What is assumed.\<close>  Whatever the environment does is data of the model: the clock (\<open>host_time\<close>), the
  datagrams that arrive and the outcomes of sending (\<open>network\<close>), the outcomes of \<open>malloc\<close>, the bytes of
  fresh memory, what \<open>enet_socket_wait\<close> reports.  The checksum and compressor callbacks are fields of
  the host, the intercept callback an argument; \<open>intercept_ok\<close> says that it does nothing to the
  host the API does not allow.  \<open>host_step\<close> asks of the application not to pass dangling
  pointers, and, because the code has the flaws described at \<open>memory_safe\<close>, not to send
  unsequenced packets and not to set a decompressor: the theorems about runs are about hosts
  that keep to this.  QServ itself does neither.

  \<^bold>\<open>Not modelled.\<close>  The compressor of \<open>enet/compress.c\<close> (only its callbacks' type), the rest of
  \<open>enet/unix.c\<close> and \<open>enet/win32.c\<close> (thin wrappers of system calls), the installation of callbacks, that
  \<open>enet_socket_send\<close> may read past the end of a packet that was shortened after it was queued
  (\<open>h_overread\<close> only records it).  Of the rest of the repository nothing is modelled: the C++ of the game
  server, the engine and the QServ modules; the GeoIP library and its generated tables; SQLite,
  which is third-party code.
\<close>

end
